(* ===== verification/Prelude.thy ===== *)
theory Prelude
  imports Main "HOL-Library.AList"
begin

text \<open>
  Shared vocabulary of the development.

  Go values are modelled as follows throughout.
  \<^item> \<^verbatim>\<open>int64\<close> counters (terms, log indices) are mathematical integers; a run of the cluster
    needs $2^{63}$ steps before one of them could wrap around.
  \<^item> \<^verbatim>\<open>string\<close> and \<^verbatim>\<open>[]byte\<close> are both byte sequences, hence both \<open>string\<close>: an
    Isabelle \<open>char\<close> is exactly one byte. A nil slice and an empty slice are both \<open>[]\<close>: the
    code only ever tests \<^verbatim>\<open>len\<close> of them.
  \<^item> \<^verbatim>\<open>error\<close> results are values: \<open>Inl e\<close> for a read that fails, and a pair of the new
    state and an \<open>option\<close> error for an operation that mutates its receiver.
  \<^item> a Go map with \<^verbatim>\<open>int64\<close> values is a partial function read with \<open>go_get\<close>, which
    yields Go's zero value for an absent key.
\<close>

section \<open>Go values\<close>

type_synonym int64 = int
type_synonym duration = int
type_synonym bytes = string
type_synonym node_id = string

definition go_get :: "('k \<rightharpoonup> int) \<Rightarrow> 'k \<Rightarrow> int" where
  "go_get m k = (case m k of None \<Rightarrow> 0 | Some v \<Rightarrow> v)"

definition go_get_str :: "('k \<rightharpoonup> string) \<Rightarrow> 'k \<Rightarrow> string" where
  "go_get_str m k = (case m k of None \<Rightarrow> [] | Some v \<Rightarrow> v)"

lemma go_get_upd [simp]: "go_get (m(k \<mapsto> v)) k' = (if k' = k then v else go_get m k')"
  by (simp add: go_get_def)

lemma go_get_empty [simp]: "go_get Map.empty k = 0"
  by (simp add: go_get_def)

lemma go_get_str_upd [simp]:
  "go_get_str (m(k \<mapsto> v)) k' = (if k' = k then v else go_get_str m k')"
  by (simp add: go_get_str_def)

section \<open>Collections used by the component proofs\<close>

named_theorems storage_defs \<open>definitions of a storage implementation's operations\<close>
named_theorems log_defs \<open>definitions of the Log operations\<close>
named_theorems node_defs \<open>definitions of the RaftNode operations\<close>

section \<open>Maps with a contiguous integer domain\<close>

text \<open>
  The log of a node is observed as a partial function from indices to entries. What every
  component relies on is that its domain is one interval.
\<close>

definition interval_map :: "int \<Rightarrow> int \<Rightarrow> (int \<rightharpoonup> 'a) \<Rightarrow> bool" where
  "interval_map f l m \<longleftrightarrow> 1 \<le> f \<and> f \<le> l + 1 \<and> dom m = {f..l}"

lemma interval_map_None: "interval_map f l m \<Longrightarrow> m i = None \<longleftrightarrow> i < f \<or> l < i"
  unfolding interval_map_def by (metis atLeastAtMost_iff domIff not_less)

lemma interval_map_Some: "interval_map f l m \<Longrightarrow> f \<le> i \<Longrightarrow> i \<le> l \<Longrightarrow> \<exists>e. m i = Some e"
  using interval_map_None [of f l m i] by (cases "m i") auto

lemma interval_map_upd:
  assumes "interval_map f l m" "f \<le> i" "i \<le> l + 1"
  shows "interval_map f (max l i) (m(i \<mapsto> e))"
  using assms unfolding interval_map_def by auto

lemma interval_map_upto:
  assumes "interval_map f l m" "f \<le> i + 1" "i \<le> l"
  shows "interval_map f i (m |` {..i})"
  using assms unfolding interval_map_def by auto

lemma interval_map_from:
  assumes "interval_map f l m" "f \<le> i" "i \<le> l + 1"
  shows "interval_map i l (m |` {i..})"
  using assms unfolding interval_map_def by auto

section \<open>Association lists as Go maps that are iterated\<close>

lemma map_of_filter_key:
  "map_of (filter (\<lambda>(k, _). P k) xs) = (\<lambda>k. if P k then map_of xs k else None)"
  by (induction xs) (auto simp: fun_eq_iff)

lemma distinct_fst_filter: "distinct (map fst xs) \<Longrightarrow> distinct (map fst (filter P xs))"
  by (induction xs) auto

section \<open>Integer intervals as lists\<close>

lemma filter_upto_interval: "filter (\<lambda>i. p \<le> i \<and> i < q) [a..b] = [max a p..min (b + 1) q - 1]"
  by (rule sorted_distinct_set_unique) (auto simp: sorted_wrt_filter)

lemma map_filter_the: "List.map_filter m xs = map (the \<circ> m) (filter (\<lambda>i. m i \<noteq> None) xs)"
  by (induction xs) (auto simp: map_filter_simps split: option.split)

lemma map_filter_none [simp]: "List.map_filter (\<lambda>x. None) xs = []"
  by (simp add: map_filter_the)

lemma map_filter_restrict:
  assumes "\<And>i. i \<in> set xs \<Longrightarrow> m i \<noteq> None \<longleftrightarrow> P i"
  shows "List.map_filter m xs = map (the \<circ> m) (filter P xs)"
  unfolding map_filter_the using assms by (metis (mono_tags, lifting) filter_cong)

lemma map_upto_shift: "map g [f + int p..f + int q - 1] = map (\<lambda>i. g (f + int i)) [p..<q]"
  by (rule nth_equalityI) (auto simp: algebra_simps)

section \<open>Majorities\<close>

lemma majorities_meet:
  assumes "finite E" "A \<subseteq> E" "B \<subseteq> E" "card E div 2 < card A" "card E div 2 < card B"
  shows "\<exists>x. x \<in> A \<and> x \<in> B"
proof (rule ccontr)
  assume "\<nexists>x. x \<in> A \<and> x \<in> B"
  then have "A \<inter> B = {}" by blast
  moreover have "finite A" "finite B" using assms(1-3) finite_subset by auto
  ultimately have "card (A \<union> B) = card A + card B" by (simp add: card_Un_disjoint)
  moreover have "card (A \<union> B) \<le> card E" using assms(1-3) by (simp add: card_mono)
  ultimately show False using assms(4,5) by linarith
qed

end
