(* ===== verification/Storage_Interface.thy ===== *)
theory Storage_Interface
  imports Prelude
begin

text \<open>
  \<^verbatim>\<open>internal/storage/interface.go\<close>: the data that is stored, the error values, the interface
  \<^verbatim>\<open>Storage\<close> as a record of operations over an implementation state, and the contract of each of
  the segregated interfaces (\<^verbatim>\<open>KVStorage\<close>, \<^verbatim>\<open>RaftStateStorage\<close>,
  \<^verbatim>\<open>LogStorage\<close>, \<^verbatim>\<open>SnapshotStorage\<close>) as a locale over an abstract state.
\<close>

section \<open>Data and errors\<close>

datatype storage_error =
    ErrKeyNotFound
  | ErrLogNotFound
  | ErrNoSnapshot
  | ErrStorageClosed
  | ErrBackend string

record LogEntry =
  le_Term :: int64
  le_Index :: int64
  le_Command :: bytes

record PersistentState =
  ps_CurrentTerm :: int64
  ps_VotedFor :: node_id

section \<open>The interface as a record of operations\<close>

text \<open>
  A value of the Go interface type is a record of operations on some implementation state \<open>'s\<close>.
  A mutating operation returns the state it leaves behind together with its error, so that an
  implementation may change state and still report a failure.
\<close>

record 's storage_ops =
  op_Get :: "'s \<Rightarrow> bytes \<Rightarrow> storage_error + bytes"
  op_Put :: "'s \<Rightarrow> bytes \<Rightarrow> bytes \<Rightarrow> 's \<times> storage_error option"
  op_Delete :: "'s \<Rightarrow> bytes \<Rightarrow> 's \<times> storage_error option"
  op_SaveRaftState :: "'s \<Rightarrow> PersistentState \<Rightarrow> 's \<times> storage_error option"
  op_LoadRaftState :: "'s \<Rightarrow> storage_error + PersistentState option"
  op_AppendLogEntries :: "'s \<Rightarrow> LogEntry list \<Rightarrow> 's \<times> storage_error option"
  op_GetLogEntry :: "'s \<Rightarrow> int64 \<Rightarrow> storage_error + LogEntry"
  op_GetLogEntries :: "'s \<Rightarrow> int64 \<Rightarrow> int64 \<Rightarrow> storage_error + LogEntry list"
  op_GetLastLogIndexAndTerm :: "'s \<Rightarrow> storage_error + int64 \<times> int64"
  op_TruncateLogAfter :: "'s \<Rightarrow> int64 \<Rightarrow> 's \<times> storage_error option"
  op_TruncateLogBefore :: "'s \<Rightarrow> int64 \<Rightarrow> 's \<times> storage_error option"
  op_SaveSnapshot :: "'s \<Rightarrow> int64 \<Rightarrow> int64 \<Rightarrow> bytes \<Rightarrow> 's \<times> storage_error option"
  op_LoadSnapshot :: "'s \<Rightarrow> storage_error + int64 \<times> int64 \<times> bytes"
  op_Close :: "'s \<Rightarrow> 's \<times> storage_error option"

section \<open>The abstract state an implementation stands for\<close>

record storage_abs =
  a_kv :: "bytes \<rightharpoonup> bytes"
  a_state :: PersistentState
  a_log :: "int64 \<rightharpoonup> LogEntry"
  a_snap :: "(int64 \<times> int64 \<times> bytes) option"

text \<open>A log is well formed when its indices form one interval and every entry sits at its index.\<close>

definition log_wf :: "(int64 \<rightharpoonup> LogEntry) \<Rightarrow> bool" where
  "log_wf m \<longleftrightarrow> (\<exists>f l. interval_map f l m) \<and> (\<forall>i e. m i = Some e \<longrightarrow> le_Index e = i)"

definition log_range :: "(int64 \<rightharpoonup> LogEntry) \<Rightarrow> int64 \<Rightarrow> int64 \<Rightarrow> LogEntry list" where
  "log_range m a b = List.map_filter m [a..b - 1]"

lemma log_wf_index: "log_wf m \<Longrightarrow> m i = Some e \<Longrightarrow> le_Index e = i"
  by (simp add: log_wf_def)

section \<open>Contracts\<close>

locale kv_storage =
  fixes ops :: "'s storage_ops"
    and inv :: "'s \<Rightarrow> bool"
    and abs :: "'s \<Rightarrow> storage_abs"
  assumes kv_get: "inv s \<Longrightarrow>
      op_Get ops s k = (case a_kv (abs s) k of None \<Rightarrow> Inl ErrKeyNotFound | Some v \<Rightarrow> Inr v)"
    and kv_put: "inv s \<Longrightarrow> \<exists>s'. op_Put ops s k v = (s', None) \<and> inv s'
      \<and> abs s' = (abs s)\<lparr>a_kv := (a_kv (abs s))(k \<mapsto> v)\<rparr>"
    and kv_delete: "inv s \<Longrightarrow> \<exists>s'. op_Delete ops s k = (s', None) \<and> inv s'
      \<and> abs s' = (abs s)\<lparr>a_kv := (a_kv (abs s))(k := None)\<rparr>"

text \<open>
  \<open>rng\<close> says which terms and indices the storage can represent, \<open>id_ok\<close> which node IDs: an
  implementation that encodes them as bytes keeps its promises for those only.
\<close>

locale state_storage =
  fixes ops :: "'s storage_ops"
    and inv :: "'s \<Rightarrow> bool"
    and abs :: "'s \<Rightarrow> storage_abs"
    and rng :: "int64 \<Rightarrow> bool"
    and id_ok :: "node_id \<Rightarrow> bool"
  assumes save_state: "inv s \<Longrightarrow> rng (ps_CurrentTerm ps) \<Longrightarrow> id_ok (ps_VotedFor ps) \<Longrightarrow>
      \<exists>s'. op_SaveRaftState ops s ps = (s', None) \<and> inv s' \<and> abs s' = (abs s)\<lparr>a_state := ps\<rparr>"
    and load_state: "inv s \<Longrightarrow> op_LoadRaftState ops s = Inr (Some (a_state (abs s)))"
    and no_id_ok: "id_ok []"

text \<open>
  \<open>can_append s i\<close> says that the storage accepts index \<open>i\<close> as the next one of an empty log: the
  in-memory storage remembers where its slice starts. Reads are promised inside the log only.
\<close>

locale log_storage =
  fixes ops :: "'s storage_ops"
    and inv :: "'s \<Rightarrow> bool"
    and abs :: "'s \<Rightarrow> storage_abs"
    and can_append :: "'s \<Rightarrow> int64 \<Rightarrow> bool"
    and rng :: "int64 \<Rightarrow> bool"
  assumes wf: "inv s \<Longrightarrow> log_wf (a_log (abs s))"
    and get_entry: "inv s \<Longrightarrow> interval_map f l (a_log (abs s)) \<Longrightarrow> 1 \<le> i \<Longrightarrow> i \<le> l \<Longrightarrow> op_GetLogEntry ops s i =
      (case a_log (abs s) i of None \<Rightarrow> Inl ErrLogNotFound | Some e \<Rightarrow> Inr e)"
    and get_range: "inv s \<Longrightarrow> interval_map f l (a_log (abs s)) \<Longrightarrow> 1 \<le> a \<Longrightarrow> b \<le> l + 1 \<Longrightarrow>
      op_GetLogEntries ops s a b = Inr (log_range (a_log (abs s)) a b)"
    and get_last_nonempty: "inv s \<Longrightarrow> interval_map f l (a_log (abs s)) \<Longrightarrow> a_log (abs s) l = Some e \<Longrightarrow>
      op_GetLastLogIndexAndTerm ops s = Inr (l, le_Term e)"
    and get_last_empty: "inv s \<Longrightarrow> a_log (abs s) = Map.empty \<Longrightarrow> a_snap (abs s) = None \<Longrightarrow>
      op_GetLastLogIndexAndTerm ops s = Inr (0, 0)"
    and get_last_snapshot: "inv s \<Longrightarrow> a_log (abs s) = Map.empty \<Longrightarrow>
      a_snap (abs s) = Some (i, t, d) \<Longrightarrow> 0 < i \<Longrightarrow> op_GetLastLogIndexAndTerm ops s = Inr (i, t)"
    and append_inside: "inv s \<Longrightarrow> interval_map f l (a_log (abs s)) \<Longrightarrow> f \<le> l \<Longrightarrow>
      f \<le> le_Index e \<Longrightarrow> le_Index e \<le> l + 1 \<Longrightarrow> rng (le_Term e) \<Longrightarrow> rng (le_Index e) \<Longrightarrow>
      \<exists>s'. op_AppendLogEntries ops s [e] = (s', None) \<and> inv s'
        \<and> abs s' = (abs s)\<lparr>a_log := (a_log (abs s))(le_Index e \<mapsto> e)\<rparr>"
    and append_empty: "inv s \<Longrightarrow> a_log (abs s) = Map.empty \<Longrightarrow> can_append s (le_Index e) \<Longrightarrow>
      1 \<le> le_Index e \<Longrightarrow> rng (le_Term e) \<Longrightarrow> rng (le_Index e) \<Longrightarrow>
      \<exists>s'. op_AppendLogEntries ops s [e] = (s', None) \<and> inv s'
        \<and> abs s' = (abs s)\<lparr>a_log := [le_Index e \<mapsto> e]\<rparr>"
    and truncate_after: "inv s \<Longrightarrow> interval_map f l (a_log (abs s)) \<Longrightarrow> f \<le> i + 1 \<Longrightarrow> i < l \<Longrightarrow>
      \<exists>s'. op_TruncateLogAfter ops s i = (s', None) \<and> inv s'
        \<and> abs s' = (abs s)\<lparr>a_log := a_log (abs s) |` {..i}\<rparr>
        \<and> (i < f \<longrightarrow> can_append s' f)"
    and truncate_before: "inv s \<Longrightarrow> interval_map f l (a_log (abs s)) \<Longrightarrow> f \<le> i \<Longrightarrow> i \<le> l + 1 \<Longrightarrow> f \<le> l \<Longrightarrow>
      \<exists>s'. op_TruncateLogBefore ops s i = (s', None) \<and> inv s'
        \<and> abs s' = (abs s)\<lparr>a_log := a_log (abs s) |` {i..}\<rparr>
        \<and> (l < i \<longrightarrow> can_append s' i)"
    and can_append_state: "inv s \<Longrightarrow> can_append s i \<Longrightarrow>
      can_append (fst (op_SaveRaftState ops s ps)) i"

locale snapshot_storage =
  fixes ops :: "'s storage_ops"
    and inv :: "'s \<Rightarrow> bool"
    and abs :: "'s \<Rightarrow> storage_abs"
    and rng :: "int64 \<Rightarrow> bool"
  assumes save_snapshot: "inv s \<Longrightarrow> rng i \<Longrightarrow> rng t \<Longrightarrow> \<exists>s'. op_SaveSnapshot ops s i t d = (s', None) \<and> inv s'
      \<and> abs s' = (abs s)\<lparr>a_snap := Some (i, t, d)\<rparr>"
    and load_snapshot: "inv s \<Longrightarrow> op_LoadSnapshot ops s =
      (case a_snap (abs s) of None \<Rightarrow> Inl ErrNoSnapshot | Some x \<Rightarrow> Inr x)"

locale storage = kv_storage ops inv abs + state_storage ops inv abs rng id_ok
    + log_storage ops inv abs can_append rng + snapshot_storage ops inv abs rng
  for ops :: "'s storage_ops"
    and inv :: "'s \<Rightarrow> bool"
    and abs :: "'s \<Rightarrow> storage_abs"
    and can_append :: "'s \<Rightarrow> int64 \<Rightarrow> bool"
    and rng :: "int64 \<Rightarrow> bool"
    and id_ok :: "node_id \<Rightarrow> bool"

end
