(* ===== verification/Raft_Types.thy ===== *)
theory Raft_Types
  imports Storage_Interface "HOL-Library.Word"
begin

text \<open>
  \<^verbatim>\<open>internal/raft/types.go\<close> and the messages of \<^verbatim>\<open>api/proto/raftpb\<close>: node states,
  commands, apply messages, RPC requests and responses, and the conversions between log entries
  and their protobuf form (\<^verbatim>\<open>internal/raft/raft.go\<close>).
\<close>

section \<open>Node states and commands\<close>

datatype NodeState = Follower | Candidate | Leader

fun NodeState_String :: "NodeState \<Rightarrow> string" where
  "NodeState_String Follower = ''Follower''"
| "NodeState_String Candidate = ''Candidate''"
| "NodeState_String Leader = ''Leader''"

text \<open>
  A command type is an \<^verbatim>\<open>int\<close>: a decoded command can carry a value outside the three
  constants, and the state machine has a branch for it.
\<close>

type_synonym CommandType = int

definition CommandPut :: CommandType where "CommandPut = 0"
definition CommandDelete :: CommandType where "CommandDelete = 1"
definition CommandNoop :: CommandType where "CommandNoop = 2"

lemmas command_consts = CommandPut_def CommandDelete_def CommandNoop_def

definition CommandType_String :: "CommandType \<Rightarrow> string" where
  "CommandType_String t =
     (if t = CommandPut then ''Put'' else if t = CommandDelete then ''Delete''
      else if t = CommandNoop then ''Noop'' else ''Unknown'')"

record Command =
  cmd_Type :: CommandType
  cmd_Key :: string
  cmd_Value :: bytes
  cmd_RequestID :: "64 word"

record ApplyMsg =
  CommandValid :: bool
  am_Command :: "Command option"
  CommandIndex :: int64
  CommandTerm :: int64
  SnapshotValid :: bool
  am_Snapshot :: bytes
  SnapshotTerm :: int64
  SnapshotIndex :: int64

section \<open>Timing constants, in nanoseconds\<close>

definition Millisecond :: duration where "Millisecond = 1000000"
definition RPCTimeout :: duration where "RPCTimeout = 100 * Millisecond"
definition DefaultElectionTimeoutMin :: duration where "DefaultElectionTimeoutMin = 150 * Millisecond"
definition DefaultElectionTimeoutMax :: duration where "DefaultElectionTimeoutMax = 300 * Millisecond"
definition DefaultHeartbeatInterval :: duration where "DefaultHeartbeatInterval = 50 * Millisecond"

lemmas timing_consts = Millisecond_def RPCTimeout_def DefaultElectionTimeoutMin_def
  DefaultElectionTimeoutMax_def DefaultHeartbeatInterval_def

section \<open>RPC messages\<close>

record pb_LogEntry =
  pb_Term :: int64
  pb_Index :: int64
  pb_Command :: bytes

record RequestVoteRequest =
  rv_Term :: int64
  rv_CandidateId :: node_id
  rv_LastLogIndex :: int64
  rv_LastLogTerm :: int64

record RequestVoteResponse =
  rvr_Term :: int64
  rvr_VoteGranted :: bool

record AppendEntriesRequest =
  ae_Term :: int64
  ae_LeaderId :: node_id
  ae_PrevLogIndex :: int64
  ae_PrevLogTerm :: int64
  ae_Entries :: "pb_LogEntry list"
  ae_LeaderCommit :: int64

record AppendEntriesResponse =
  aer_Term :: int64
  aer_Success :: bool
  aer_MatchIndex :: int64
  aer_ConflictIndex :: int64
  aer_ConflictTerm :: int64

record InstallSnapshotRequest =
  is_Term :: int64
  is_LeaderId :: node_id
  is_LastIncludedIndex :: int64
  is_LastIncludedTerm :: int64
  is_Data :: bytes

record InstallSnapshotResponse =
  isr_Term :: int64

definition convertLogEntriesToProto :: "LogEntry list \<Rightarrow> pb_LogEntry list" where
  "convertLogEntriesToProto entries =
     map (\<lambda>e. \<lparr>pb_Term = le_Term e, pb_Index = le_Index e, pb_Command = le_Command e\<rparr>) entries"

definition convertProtoToLogEntries :: "pb_LogEntry list \<Rightarrow> LogEntry list" where
  "convertProtoToLogEntries entries =
     map (\<lambda>e. \<lparr>le_Term = pb_Term e, le_Index = pb_Index e, le_Command = pb_Command e\<rparr>) entries"

lemma convert_roundtrip [simp]: "convertProtoToLogEntries (convertLogEntriesToProto es) = es"
  by (induction es) (simp_all add: convertProtoToLogEntries_def convertLogEntriesToProto_def)

lemma length_convert [simp]:
  "length (convertLogEntriesToProto es) = length es"
  "length (convertProtoToLogEntries ps) = length ps"
  by (simp_all add: convertProtoToLogEntries_def convertLogEntriesToProto_def)

end
