(* ===== verification/Command_Codec.thy ===== *)
theory Command_Codec
  imports Raft_Types
begin

text \<open>
  \<^verbatim>\<open>Command.Encode\<close> and \<^verbatim>\<open>DecodeCommand\<close> of \<^verbatim>\<open>internal/raft/types.go\<close>: the
  JSON form of a command. They call \<^verbatim>\<open>encoding/json\<close>, \<^verbatim>\<open>encoding/base64\<close> and
  \<^verbatim>\<open>unicode/utf8\<close> of Go's standard library; this theory models what the four fields of
  \<^verbatim>\<open>Command\<close> use of them, byte by byte.
\<close>

section \<open>Decimal numbers\<close>

definition code :: "char \<Rightarrow> nat" where
  "code c = of_char c"

definition chr_of :: "nat \<Rightarrow> char" where
  "chr_of n = char_of n"

fun dec_nat :: "nat \<Rightarrow> string" where
  "dec_nat n = (if n < 10 then [chr_of (48 + n)] else dec_nat (n div 10) @ [chr_of (48 + n mod 10)])"

declare dec_nat.simps [simp del]

definition dec_int :: "int \<Rightarrow> string" where
  "dec_int i = (if i < 0 then CHR ''-'' # dec_nat (nat (- i)) else dec_nat (nat i))"

definition is_digit :: "char \<Rightarrow> bool" where
  "is_digit c \<longleftrightarrow> 48 \<le> code c \<and> code c \<le> 57"

definition digits_val :: "string \<Rightarrow> nat" where
  "digits_val ds = foldl (\<lambda>n c. 10 * n + (code c - 48)) 0 ds"

section \<open>Base64 (standard alphabet, padded)\<close>

definition b64_char :: "nat \<Rightarrow> char" where
  "b64_char n =
     (if n < 26 then chr_of (65 + n) else if n < 52 then chr_of (71 + n)
      else if n < 62 then chr_of (n - 4) else if n = 62 then CHR ''+'' else CHR ''/'')"

definition b64_val :: "char \<Rightarrow> nat option" where
  "b64_val c =
     (let n = code c
      in if 65 \<le> n \<and> n \<le> 90 then Some (n - 65) else if 97 \<le> n \<and> n \<le> 122 then Some (n - 71)
         else if 48 \<le> n \<and> n \<le> 57 then Some (n + 4) else if n = 43 then Some 62
         else if n = 47 then Some 63 else None)"

fun b64_encode :: "bytes \<Rightarrow> string" where
  "b64_encode [] = []"
| "b64_encode [a] =
     [b64_char (code a div 4), b64_char (code a mod 4 * 16), CHR ''='', CHR ''='']"
| "b64_encode [a, b] =
     [b64_char (code a div 4), b64_char (code a mod 4 * 16 + code b div 16),
      b64_char (code b mod 16 * 4), CHR ''='']"
| "b64_encode (a # b # c # rest) =
     [b64_char (code a div 4), b64_char (code a mod 4 * 16 + code b div 16),
      b64_char (code b mod 16 * 4 + code c div 64), b64_char (code c mod 64)] @ b64_encode rest"

text \<open>The decoder on text without line breaks; left-over bits before the padding are ignored.\<close>

fun b64_decode :: "string \<Rightarrow> bytes option" where
  "b64_decode [] = Some []"
| "b64_decode (p # q # r # s # rest) =
     (case (b64_val p, b64_val q) of
        (Some x, Some y) \<Rightarrow>
          let b1 = chr_of (x * 4 + y div 16)
          in if r = CHR ''='' then
               (if s = CHR ''='' \<and> rest = [] then Some [b1] else None)
             else (case b64_val r of
               None \<Rightarrow> None
             | Some z \<Rightarrow>
                 let b2 = chr_of (y mod 16 * 16 + z div 4)
                 in if s = CHR ''='' then (if rest = [] then Some [b1, b2] else None)
                    else (case b64_val s of
                      None \<Rightarrow> None
                    | Some w \<Rightarrow> map_option (\<lambda>bs. b1 # b2 # chr_of (z mod 4 * 64 + w) # bs) (b64_decode rest)))
      | _ \<Rightarrow> None)"
| "b64_decode _ = None"

definition b64_DecodeString :: "string \<Rightarrow> bytes option" where
  "b64_DecodeString s = b64_decode (filter (\<lambda>c. code c \<noteq> 10 \<and> code c \<noteq> 13) s)"

section \<open>UTF-8\<close>

definition cont :: "char \<Rightarrow> bool" where
  "cont c \<longleftrightarrow> 128 \<le> code c \<and> code c < 192"

text \<open>Number of bytes of the valid multi-byte sequence at the head of a string, 0 if there is none.\<close>

fun utf8_size :: "string \<Rightarrow> nat" where
  "utf8_size (a # b # c # d # _) =
     (let x = code a; y = code b
      in if 194 \<le> x \<and> x \<le> 223 then (if cont b then 2 else 0)
         else if 224 \<le> x \<and> x \<le> 239 then
           (if cont b \<and> cont c \<and> (x = 224 \<longrightarrow> 160 \<le> y) \<and> (x = 237 \<longrightarrow> y < 160) then 3 else 0)
         else if 240 \<le> x \<and> x \<le> 244 then
           (if cont b \<and> cont c \<and> cont d \<and> (x = 240 \<longrightarrow> 144 \<le> y) \<and> (x = 244 \<longrightarrow> y < 144) then 4 else 0)
         else 0)"
| "utf8_size [a, b, c] =
     (let x = code a; y = code b
      in if 194 \<le> x \<and> x \<le> 223 then (if cont b then 2 else 0)
         else if 224 \<le> x \<and> x \<le> 239 then
           (if cont b \<and> cont c \<and> (x = 224 \<longrightarrow> 160 \<le> y) \<and> (x = 237 \<longrightarrow> y < 160) then 3 else 0)
         else 0)"
| "utf8_size [a, b] = (if 194 \<le> code a \<and> code a \<le> 223 \<and> cont b then 2 else 0)"
| "utf8_size _ = 0"

text \<open>\<^verbatim>\<open>utf8.EncodeRune\<close>, with the replacement character for surrogates.\<close>

definition utf8_encode :: "nat \<Rightarrow> bytes" where
  "utf8_encode r =
     (if r < 128 then [chr_of r]
      else if r < 2048 then [chr_of (192 + r div 64), chr_of (128 + r mod 64)]
      else if r < 65536 then
        (if 55296 \<le> r \<and> r < 57344 then [chr_of 239, chr_of 191, chr_of 189]
         else [chr_of (224 + r div 4096), chr_of (128 + r div 64 mod 64), chr_of (128 + r mod 64)])
      else [chr_of (240 + r div 262144), chr_of (128 + r div 4096 mod 64),
            chr_of (128 + r div 64 mod 64), chr_of (128 + r mod 64)])"

definition rune_error :: bytes where
  "rune_error = [chr_of 239, chr_of 191, chr_of 189]"

fun utf8_valid :: "string \<Rightarrow> bool" where
  "utf8_valid [] = True"
| "utf8_valid (c # cs) =
     (if code c < 128 then utf8_valid cs
      else if utf8_size (c # cs) = 0 then False else utf8_valid (drop (utf8_size (c # cs) - 1) cs))"

section \<open>JSON strings\<close>

definition hex_digit :: "nat \<Rightarrow> char" where
  "hex_digit n = (if n < 10 then chr_of (48 + n) else chr_of (87 + n))"

text \<open>The bytes \<^verbatim>\<open>htmlSafeSet\<close> leaves alone, and what the others become.\<close>

definition html_safe :: "char \<Rightarrow> bool" where
  "html_safe c \<longleftrightarrow> 32 \<le> code c \<and> code c \<noteq> 34 \<and> code c \<noteq> 92 \<and> code c \<noteq> 60 \<and> code c \<noteq> 62 \<and> code c \<noteq> 38"

definition escape_ascii :: "char \<Rightarrow> string" where
  "escape_ascii c =
     (let n = code c; bs = chr_of 92
      in if n = 92 \<or> n = 34 then [bs, c]
         else if n = 8 then [bs, CHR ''b''] else if n = 12 then [bs, CHR ''f'']
         else if n = 10 then [bs, CHR ''n''] else if n = 13 then [bs, CHR ''r'']
         else if n = 9 then [bs, CHR ''t'']
         else [bs, CHR ''u'', CHR ''0'', CHR ''0'', hex_digit (n div 16), hex_digit (n mod 16)])"

definition line_sep :: "string \<Rightarrow> bool" where
  "line_sep s \<longleftrightarrow> take 2 s = [chr_of 226, chr_of 128] \<and> length s \<ge> 3 \<and> code (s ! 2) \<in> {168, 169}"

fun json_escape :: "string \<Rightarrow> string" where
  "json_escape [] = []"
| "json_escape (c # cs) =
     (if code c < 128 then (if html_safe c then [c] else escape_ascii c) @ json_escape cs
      else let n = utf8_size (c # cs)
           in if n = 0 then [chr_of 92] @ ''ufffd'' @ json_escape cs
              else if line_sep (c # cs)
              then [chr_of 92] @ ''u202'' @ [hex_digit (code (cs ! 1) mod 16)] @ json_escape (drop (n - 1) cs)
              else c # take (n - 1) cs @ json_escape (drop (n - 1) cs))"

definition json_quote :: "string \<Rightarrow> string" where
  "json_quote s = CHR 0x22 # json_escape s @ [CHR 0x22]"

section \<open>Command.Encode\<close>

definition Command_Encode :: "Command \<Rightarrow> bytes" where
  "Command_Encode c =
     [CHR ''{''] @ json_quote ''type'' @ '':'' @ dec_int (cmd_Type c)
     @ '','' @ json_quote ''key'' @ '':'' @ json_quote (cmd_Key c)
     @ (if cmd_Value c = [] then []
        else '','' @ json_quote ''value'' @ '':'' @ [CHR 0x22] @ b64_encode (cmd_Value c) @ [CHR 0x22])
     @ (if cmd_RequestID c = 0 then []
        else '','' @ json_quote ''request_id'' @ '':'' @ dec_nat (unat (cmd_RequestID c)))
     @ [CHR ''}'']"

section \<open>Parsing JSON text\<close>

datatype json =
    JNull
  | JBool bool
  | JNum string
  | JStr bytes
  | JArr "json list"
  | JObj "(bytes \<times> json) list"

definition is_space :: "char \<Rightarrow> bool" where
  "is_space c \<longleftrightarrow> code c = 32 \<or> code c = 9 \<or> code c = 10 \<or> code c = 13"

definition skip_ws :: "string \<Rightarrow> string" where
  "skip_ws s = dropWhile is_space s"

definition hex_val :: "char \<Rightarrow> nat option" where
  "hex_val c =
     (let n = code c
      in if 48 \<le> n \<and> n \<le> 57 then Some (n - 48) else if 97 \<le> n \<and> n \<le> 102 then Some (n - 87)
         else if 65 \<le> n \<and> n \<le> 70 then Some (n - 55) else None)"

definition getu4 :: "string \<Rightarrow> nat option" where
  "getu4 s =
     (case s of
        p # q # r # t # _ \<Rightarrow>
          (case (hex_val p, hex_val q, hex_val r, hex_val t) of
             (Some a, Some b, Some c, Some d) \<Rightarrow> Some (((a * 16 + b) * 16 + c) * 16 + d)
           | _ \<Rightarrow> None)
      | _ \<Rightarrow> None)"

text \<open>
  A string after its opening quote: the unquoted bytes and the text after the closing quote.
  Surrogate pairs are combined, lone surrogates and invalid UTF-8 become the replacement character.
\<close>

function (sequential) parse_string :: "string \<Rightarrow> (bytes \<times> string) option" where
  "parse_string [] = None"
| "parse_string (c # cs) =
     (if code c = 34 then Some ([], cs)
      else if code c = 92 then
        (case cs of
           [] \<Rightarrow> None
         | e # es \<Rightarrow>
             if e = CHR ''u'' then
               (case getu4 es of
                  None \<Rightarrow> None
                | Some r \<Rightarrow>
                    if 55296 \<le> r \<and> r < 56320 \<and> take 2 (drop 4 es) = [chr_of 92, CHR ''u'']
                       \<and> (case getu4 (drop 6 es) of None \<Rightarrow> False | Some r2 \<Rightarrow> 56320 \<le> r2 \<and> r2 < 57344)
                    then map_option (map_prod ((@) (utf8_encode
                           ((r - 55296) * 1024 + (the (getu4 (drop 6 es)) - 56320) + 65536))) id)
                         (parse_string (drop 10 es))
                    else map_option (map_prod ((@) (utf8_encode r)) id) (parse_string (drop 4 es)))
             else
               (case (if e = CHR ''b'' then Some (chr_of 8) else if e = CHR ''f'' then Some (chr_of 12)
                      else if e = CHR ''n'' then Some (chr_of 10) else if e = CHR ''r'' then Some (chr_of 13)
                      else if e = CHR ''t'' then Some (chr_of 9)
                      else if code e = 34 \<or> code e = 92 \<or> code e = 47 then Some e else None) of
                  None \<Rightarrow> None
                | Some b \<Rightarrow> map_option (map_prod ((#) b) id) (parse_string es)))
      else if code c < 32 then None
      else if code c < 128 then map_option (map_prod ((#) c) id) (parse_string cs)
      else let n = utf8_size (c # cs)
           in if n = 0 then map_option (map_prod ((@) rune_error) id) (parse_string cs)
              else map_option (map_prod ((@) (c # take (n - 1) cs)) id) (parse_string (drop (n - 1) cs)))"
  by pat_completeness auto
termination
  by (relation "measure length") auto

text \<open>The longest JSON number at the head of the text.\<close>

definition parse_digits :: "string \<Rightarrow> (string \<times> string) option" where
  "parse_digits s = (case takeWhile is_digit s of [] \<Rightarrow> None | ds \<Rightarrow> Some (ds, dropWhile is_digit s))"

definition parse_int_part :: "string \<Rightarrow> (string \<times> string) option" where
  "parse_int_part s =
     (case s of
        [] \<Rightarrow> None
      | c # cs \<Rightarrow> if c = CHR ''0'' then Some ([c], cs) else parse_digits s)"

definition parse_number :: "string \<Rightarrow> (string \<times> string) option" where
  "parse_number s =
     (let (sg, s1) = (case s of c # cs \<Rightarrow> if c = CHR ''-'' then ([c], cs) else ([], s) | [] \<Rightarrow> ([], s))
      in case parse_int_part s1 of
           None \<Rightarrow> None
         | Some (ip, s2) \<Rightarrow>
             (case (case s2 of
                      c # cs \<Rightarrow> if c = CHR ''.''
                        then (case parse_digits cs of None \<Rightarrow> None | Some (ds, r) \<Rightarrow> Some (c # ds, r))
                        else Some ([], s2)
                    | [] \<Rightarrow> Some ([], s2)) of
                None \<Rightarrow> None
              | Some (fp, s3) \<Rightarrow>
                  (case s3 of
                     c # cs \<Rightarrow>
                       if c = CHR ''e'' \<or> c = CHR ''E'' then
                         let (es, cs1) = (case cs of
                               d # ds \<Rightarrow> if d = CHR ''+'' \<or> d = CHR ''-'' then ([d], ds) else ([], cs)
                             | [] \<Rightarrow> ([], cs))
                         in (case parse_digits cs1 of
                               None \<Rightarrow> None
                             | Some (ds, r) \<Rightarrow> Some (sg @ ip @ fp @ c # es @ ds, r))
                       else Some (sg @ ip @ fp, s3)
                   | [] \<Rightarrow> Some (sg @ ip @ fp, s3))))"

definition strip_prefix :: "string \<Rightarrow> string \<Rightarrow> string option" where
  "strip_prefix p s = (if take (length p) s = p then Some (drop (length p) s) else None)"

text \<open>
  Values, array elements and object members. Each call spends one unit of fuel; a value needs at
  most as many nested calls as it has characters, so the length of the text is enough.
\<close>

fun parse_value :: "nat \<Rightarrow> string \<Rightarrow> (json \<times> string) option"
and parse_elems :: "nat \<Rightarrow> string \<Rightarrow> (json list \<times> string) option"
and parse_members :: "nat \<Rightarrow> string \<Rightarrow> ((bytes \<times> json) list \<times> string) option" where
  "parse_value 0 s = None"
| "parse_value (Suc n) s =
     (case skip_ws s of
        [] \<Rightarrow> None
      | c # cs \<Rightarrow>
          if code c = 34 then map_option (map_prod JStr id) (parse_string cs)
          else if c = CHR ''{'' then
            (case skip_ws cs of
               d # ds \<Rightarrow> if d = CHR ''}'' then Some (JObj [], ds)
                         else map_option (map_prod JObj id) (parse_members n cs)
             | [] \<Rightarrow> None)
          else if c = CHR ''['' then
            (case skip_ws cs of
               d # ds \<Rightarrow> if d = CHR '']'' then Some (JArr [], ds)
                         else map_option (map_prod JArr id) (parse_elems n cs)
             | [] \<Rightarrow> None)
          else if c = CHR ''t'' then map_option (Pair (JBool True)) (strip_prefix ''true'' (c # cs))
          else if c = CHR ''f'' then map_option (Pair (JBool False)) (strip_prefix ''false'' (c # cs))
          else if c = CHR ''n'' then map_option (Pair JNull) (strip_prefix ''null'' (c # cs))
          else map_option (map_prod JNum id) (parse_number (c # cs)))"
| "parse_elems 0 s = None"
| "parse_elems (Suc n) s =
     (case parse_value n s of
        None \<Rightarrow> None
      | Some (v, s1) \<Rightarrow>
          (case skip_ws s1 of
             c # cs \<Rightarrow> if c = CHR '']'' then Some ([v], cs)
                       else if c = CHR '','' then map_option (map_prod ((#) v) id) (parse_elems n cs)
                       else None
           | [] \<Rightarrow> None))"
| "parse_members 0 s = None"
| "parse_members (Suc n) s =
     (case skip_ws s of
        q # qs \<Rightarrow>
          if code q = 34 then
            (case parse_string qs of
               None \<Rightarrow> None
             | Some (k, s1) \<Rightarrow>
                 (case skip_ws s1 of
                    d # ds \<Rightarrow>
                      if d = CHR '':'' then
                        (case parse_value n ds of
                           None \<Rightarrow> None
                         | Some (v, s2) \<Rightarrow>
                             (case skip_ws s2 of
                                c # cs \<Rightarrow> if c = CHR ''}'' then Some ([(k, v)], cs)
                                          else if c = CHR '','' then map_option (map_prod ((#) (k, v)) id) (parse_members n cs)
                                          else None
                              | [] \<Rightarrow> None))
                      else None
                  | [] \<Rightarrow> None))
          else None
      | [] \<Rightarrow> None)"

definition parse_json :: "string \<Rightarrow> json option" where
  "parse_json s =
     (case parse_value (2 * length s + 1) s of
        Some (v, rest) \<Rightarrow> if skip_ws rest = [] then Some v else None
      | None \<Rightarrow> None)"

section \<open>DecodeCommand\<close>

text \<open>Integer literals, with \<^verbatim>\<open>strconv\<close>'s range checks; any other literal is a type error.\<close>

definition ParseUint :: "nat \<Rightarrow> string \<Rightarrow> nat option" where
  "ParseUint bits lit =
     (if lit \<noteq> [] \<and> list_all is_digit lit \<and> digits_val lit < 2 ^ bits then Some (digits_val lit) else None)"

definition ParseInt :: "string \<Rightarrow> int option" where
  "ParseInt lit =
     (case lit of
        [] \<Rightarrow> None
      | c # cs \<Rightarrow>
          if c = CHR ''-'' then
            (if cs \<noteq> [] \<and> list_all is_digit cs \<and> digits_val cs \<le> 2 ^ 63 then Some (- int (digits_val cs)) else None)
          else if list_all is_digit lit \<and> digits_val lit < 2 ^ 63 then Some (int (digits_val lit)) else None)"

text \<open>
  Field names match exactly or up to case; the two non-ASCII letters that fold to ASCII (the
  Kelvin sign and the long s) are folded too.
\<close>

fun fold_name :: "bytes \<Rightarrow> bytes" where
  "fold_name (a # b # c # rest) =
     (if code a = 226 \<and> code b = 132 \<and> code c = 170 then CHR ''k'' # fold_name rest
      else if code a = 197 \<and> code b = 191 then CHR ''s'' # fold_name (c # rest)
      else (if 65 \<le> code a \<and> code a \<le> 90 then chr_of (code a + 32) else a) # fold_name (b # c # rest))"
| "fold_name [a, b] =
     (if code a = 197 \<and> code b = 191 then [CHR ''s'']
      else (if 65 \<le> code a \<and> code a \<le> 90 then chr_of (code a + 32) else a) # fold_name [b])"
| "fold_name [a] = [if 65 \<le> code a \<and> code a \<le> 90 then chr_of (code a + 32) else a]"
| "fold_name [] = []"

definition byte_elem :: "json \<Rightarrow> char option" where
  "byte_elem v = (case v of JNull \<Rightarrow> Some (chr_of 0)
                  | JNum lit \<Rightarrow> map_option chr_of (ParseUint 8 lit) | _ \<Rightarrow> None)"

fun byte_elems :: "json list \<Rightarrow> bytes option" where
  "byte_elems [] = Some []"
| "byte_elems (v # vs) =
     (case (byte_elem v, byte_elems vs) of (Some b, Some bs) \<Rightarrow> Some (b # bs) | _ \<Rightarrow> None)"

definition set_field :: "bytes \<Rightarrow> json \<Rightarrow> Command \<Rightarrow> Command option" where
  "set_field name v c =
     (let f = fold_name name
      in if f = ''type'' then
           (case v of JNull \<Rightarrow> Some c
            | JNum lit \<Rightarrow> map_option (\<lambda>i. c\<lparr>cmd_Type := i\<rparr>) (ParseInt lit) | _ \<Rightarrow> None)
         else if f = ''key'' then
           (case v of JNull \<Rightarrow> Some c | JStr s \<Rightarrow> Some (c\<lparr>cmd_Key := s\<rparr>) | _ \<Rightarrow> None)
         else if f = ''value'' then
           (case v of JNull \<Rightarrow> Some (c\<lparr>cmd_Value := []\<rparr>)
            | JStr s \<Rightarrow> map_option (\<lambda>b. c\<lparr>cmd_Value := b\<rparr>) (b64_DecodeString s)
            | JArr vs \<Rightarrow> map_option (\<lambda>b. c\<lparr>cmd_Value := b\<rparr>) (byte_elems vs) | _ \<Rightarrow> None)
         else if f = ''request_id'' then
           (case v of JNull \<Rightarrow> Some c
            | JNum lit \<Rightarrow> map_option (\<lambda>n. c\<lparr>cmd_RequestID := of_nat n\<rparr>) (ParseUint 64 lit) | _ \<Rightarrow> None)
         else Some c)"

fun set_fields :: "(bytes \<times> json) list \<Rightarrow> Command \<Rightarrow> Command option" where
  "set_fields [] c = Some c"
| "set_fields ((k, v) # ms) c =
     (case set_field k v c of None \<Rightarrow> None | Some c' \<Rightarrow> set_fields ms c')"

definition zero_command :: Command where
  "zero_command = \<lparr>cmd_Type = 0, cmd_Key = [], cmd_Value = [], cmd_RequestID = 0\<rparr>"

definition DecodeCommand :: "bytes \<Rightarrow> Command option" where
  "DecodeCommand bs =
     (case parse_json bs of
        Some (JObj ms) \<Rightarrow> set_fields ms zero_command
      | Some JNull \<Rightarrow> Some zero_command
      | _ \<Rightarrow> None)"

end
