(* ===== verification/Codec_Roundtrip.thy ===== *)
theory Codec_Roundtrip
  imports Command_Codec
begin

text \<open>
  Decoding inverts encoding: a command that is written to the log is the command the state machine
  reads back, provided that its key is valid UTF-8. The proof goes bottom up: decimal numbers,
  base64, JSON strings, then the object.
\<close>

section \<open>Bytes and decimal numbers\<close>

lemma code_less [simp]: "code c < 256"
  by (simp add: code_def)

lemma code_chr_of [simp]: "n < 256 \<Longrightarrow> code (chr_of n) = n"
  by (simp add: code_def chr_of_def)

lemma chr_of_code [simp]: "chr_of (code c) = c"
  by (simp add: code_def chr_of_def)

lemma code_inject: "code c = code d \<longleftrightarrow> c = d"
  by (metis chr_of_code)

lemma chr_of_eq: "n < 256 \<Longrightarrow> chr_of n = c \<longleftrightarrow> n = code c"
  by auto

lemma chr_of_eqI: "code c = n \<Longrightarrow> chr_of n = c"
  by auto

lemma digits_val_snoc [simp]: "digits_val (ds @ [c]) = 10 * digits_val ds + (code c - 48)"
  by (simp add: digits_val_def)

lemma digits_val_dec_nat [simp]: "digits_val (dec_nat n) = n"
proof (induction n rule: less_induct)
  case (less n)
  show ?case
  proof (cases "n < 10")
    case True
    then show ?thesis by (subst dec_nat.simps) (simp add: digits_val_def)
  next
    case False
    then have "digits_val (dec_nat (n div 10)) = n div 10" using less.IH [of "n div 10"] by simp
    with False show ?thesis by (subst dec_nat.simps) simp
  qed
qed

lemma dec_nat_digits: "list_all is_digit (dec_nat n)"
proof (induction n rule: less_induct)
  case (less n)
  show ?case
  proof (cases "n < 10")
    case False
    have "is_digit (chr_of (48 + n mod 10))" by (simp add: is_digit_def)
    with False less.IH [of "n div 10"] show ?thesis by (subst dec_nat.simps) simp
  qed (subst dec_nat.simps, simp add: is_digit_def)
qed

lemma dec_nat_not_nil [simp]: "dec_nat n \<noteq> []"
  by (subst dec_nat.simps) simp

text \<open>A leading zero is the whole number.\<close>

lemma dec_nat_head: "dec_nat n = c # cs \<Longrightarrow> c = CHR ''0'' \<Longrightarrow> cs = []"
proof (induction n arbitrary: c cs rule: less_induct)
  case (less n)
  show ?case
  proof (cases "n < 10")
    case True
    with less.prems show ?thesis by (subst (asm) dec_nat.simps) simp
  next
    case False
    obtain d ds where d: "dec_nat (n div 10) = d # ds" by (meson dec_nat_not_nil neq_Nil_conv)
    have "dec_nat n = (d # ds) @ [chr_of (48 + n mod 10)]" using False d by (subst dec_nat.simps) simp
    then have "d = c" using less.prems(1) by simp
    with less.IH [of "n div 10" d ds] d less.prems(2) False have "ds = []" by simp
    with d have "digits_val [c] = n div 10" using \<open>d = c\<close> digits_val_dec_nat [of "n div 10"] by simp
    with less.prems(2) have "n div 10 = 0" by (simp add: digits_val_def code_def)
    with False show ?thesis by simp
  qed
qed

definition ends_number :: "char \<Rightarrow> bool" where
  "ends_number c \<longleftrightarrow> \<not> is_digit c \<and> c \<noteq> CHR ''.'' \<and> c \<noteq> CHR ''e'' \<and> c \<noteq> CHR ''E''"

lemma takeWhile_digits: "list_all is_digit ds \<Longrightarrow> \<not> is_digit c \<Longrightarrow>
    takeWhile is_digit (ds @ c # rest) = ds \<and> dropWhile is_digit (ds @ c # rest) = c # rest"
  by (induction ds) auto

lemma parse_int_part_dec_nat:
  assumes "\<not> is_digit c"
  shows "parse_int_part (dec_nat n @ c # rest) = Some (dec_nat n, c # rest)"
proof -
  obtain d ds where d: "dec_nat n = d # ds" by (meson dec_nat_not_nil neq_Nil_conv)
  show ?thesis
  proof (cases "d = CHR ''0''")
    case True
    with dec_nat_head [OF d] d show ?thesis by (simp add: parse_int_part_def)
  next
    case False
    with takeWhile_digits [OF dec_nat_digits [of n] assms, of rest] d show ?thesis
      by (simp add: parse_int_part_def parse_digits_def)
  qed
qed

lemma digit_not_minus: "is_digit c \<Longrightarrow> c \<noteq> CHR ''-''"
  by (auto simp: is_digit_def code_def)

lemma parse_number_dec_nat:
  assumes "ends_number c"
  shows "parse_number (dec_nat n @ c # rest) = Some (dec_nat n, c # rest)"
    "parse_number (CHR ''-'' # dec_nat n @ c # rest) = Some (CHR ''-'' # dec_nat n, c # rest)"
proof -
  obtain d ds where d: "dec_nat n = d # ds" by (meson dec_nat_not_nil neq_Nil_conv)
  have "d \<noteq> CHR ''-''" using dec_nat_digits [of n] d digit_not_minus by auto
  moreover have "parse_int_part (dec_nat n @ c # rest) = Some (dec_nat n, c # rest)"
    using parse_int_part_dec_nat assms by (simp add: ends_number_def)
  ultimately show "parse_number (dec_nat n @ c # rest) = Some (dec_nat n, c # rest)"
    "parse_number (CHR ''-'' # dec_nat n @ c # rest) = Some (CHR ''-'' # dec_nat n, c # rest)"
    using assms d by (simp_all add: parse_number_def ends_number_def)
qed

lemma parse_number_dec_int:
  "ends_number c \<Longrightarrow> parse_number (dec_int i @ c # rest) = Some (dec_int i, c # rest)"
  by (simp add: dec_int_def parse_number_dec_nat)

lemma ParseUint_dec_nat [simp]: "n < 2 ^ k \<Longrightarrow> ParseUint k (dec_nat n) = Some n"
  by (simp add: ParseUint_def dec_nat_digits)

lemma ParseInt_dec_int:
  assumes "- (2 ^ 63) \<le> i" "i < 2 ^ 63"
  shows "ParseInt (dec_int i) = Some i"
proof (cases "i < 0")
  case True
  then show ?thesis using assms by (simp add: ParseInt_def dec_int_def dec_nat_digits nat_le_iff)
next
  case False
  obtain d ds where d: "dec_nat (nat i) = d # ds" by (meson dec_nat_not_nil neq_Nil_conv)
  have "d \<noteq> CHR ''-''" using dec_nat_digits [of "nat i"] d digit_not_minus by auto
  moreover have "digits_val (d # ds) = nat i" "list_all is_digit (d # ds)"
    using digits_val_dec_nat [of "nat i"] dec_nat_digits [of "nat i"] d by simp_all
  ultimately show ?thesis using False assms d by (simp add: ParseInt_def dec_int_def nat_less_iff)
qed

section \<open>Base64\<close>

lemma b64_val_char [simp]: "n < 64 \<Longrightarrow> b64_val (b64_char n) = Some n"
  by (auto simp: b64_val_def b64_char_def Let_def code_def chr_of_def)

lemma b64_char_code: "n < 64 \<Longrightarrow> code (b64_char n) \<in> {43, 47} \<union> {48..57} \<union> {65..90} \<union> {97..122}"
  by (auto simp: b64_char_def code_def chr_of_def)

lemma b64_char_not_pad [simp]: "n < 64 \<Longrightarrow> b64_char n \<noteq> CHR ''=''"
  using b64_char_code [of n] by (auto simp: code_def)

lemma code_div:
  "code a div 4 < 64" "code b div 16 < 16" "code c div 64 < 4"
  by (simp_all add: div_less_iff_less_mult)

lemma b64_bits:
  "code a div 4 < 64" "code a mod 4 * 16 < 64" "code a mod 4 * 16 + code b div 16 < 64"
  "code b mod 16 * 4 < 64" "code b mod 16 * 4 + code c div 64 < 64"
proof -
  have "code a mod 4 < 4" "code b mod 16 < 16" by simp_all
  with code_div(1) [of a] code_div(2) [of b] code_div(3) [of c]
  show "code a div 4 < 64" "code a mod 4 * 16 < 64" "code a mod 4 * 16 + code b div 16 < 64"
    "code b mod 16 * 4 < 64" "code b mod 16 * 4 + code c div 64 < 64" by linarith+
qed

lemma b64_join:
  "code b div 16 div 16 = 0" "code b div 16 mod 16 = code b div 16" "code c div 64 div 4 = 0"
  "code c div 64 mod 4 = code c div 64"
  using code_div(2) [of b] code_div(3) [of c] by simp_all

lemma b64_roundtrip [simp]: "b64_decode (b64_encode bs) = Some bs"
  by (induction bs rule: b64_encode.induct) (simp_all add: Let_def b64_bits b64_join)

lemma b64_encode_chars:
  "\<forall>ch\<in>set (b64_encode bs). code ch \<in> {43, 47, 61} \<union> {48..57} \<union> {65..90} \<union> {97..122}"
proof -
  have "code (CHR ''='') = 61" by (simp add: code_def)
  moreover have "code (b64_char n) \<in> {43, 47, 61} \<union> {48..57} \<union> {65..90} \<union> {97..122}" if "n < 64" for n
    using b64_char_code [OF that] by blast
  ultimately show ?thesis
    by (induction bs rule: b64_encode.induct) (auto simp: b64_bits)
qed

lemma b64_DecodeString_encode [simp]: "b64_DecodeString (b64_encode bs) = Some bs"
proof -
  have "filter (\<lambda>c. code c \<noteq> 10 \<and> code c \<noteq> 13) (b64_encode bs) = b64_encode bs"
    using b64_encode_chars [of bs] by (intro filter_True) auto
  then show ?thesis by (simp add: b64_DecodeString_def)
qed

section \<open>JSON strings\<close>

declare parse_string.simps [simp del]

lemma parse_string_end [simp]: "parse_string (CHR 0x22 # rest) = Some ([], rest)"
  by (subst parse_string.simps) (simp add: code_def)

lemma parse_string_plain:
  "32 \<le> code c \<Longrightarrow> code c < 128 \<Longrightarrow> code c \<noteq> 34 \<Longrightarrow> code c \<noteq> 92 \<Longrightarrow>
     parse_string (c # cs) = map_option (map_prod ((#) c) id) (parse_string cs)"
  by (subst parse_string.simps) simp

lemma parse_string_plains:
  "\<forall>c\<in>set s. 32 \<le> code c \<and> code c < 128 \<and> code c \<noteq> 34 \<and> code c \<noteq> 92 \<Longrightarrow>
     parse_string (s @ CHR 0x22 # rest) = Some (s, rest)"
  by (induction s) (simp_all add: parse_string_plain)

lemma parse_string_b64: "parse_string (b64_encode bs @ CHR 0x22 # rest) = Some (b64_encode bs, rest)"
  by (rule parse_string_plains) (use b64_encode_chars [of bs] in fastforce)

lemma hex_val_digit [simp]: "n < 16 \<Longrightarrow> hex_val (hex_digit n) = Some n"
  by (auto simp: hex_val_def hex_digit_def Let_def code_def chr_of_def)

lemma parse_string_hex:
  assumes "getu4 (take 4 es) = Some r" "length es \<ge> 4" "\<not> (55296 \<le> r \<and> r < 56320)"
  shows "parse_string (chr_of 92 # CHR ''u'' # es) = map_option (map_prod ((@) (utf8_encode r)) id) (parse_string (drop 4 es))"
proof -
  have "getu4 es = Some r"
    using assms(1,2) by (auto simp: getu4_def split: list.splits)
  with assms(3) show ?thesis by (subst parse_string.simps) auto
qed

lemma parse_string_escape_ascii:
  assumes "code c < 128" "\<not> html_safe c"
  shows "parse_string (escape_ascii c @ cs) = map_option (map_prod ((#) c) id) (parse_string cs)"
proof (cases "code c \<in> {92, 34, 8, 12, 10, 13, 9}")
  case True
  have 1: "parse_string (b # e # cs) = map_option (map_prod ((#) c) id) (parse_string cs)"
    if "code b = 92" "e \<noteq> CHR ''u''" "(if e = CHR ''b'' then Some (chr_of 8) else if e = CHR ''f'' then Some (chr_of 12)
        else if e = CHR ''n'' then Some (chr_of 10) else if e = CHR ''r'' then Some (chr_of 13)
        else if e = CHR ''t'' then Some (chr_of 9)
        else if code e = 34 \<or> code e = 92 \<or> code e = 47 then Some e else None) = Some c" for b e
    using that by (subst parse_string.simps) simp
  have c: "c = chr_of (code c)" by simp
  show ?thesis using True
    by (auto simp: escape_ascii_def Let_def chr_of_eqI intro!: 1) (auto simp: code_def)
next
  case False
  let ?h = "[CHR ''0'', CHR ''0'', hex_digit (code c div 16), hex_digit (code c mod 16)]"
  have e: "escape_ascii c = chr_of 92 # CHR ''u'' # ?h" using False by (simp add: escape_ascii_def Let_def)
  have "code c div 16 < 16" using assms(1) by simp
  moreover have "hex_val (CHR ''0'') = Some 0" by (simp add: hex_val_def code_def)
  ultimately have "getu4 (take 4 (?h @ cs)) = Some (code c)" by (simp add: getu4_def)
  moreover have "utf8_encode (code c) = [c]" using assms(1) by (simp add: utf8_encode_def)
  moreover have "(@) [c] = (#) c" by auto
  ultimately show ?thesis using parse_string_hex [of "?h @ cs" "code c"] assms(1) by (simp add: e)
qed

lemma utf8_size_bound: "utf8_size (c # cs) \<noteq> 0 \<Longrightarrow> 128 \<le> code c \<and> 2 \<le> utf8_size (c # cs) \<and> utf8_size (c # cs) \<le> Suc (length cs)"
  by (cases "c # cs" rule: utf8_size.cases) (auto simp: Let_def split: if_splits)

text \<open>The size of a sequence does not depend on what follows it.\<close>

lemma utf8_size_prefix:
  assumes "utf8_size (c # cs) = n" "n \<noteq> 0"
  shows "utf8_size (c # take (n - 1) cs @ tail) = n"
proof -
  have w: "utf8_size (a # b # tail) = 2" if "194 \<le> code a" "code a \<le> 223" "cont b" for a b tail
    using that by (cases "a # b # tail" rule: utf8_size.cases) (auto simp: Let_def)
  have x: "utf8_size (a # b # d # tail) = 3" if "224 \<le> code a" "code a \<le> 239" "cont b" "cont d"
    "code a = 224 \<longrightarrow> 160 \<le> code b" "code a = 237 \<longrightarrow> code b < 160" for a b d tail
    using that by (cases "a # b # d # tail" rule: utf8_size.cases) (auto simp: Let_def)
  show ?thesis using assms
    by (cases "c # cs" rule: utf8_size.cases)
      (auto simp: Let_def w x split: if_splits)
qed

lemma parse_string_multi:
  assumes "utf8_size (c # cs) = n" "n \<noteq> 0"
  shows "parse_string (c # take (n - 1) cs @ tail)
    = map_option (map_prod ((@) (c # take (n - 1) cs)) id) (parse_string tail)"
proof -
  have b: "128 \<le> code c" "2 \<le> n" "n \<le> Suc (length cs)" using utf8_size_bound [of c cs] assms by auto
  then have "length (take (n - 1) cs) = n - 1" by simp
  then show ?thesis using utf8_size_prefix [OF assms] assms(2) b(1)
    by (subst parse_string.simps) (simp add: Let_def)
qed

lemma parse_string_line_sep:
  assumes "line_sep (c # cs)"
  shows "utf8_size (c # cs) = 3"
    "parse_string (chr_of 92 # ''u202'' @ hex_digit (code (cs ! 1) mod 16) # tail)
      = map_option (map_prod ((@) (c # take 2 cs)) id) (parse_string tail)"
proof -
  obtain d ds where cs: "c = chr_of 226" "cs = chr_of 128 # d # ds" and d: "code d = 168 \<or> code d = 169"
    using assms by (cases cs; cases "tl cs") (auto simp: line_sep_def)
  then show "utf8_size (c # cs) = 3"
    by (cases "c # cs" rule: utf8_size.cases) (auto simp: Let_def cont_def)
  have h: "hex_val (CHR ''2'') = Some 2" "hex_val (CHR ''0'') = Some 0" by (simp_all add: hex_val_def code_def)
  define r where "r = 8192 + 32 + code d mod 16"
  have r: "r = 8232 \<and> code d = 168 \<or> r = 8233 \<and> code d = 169" using d by (auto simp: r_def)
  have "getu4 (take 4 (''202'' @ hex_digit (code d mod 16) # tail)) = Some r"
    using h by (simp add: getu4_def r_def)
  moreover have "utf8_encode r = c # take 2 cs"
    using r cs by (auto simp: utf8_encode_def chr_of_eqI)
  ultimately show "parse_string (chr_of 92 # ''u202'' @ hex_digit (code (cs ! 1) mod 16) # tail)
      = map_option (map_prod ((@) (c # take 2 cs)) id) (parse_string tail)"
    using parse_string_hex [of "''202'' @ hex_digit (code d mod 16) # tail" r] r cs by auto
qed

theorem parse_string_escape:
  "utf8_valid s \<Longrightarrow> parse_string (json_escape s @ CHR 0x22 # rest) = Some (s, rest)"
proof (induction s rule: json_escape.induct)
  case (2 c cs)
  let ?n = "utf8_size (c # cs)"
  show ?case
  proof (cases "code c < 128")
    case True
    show ?thesis
    proof (cases "html_safe c")
      case safe: True
      then show ?thesis using True "2.IH"(1) [OF True] "2.prems" by (simp add: parse_string_plain html_safe_def)
    next
      case False
      then show ?thesis using True "2.IH"(1) [OF True] "2.prems" by (simp add: parse_string_escape_ascii)
    qed
  next
    case False
    then have n: "?n \<noteq> 0" "utf8_valid (drop (?n - 1) cs)" using "2.prems" by (auto split: if_splits)
    have IH: "parse_string (json_escape (drop (?n - 1) cs) @ CHR 0x22 # rest) = Some (drop (?n - 1) cs, rest)"
      using "2.IH"(3) [OF False refl n(1)] "2.IH"(4) [OF False refl n(1)] n(2) by blast
    show ?thesis
    proof (cases "line_sep (c # cs)")
      case True
      then show ?thesis using False n(1) IH parse_string_line_sep [OF True] by simp
    next
      case no_sep: False
      then show ?thesis using False n(1) IH parse_string_multi [OF refl n(1)] by (simp add: Let_def)
    qed
  qed
qed simp

section \<open>The object\<close>

lemma skip_ws_not [simp]: "\<not> is_space c \<Longrightarrow> skip_ws (c # cs) = c # cs"
  by (simp add: skip_ws_def)

lemma not_space [simp]: "\<not> is_space (CHR 0x22)" "\<not> is_space (CHR '':'')" "\<not> is_space (CHR '','')"
  "\<not> is_space (CHR ''{'')" "\<not> is_space (CHR ''}'')"
  by (simp_all add: is_space_def code_def)

lemma code_quote [simp]: "code (CHR 0x22) = 34"
  by (simp add: code_def)

lemma ends_number_sep: "ends_number (CHR '','')" "ends_number (CHR ''}'')"
  by (simp_all add: ends_number_def is_digit_def code_def)

lemma parse_value_quote:
  "utf8_valid s \<Longrightarrow> parse_value (Suc n) (json_quote s @ rest) = Some (JStr s, rest)"
  by (simp add: json_quote_def parse_string_escape)

lemma parse_value_b64:
  "parse_value (Suc n) (CHR 0x22 # b64_encode bs @ CHR 0x22 # rest) = Some (JStr (b64_encode bs), rest)"
  by (simp add: parse_string_b64)

lemma parse_value_int:
  assumes "ends_number c"
  shows "parse_value (Suc n) (dec_int i @ c # rest) = Some (JNum (dec_int i), c # rest)"
proof -
  have "dec_int i \<noteq> []" by (simp add: dec_int_def)
  then obtain d ds where d: "dec_int i = d # ds" by (meson neq_Nil_conv)
  have "d = CHR ''-'' \<or> is_digit d"
    using d dec_nat_digits [of "nat i"] by (auto simp: dec_int_def split: if_splits)
  then have "\<not> is_space d \<and> code d \<noteq> 34 \<and> d \<notin> {CHR ''{'', CHR ''['', CHR ''t'', CHR ''f'', CHR ''n''}"
    by (auto simp: is_digit_def is_space_def code_def)
  then show ?thesis using parse_number_dec_int [OF assms, of i rest] d by simp
qed

text \<open>One member of an object, followed by a comma or by the closing brace.\<close>

lemma parse_member:
  assumes "utf8_valid k" "\<And>c. ends_number c \<Longrightarrow> parse_value n (txt @ c # rest) = Some (v, c # rest)"
  shows "parse_members (Suc n) (json_quote k @ CHR '':'' # txt @ CHR ''}'' # rest) = Some ([(k, v)], rest)"
    "parse_members (Suc n) (json_quote k @ CHR '':'' # txt @ CHR '','' # rest)
       = map_option (map_prod ((#) (k, v)) id) (parse_members n rest)"
  using assms(2) [OF ends_number_sep(1)] assms(2) [OF ends_number_sep(2)]
  by (simp_all add: json_quote_def parse_string_escape [OF assms(1)])

text \<open>The members of an encoded command.\<close>

definition command_members :: "Command \<Rightarrow> (bytes \<times> json) list" where
  "command_members c = [(''type'', JNum (dec_int (cmd_Type c))), (''key'', JStr (cmd_Key c))]
     @ (if cmd_Value c = [] then [] else [(''value'', JStr (b64_encode (cmd_Value c)))])
     @ (if cmd_RequestID c = 0 then [] else [(''request_id'', JNum (dec_nat (unat (cmd_RequestID c))))])"

lemma field_names: "utf8_valid ''type''" "utf8_valid ''key''" "utf8_valid ''value''" "utf8_valid ''request_id''"
  by (simp_all add: code_def)

lemma parse_value_nat:
  "ends_number c \<Longrightarrow> parse_value (Suc n) (dec_nat k @ c # rest) = Some (JNum (dec_nat k), c # rest)"
  using parse_value_int [of c n "int k" rest] by (simp add: dec_int_def)

lemma parse_member_int:
  assumes "utf8_valid k"
  shows "parse_members (Suc (Suc n)) (json_quote k @ CHR '':'' # dec_int i @ CHR ''}'' # rest)
      = Some ([(k, JNum (dec_int i))], rest)"
    "parse_members (Suc (Suc n)) (json_quote k @ CHR '':'' # dec_int i @ CHR '','' # rest)
      = map_option (map_prod ((#) (k, JNum (dec_int i))) id) (parse_members (Suc n) rest)"
  by (rule parse_member [OF assms]; rule parse_value_int; assumption)+

lemma parse_member_str:
  assumes "utf8_valid k" "utf8_valid s"
  shows "parse_members (Suc (Suc n)) (json_quote k @ CHR '':'' # json_quote s @ CHR ''}'' # rest)
      = Some ([(k, JStr s)], rest)"
    "parse_members (Suc (Suc n)) (json_quote k @ CHR '':'' # json_quote s @ CHR '','' # rest)
      = map_option (map_prod ((#) (k, JStr s)) id) (parse_members (Suc n) rest)"
  by (rule parse_member [OF assms(1)]; rule parse_value_quote [OF assms(2)])+

lemma parse_member_b64:
  assumes "utf8_valid k"
  shows "parse_members (Suc (Suc n)) (json_quote k @ CHR '':'' # CHR 0x22 # b64_encode v @ CHR 0x22 # CHR ''}'' # rest)
      = Some ([(k, JStr (b64_encode v))], rest)"
    "parse_members (Suc (Suc n)) (json_quote k @ CHR '':'' # CHR 0x22 # b64_encode v @ CHR 0x22 # CHR '','' # rest)
      = map_option (map_prod ((#) (k, JStr (b64_encode v))) id) (parse_members (Suc n) rest)"
proof -
  have "parse_value (Suc n) ((CHR 0x22 # b64_encode v @ [CHR 0x22]) @ c # rest) = Some (JStr (b64_encode v), c # rest)" for c
    using parse_value_b64 [of n v "c # rest"] by simp
  from parse_member [OF assms this]
  show "parse_members (Suc (Suc n)) (json_quote k @ CHR '':'' # CHR 0x22 # b64_encode v @ CHR 0x22 # CHR ''}'' # rest)
      = Some ([(k, JStr (b64_encode v))], rest)"
    "parse_members (Suc (Suc n)) (json_quote k @ CHR '':'' # CHR 0x22 # b64_encode v @ CHR 0x22 # CHR '','' # rest)
      = map_option (map_prod ((#) (k, JStr (b64_encode v))) id) (parse_members (Suc n) rest)"
    by simp_all
qed

text \<open>The text of an encoded command after its opening brace.\<close>

definition command_body :: "Command \<Rightarrow> string" where
  "command_body c = json_quote ''type'' @ CHR '':'' # dec_int (cmd_Type c) @ CHR '','' #
     json_quote ''key'' @ CHR '':'' # json_quote (cmd_Key c)
     @ (if cmd_Value c = [] then []
        else CHR '','' # json_quote ''value'' @ CHR '':'' # CHR 0x22 # b64_encode (cmd_Value c) @ [CHR 0x22])
     @ (if cmd_RequestID c = 0 then []
        else CHR '','' # json_quote ''request_id'' @ CHR '':'' # dec_int (int (unat (cmd_RequestID c))))
     @ [CHR ''}'']"

lemma Command_Encode_body: "Command_Encode c = CHR ''{'' # command_body c"
  by (simp add: Command_Encode_def command_body_def dec_int_def)

lemma parse_members_command:
  assumes "utf8_valid (cmd_Key c)"
  shows "parse_members (Suc (Suc (Suc (Suc (Suc n))))) (command_body c) = Some (command_members c, [])"
proof -
  have d: "dec_nat k = dec_int (int k)" for k by (simp add: dec_int_def)
  note [simp del] = parse_value.simps parse_members.simps
  note m = parse_member_int [OF field_names(1)] parse_member_int [OF field_names(4)]
    parse_member_str [OF field_names(2) assms] parse_member_b64 [OF field_names(3)]
  show ?thesis by (simp add: command_body_def command_members_def m d)
qed

lemma set_field_sel:
  "set_field ''type'' (JNum lit) c = map_option (\<lambda>i. c\<lparr>cmd_Type := i\<rparr>) (ParseInt lit)"
  "set_field ''key'' (JStr s) c = Some (c\<lparr>cmd_Key := s\<rparr>)"
  "set_field ''value'' (JStr s) c = map_option (\<lambda>b. c\<lparr>cmd_Value := b\<rparr>) (b64_DecodeString s)"
  "set_field ''request_id'' (JNum lit) c = map_option (\<lambda>n. c\<lparr>cmd_RequestID := of_nat n\<rparr>) (ParseUint 64 lit)"
  by (simp_all add: set_field_def code_def)

lemma set_fields_command:
  assumes "- (2 ^ 63) \<le> cmd_Type c" "cmd_Type c < 2 ^ 63"
  shows "set_fields (command_members c) zero_command = Some c"
proof -
  have l: "LENGTH(64) = 64" by simp
  have "unat (cmd_RequestID c) < 2 ^ LENGTH(64)" by (rule unsigned_less)
  then have r: "ParseUint 64 (dec_nat (unat (cmd_RequestID c))) = Some (unat (cmd_RequestID c))"
    unfolding l by (rule ParseUint_dec_nat)
  show ?thesis
    by (cases c) (use r ParseInt_dec_int [OF assms] in \<open>simp add: command_members_def set_field_sel zero_command_def\<close>)
qed

lemma decode_encode:
  assumes "utf8_valid (cmd_Key c)" "- (2 ^ 63) \<le> cmd_Type c" "cmd_Type c < 2 ^ 63"
  shows "DecodeCommand (Command_Encode c) = Some c"
proof -
  obtain m where m: "2 * length (Command_Encode c) + 1 = Suc (Suc (Suc (Suc (Suc (Suc m)))))"
    by (rule that [of "2 * length (Command_Encode c) - 5"]) (simp add: Command_Encode_def json_quote_def)
  obtain bs where bs: "command_body c = CHR 0x22 # bs" by (simp add: command_body_def json_quote_def)
  have "parse_members (Suc (Suc (Suc (Suc (Suc m))))) (CHR 0x22 # bs) = Some (command_members c, [])"
    using parse_members_command [OF assms(1)] bs by simp
  then have "parse_json (Command_Encode c) = Some (JObj (command_members c))"
    unfolding parse_json_def m unfolding Command_Encode_body bs
    by (simp add: skip_ws_def is_space_def code_def del: parse_members.simps)
  then show ?thesis using set_fields_command [OF assms(2,3)] by (simp add: DecodeCommand_def)
qed

lemma Command_Encode_not_nil [simp]: "Command_Encode c \<noteq> []"
  by (simp add: Command_Encode_body)

text \<open>
  C24. A command survives its encoding: decoding the JSON that \<^verbatim>\<open>Encode\<close> writes for a command
  whose key is valid UTF-8 gives the command back, every field of it, whatever the value bytes.
\<close>

theorem DecodeCommand_Encode:
  assumes "utf8_valid (cmd_Key c)" "- (2 ^ 63) \<le> cmd_Type c" "cmd_Type c < 2 ^ 63"
  shows "DecodeCommand (Command_Encode c) = Some c"
  using assms by (rule decode_encode)

theorem DecodeCommand_Encode_witness:
  "DecodeCommand (Command_Encode \<lparr>cmd_Type = 0, cmd_Key = ''k'', cmd_Value = ''v'', cmd_RequestID = 7\<rparr>)
     = Some \<lparr>cmd_Type = 0, cmd_Key = ''k'', cmd_Value = ''v'', cmd_RequestID = 7\<rparr>"
  by (rule DecodeCommand_Encode) (simp_all add: code_def)

end
