(* ===== verification/JSON_Objects.thy ===== *)
theory JSON_Objects
  imports Codec_Roundtrip
begin

text \<open>
  JSON objects as \<^verbatim>\<open>encoding/json\<close> writes them for the structs of the program, a member per
  field in the order of the declaration, and the proof that reading such a text gives the members
  back. The HTTP handler and the Badger storage use it.
\<close>

declare parse_value.simps [simp del] parse_members.simps [simp del]

section \<open>Writing\<close>

definition json_bool :: "bool \<Rightarrow> string" where
  "json_bool b = (if b then ''true'' else ''false'')"

text \<open>A member of an object: its name and the text of its value.\<close>

definition json_member :: "string \<Rightarrow> string \<Rightarrow> string" where
  "json_member name v = json_quote name @ CHR '':'' # v"

text \<open>The members of an object that are present, separated by commas, in braces.\<close>

fun json_members :: "string list \<Rightarrow> string" where
  "json_members [] = ''}''"
| "json_members [m] = m @ ''}''"
| "json_members (m # ms) = m @ CHR '','' # json_members ms"

definition json_object :: "string list \<Rightarrow> string" where
  "json_object ms = CHR ''{'' # json_members ms"

definition omitempty :: "string \<Rightarrow> string \<Rightarrow> string list" where
  "omitempty name v = (if v = [] then [] else [json_member name (json_quote v)])"

section \<open>Reading\<close>

text \<open>A member whose text is read as a given value, before a comma or the closing brace.\<close>

definition reads_as :: "string \<Rightarrow> json \<Rightarrow> bool" where
  "reads_as tx v \<longleftrightarrow> (\<forall>n c rest. ends_number c \<longrightarrow> parse_value (Suc n) (tx @ c # rest) = Some (v, c # rest))"

lemma reads_as_quote: "utf8_valid s \<Longrightarrow> reads_as (json_quote s) (JStr s)"
  by (simp add: reads_as_def parse_value_quote)

lemma reads_as_int: "reads_as (dec_int i) (JNum (dec_int i))"
  by (simp add: reads_as_def parse_value_int)

lemma reads_as_bool: "reads_as (json_bool b) (JBool b)"
  by (auto simp: reads_as_def json_bool_def parse_value.simps skip_ws_def is_space_def code_def strip_prefix_def)

lemma json_members_Cons: "ms \<noteq> [] \<Longrightarrow> json_members (m # ms) = m @ CHR '','' # json_members ms"
  by (cases ms) simp_all

lemma parse_json_members:
  assumes "\<forall>(k, tx, v)\<in>set ms. utf8_valid k \<and> reads_as tx v" "ms \<noteq> []"
  shows "parse_members (Suc (length ms + n)) (json_members (map (\<lambda>(k, tx, v). json_member k tx) ms) @ rest)
    = Some (map (\<lambda>(k, tx, v). (k, v)) ms, rest)"
  using assms
proof (induction ms)
  case (Cons m ms)
  obtain k tx v where m: "m = (k, tx, v)" by (cases m)
  with Cons.prems have k: "utf8_valid k"
    and r: "\<And>n c rest. ends_number c \<Longrightarrow> parse_value (Suc n) (tx @ c # rest) = Some (v, c # rest)"
    by (auto simp: reads_as_def)
  show ?case
  proof (cases "ms = []")
    case True
    then show ?thesis using parse_member(1) [OF k r, of n rest] by (simp add: m json_member_def)
  next
    case False
    with Cons.IH Cons.prems have "parse_members (Suc (length ms + n))
        (json_members (map (\<lambda>(k, tx, v). json_member k tx) ms) @ rest) = Some (map (\<lambda>(k, tx, v). (k, v)) ms, rest)" by simp
    then show ?thesis using False parse_member(2) [OF k r, of "length ms + n"]
      by (simp add: m json_members_Cons json_member_def)
  qed
qed simp

lemma length_json_members: "length ms \<le> length (json_members ms)"
  by (induction ms rule: json_members.induct) (auto simp: Suc_le_eq)

text \<open>The text of an object, followed by white space.\<close>

lemma parse_json_object:
  assumes ms: "\<forall>(k, tx, v)\<in>set ms. utf8_valid k \<and> reads_as tx v" "ms \<noteq> []" and rest: "skip_ws rest = []"
  shows "parse_json (json_object (map (\<lambda>(k, tx, v). json_member k tx) ms) @ rest)
    = Some (JObj (map (\<lambda>(k, tx, v). (k, v)) ms))"
proof -
  let ?b = "json_members (map (\<lambda>(k, tx, v). json_member k tx) ms)"
  have l: "length ms \<le> length ?b" using length_json_members [of "map (\<lambda>(k, tx, v). json_member k tx) ms"] by simp
  obtain k tx v ms' where "ms = (k, tx, v) # ms'" using ms(2) by (metis neq_Nil_conv prod.collapse)
  then obtain bs where bs: "?b = CHR 0x22 # bs"
    by (cases "ms' = []") (simp_all add: json_member_def json_quote_def json_members_Cons)
  let ?n = "2 * length ?b + 2 * length rest + 1 - length ms"
  have f: "2 * length (CHR ''{'' # ?b @ rest) + 1 = Suc (Suc (length ms + ?n))" using l by simp
  have p: "parse_members (Suc (length ms + ?n)) (?b @ rest) = Some (map (\<lambda>(k, tx, v). (k, v)) ms, rest)"
    by (rule parse_json_members [OF ms])
  have "parse_value (Suc (Suc (length ms + ?n))) (CHR ''{'' # ?b @ rest) = Some (JObj (map (\<lambda>(k, tx, v). (k, v)) ms), rest)"
    using p unfolding bs by (simp add: parse_value.simps code_def)
  then show ?thesis unfolding parse_json_def json_object_def append.simps f by (simp add: rest)
qed

end
