(* ===== verification/Memory_Storage.thy ===== *)
theory Memory_Storage
  imports Storage_Interface
begin

text \<open>
  \<^verbatim>\<open>internal/storage/memory.go\<close>: the in-memory storage, its operations branch by branch, its
  representation invariant, and the proof that it meets the storage contract.
  Every operation runs under the storage's own mutex, so each is one function of the state.
\<close>

section \<open>State\<close>

text \<open>
  The log is a slice \<open>logEntries\<close> whose first element has index \<open>firstIndex\<close>.
  \<open>snapshotData\<close> is nil until a snapshot is saved, which the code tests, so it is an option.
\<close>

record MemoryStorage =
  data :: "bytes \<rightharpoonup> bytes"
  raftState :: "PersistentState option"
  logEntries :: "LogEntry list"
  firstIndex :: int64
  snapshotIndex :: int64
  snapshotTerm :: int64
  snapshotData :: "bytes option"
  closed :: bool

definition zero_entry :: LogEntry where
  "zero_entry = \<lparr>le_Term = 0, le_Index = 0, le_Command = []\<rparr>"

definition zero_state :: PersistentState where
  "zero_state = \<lparr>ps_CurrentTerm = 0, ps_VotedFor = []\<rparr>"

definition NewMemoryStorage :: MemoryStorage where
  "NewMemoryStorage = \<lparr>data = Map.empty, raftState = Some zero_state, logEntries = [],
     firstIndex = 1, snapshotIndex = 0, snapshotTerm = 0, snapshotData = None, closed = False\<rparr>"

section \<open>Operations\<close>

definition MemoryStorage_Get :: "MemoryStorage \<Rightarrow> bytes \<Rightarrow> storage_error + bytes" where
  "MemoryStorage_Get m key =
     (if closed m then Inl ErrStorageClosed
      else case data m key of None \<Rightarrow> Inl ErrKeyNotFound | Some value \<Rightarrow> Inr value)"

definition MemoryStorage_Put ::
    "MemoryStorage \<Rightarrow> bytes \<Rightarrow> bytes \<Rightarrow> MemoryStorage \<times> storage_error option" where
  "MemoryStorage_Put m key value =
     (if closed m then (m, Some ErrStorageClosed)
      else (m\<lparr>data := (data m)(key \<mapsto> value)\<rparr>, None))"

definition MemoryStorage_Delete ::
    "MemoryStorage \<Rightarrow> bytes \<Rightarrow> MemoryStorage \<times> storage_error option" where
  "MemoryStorage_Delete m key =
     (if closed m then (m, Some ErrStorageClosed)
      else (m\<lparr>data := (data m)(key := None)\<rparr>, None))"

definition MemoryStorage_SaveRaftState ::
    "MemoryStorage \<Rightarrow> PersistentState \<Rightarrow> MemoryStorage \<times> storage_error option" where
  "MemoryStorage_SaveRaftState m st =
     (if closed m then (m, Some ErrStorageClosed)
      else (m\<lparr>raftState := Some \<lparr>ps_CurrentTerm = ps_CurrentTerm st, ps_VotedFor = ps_VotedFor st\<rparr>\<rparr>,
            None))"

definition MemoryStorage_LoadRaftState ::
    "MemoryStorage \<Rightarrow> storage_error + PersistentState option" where
  "MemoryStorage_LoadRaftState m =
     (if closed m then Inl ErrStorageClosed
      else case raftState m of
        None \<Rightarrow> Inr (Some zero_state)
      | Some st \<Rightarrow> Inr (Some \<lparr>ps_CurrentTerm = ps_CurrentTerm st, ps_VotedFor = ps_VotedFor st\<rparr>))"

text \<open>
  One iteration of the loop of \<^verbatim>\<open>AppendLogEntries\<close>: skip an entry before the slice,
  overwrite inside it, append at its end, and fill a gap with zero entries.
\<close>

definition append_entry :: "MemoryStorage \<Rightarrow> LogEntry \<Rightarrow> MemoryStorage" where
  "append_entry m entry =
     (let pos = le_Index entry - firstIndex m; n = int (length (logEntries m))
      in if pos < 0 then m
         else if pos < n then m\<lparr>logEntries := (logEntries m)[nat pos := entry]\<rparr>
         else if pos = n then m\<lparr>logEntries := logEntries m @ [entry]\<rparr>
         else m\<lparr>logEntries := logEntries m @ replicate (nat (pos - n)) zero_entry @ [entry]\<rparr>)"

definition MemoryStorage_AppendLogEntries ::
    "MemoryStorage \<Rightarrow> LogEntry list \<Rightarrow> MemoryStorage \<times> storage_error option" where
  "MemoryStorage_AppendLogEntries m entries =
     (if closed m then (m, Some ErrStorageClosed) else (foldl append_entry m entries, None))"

definition MemoryStorage_GetLogEntry :: "MemoryStorage \<Rightarrow> int64 \<Rightarrow> storage_error + LogEntry" where
  "MemoryStorage_GetLogEntry m index =
     (if closed m then Inl ErrStorageClosed
      else if index < firstIndex m then Inl ErrLogNotFound
      else let pos = index - firstIndex m
           in if int (length (logEntries m)) \<le> pos then Inl ErrLogNotFound
              else Inr (logEntries m ! nat pos))"

definition MemoryStorage_GetLogEntries ::
    "MemoryStorage \<Rightarrow> int64 \<Rightarrow> int64 \<Rightarrow> storage_error + LogEntry list" where
  "MemoryStorage_GetLogEntries m startIndex endIndex =
     (if closed m then Inl ErrStorageClosed
      else if endIndex \<le> startIndex then Inr []
      else let start' = (if startIndex < firstIndex m then firstIndex m else startIndex);
               last' = firstIndex m + int (length (logEntries m));
               end' = (if last' < endIndex then last' else endIndex)
           in if end' \<le> start' then Inr []
              else let startPos = nat (start' - firstIndex m); endPos = nat (end' - firstIndex m)
                   in Inr (map (\<lambda>i. logEntries m ! i) [startPos..<endPos]))"

definition MemoryStorage_GetLastLogIndexAndTerm ::
    "MemoryStorage \<Rightarrow> storage_error + int64 \<times> int64" where
  "MemoryStorage_GetLastLogIndexAndTerm m =
     (if closed m then Inl ErrStorageClosed
      else if logEntries m = [] then
        (if 0 < snapshotIndex m then Inr (snapshotIndex m, snapshotTerm m) else Inr (0, 0))
      else Inr (le_Index (last (logEntries m)), le_Term (last (logEntries m))))"

definition MemoryStorage_TruncateLogAfter ::
    "MemoryStorage \<Rightarrow> int64 \<Rightarrow> MemoryStorage \<times> storage_error option" where
  "MemoryStorage_TruncateLogAfter m index =
     (if closed m then (m, Some ErrStorageClosed)
      else if index < firstIndex m then (m\<lparr>logEntries := []\<rparr>, None)
      else let pos = index - firstIndex m + 1
           in if pos < int (length (logEntries m))
              then (m\<lparr>logEntries := take (nat pos) (logEntries m)\<rparr>, None)
              else (m, None))"

definition MemoryStorage_TruncateLogBefore ::
    "MemoryStorage \<Rightarrow> int64 \<Rightarrow> MemoryStorage \<times> storage_error option" where
  "MemoryStorage_TruncateLogBefore m index =
     (if closed m then (m, Some ErrStorageClosed)
      else if index \<le> firstIndex m then (m, None)
      else let pos = index - firstIndex m
           in if int (length (logEntries m)) \<le> pos
              then (m\<lparr>logEntries := [], firstIndex := index\<rparr>, None)
              else (m\<lparr>logEntries := drop (nat pos) (logEntries m), firstIndex := index\<rparr>, None))"

definition MemoryStorage_SaveSnapshot ::
    "MemoryStorage \<Rightarrow> int64 \<Rightarrow> int64 \<Rightarrow> bytes \<Rightarrow> MemoryStorage \<times> storage_error option" where
  "MemoryStorage_SaveSnapshot m index trm d =
     (if closed m then (m, Some ErrStorageClosed)
      else (m\<lparr>snapshotIndex := index, snapshotTerm := trm, snapshotData := Some d\<rparr>, None))"

definition MemoryStorage_LoadSnapshot ::
    "MemoryStorage \<Rightarrow> storage_error + int64 \<times> int64 \<times> bytes" where
  "MemoryStorage_LoadSnapshot m =
     (if closed m then Inl ErrStorageClosed
      else case snapshotData m of
        None \<Rightarrow> Inl ErrNoSnapshot
      | Some d \<Rightarrow> Inr (snapshotIndex m, snapshotTerm m, d))"

definition MemoryStorage_Close :: "MemoryStorage \<Rightarrow> MemoryStorage \<times> storage_error option" where
  "MemoryStorage_Close m =
     (m\<lparr>closed := True, data := Map.empty, logEntries := [], snapshotData := None\<rparr>, None)"

text \<open>The value of interface type \<^verbatim>\<open>Storage\<close> that a \<^verbatim>\<open>*MemoryStorage\<close> is.\<close>

definition mem_ops :: "MemoryStorage storage_ops" where
  "mem_ops = \<lparr>op_Get = MemoryStorage_Get, op_Put = MemoryStorage_Put,
     op_Delete = MemoryStorage_Delete, op_SaveRaftState = MemoryStorage_SaveRaftState,
     op_LoadRaftState = MemoryStorage_LoadRaftState,
     op_AppendLogEntries = MemoryStorage_AppendLogEntries,
     op_GetLogEntry = MemoryStorage_GetLogEntry, op_GetLogEntries = MemoryStorage_GetLogEntries,
     op_GetLastLogIndexAndTerm = MemoryStorage_GetLastLogIndexAndTerm,
     op_TruncateLogAfter = MemoryStorage_TruncateLogAfter,
     op_TruncateLogBefore = MemoryStorage_TruncateLogBefore,
     op_SaveSnapshot = MemoryStorage_SaveSnapshot, op_LoadSnapshot = MemoryStorage_LoadSnapshot,
     op_Close = MemoryStorage_Close\<rparr>"

lemmas mem_op_defs [storage_defs] =
  MemoryStorage_Get_def MemoryStorage_Put_def MemoryStorage_Delete_def
  MemoryStorage_SaveRaftState_def MemoryStorage_LoadRaftState_def
  MemoryStorage_AppendLogEntries_def MemoryStorage_GetLogEntry_def
  MemoryStorage_GetLogEntries_def MemoryStorage_GetLastLogIndexAndTerm_def
  MemoryStorage_TruncateLogAfter_def MemoryStorage_TruncateLogBefore_def
  MemoryStorage_SaveSnapshot_def MemoryStorage_LoadSnapshot_def MemoryStorage_Close_def

section \<open>Representation invariant and abstraction\<close>

definition mem_inv :: "MemoryStorage \<Rightarrow> bool" where
  "mem_inv m \<longleftrightarrow> \<not> closed m \<and> 1 \<le> firstIndex m
     \<and> (\<forall>k < length (logEntries m). le_Index (logEntries m ! k) = firstIndex m + int k)
     \<and> (snapshotData m = None \<longrightarrow> snapshotIndex m = 0)"

definition slice_map :: "int \<Rightarrow> 'a list \<Rightarrow> (int \<rightharpoonup> 'a)" where
  "slice_map f xs i = (if f \<le> i \<and> i < f + int (length xs) then Some (xs ! nat (i - f)) else None)"

definition mem_abs :: "MemoryStorage \<Rightarrow> storage_abs" where
  "mem_abs m = \<lparr>a_kv = data m,
     a_state = (case raftState m of None \<Rightarrow> zero_state | Some st \<Rightarrow> st),
     a_log = slice_map (firstIndex m) (logEntries m),
     a_snap = map_option (\<lambda>d. (snapshotIndex m, snapshotTerm m, d)) (snapshotData m)\<rparr>"

definition mem_can_append :: "MemoryStorage \<Rightarrow> int64 \<Rightarrow> bool" where
  "mem_can_append m i \<longleftrightarrow> i = firstIndex m"

lemma slice_map_nil [simp]: "slice_map f [] = Map.empty"
  by (auto simp: slice_map_def fun_eq_iff)

lemma slice_map_empty_iff: "slice_map f xs = Map.empty \<longleftrightarrow> xs = []"
proof
  assume *: "slice_map f xs = Map.empty"
  show "xs = []"
  proof (rule ccontr)
    assume "xs \<noteq> []"
    then have "slice_map f xs f \<noteq> None" by (simp add: slice_map_def)
    with * show False by simp
  qed
qed simp

lemma slice_map_interval: "1 \<le> f \<Longrightarrow> interval_map f (f + int (length xs) - 1) (slice_map f xs)"
  by (auto simp: interval_map_def slice_map_def dom_def)

lemma slice_map_bounds:
  assumes "interval_map f' l (slice_map f xs)" "xs \<noteq> []"
  shows "f' = f" "l = f + int (length xs) - 1"
proof -
  have "dom (slice_map f xs) = {f..f + int (length xs) - 1}"
    by (auto simp: slice_map_def dom_def split: if_splits)
  with assms(1) have "{f'..l} = {f..f + int (length xs) - 1}" by (auto simp: interval_map_def)
  moreover have "f \<le> f + int (length xs) - 1" using assms(2) by (cases xs) auto
  ultimately show "f' = f" "l = f + int (length xs) - 1" by (auto simp: Icc_eq_Icc)
qed

lemma slice_map_update:
  assumes "f \<le> i" "i < f + int (length xs)"
  shows "slice_map f (xs[nat (i - f) := e]) = (slice_map f xs)(i \<mapsto> e)"
  using assms by (auto simp: slice_map_def fun_eq_iff nth_list_update)

lemma slice_map_snoc:
  "slice_map f (xs @ [e]) = (slice_map f xs)(f + int (length xs) \<mapsto> e)"
  by (auto simp: slice_map_def fun_eq_iff nth_append)

lemma slice_map_take:
  "slice_map f (take n xs) = slice_map f xs |` {..<f + int n}"
  by (auto simp: slice_map_def fun_eq_iff restrict_map_def)

lemma slice_map_drop:
  "slice_map (f + int n) (drop n xs) = slice_map f xs |` {f + int n..}"
  by (auto simp: slice_map_def fun_eq_iff restrict_map_def nat_diff_distrib algebra_simps
      intro!: arg_cong [where f = "nth xs"])

lemma slice_map_range:
  assumes "a' = max a f" "b' = min b (f + int (length xs))" "a' < b'"
  shows "List.map_filter (slice_map f xs) [a..b - 1] = map (\<lambda>i. xs ! i) [nat (a' - f)..<nat (b' - f)]"
proof -
  have "List.map_filter (slice_map f xs) [a..b - 1]
      = map (the \<circ> slice_map f xs) (filter (\<lambda>i. f \<le> i \<and> i < f + int (length xs)) [a..b - 1])"
    by (rule map_filter_restrict) (simp add: slice_map_def)
  also have "\<dots> = map (the \<circ> slice_map f xs) [f + int (nat (a' - f))..f + int (nat (b' - f)) - 1]"
    using assms by (simp add: filter_upto_interval)
  also have "\<dots> = map (\<lambda>i. (the \<circ> slice_map f xs) (f + int i)) [nat (a' - f)..<nat (b' - f)]"
    by (rule map_upto_shift)
  also have "\<dots> = map (\<lambda>i. xs ! i) [nat (a' - f)..<nat (b' - f)]"
    using assms by (auto simp: slice_map_def)
  finally show ?thesis .
qed

lemma slice_map_range_empty:
  assumes "min b (f + int (length xs)) \<le> max a f"
  shows "List.map_filter (slice_map f xs) [a..b - 1] = []"
proof -
  have "List.map_filter (slice_map f xs) [a..b - 1]
      = map (the \<circ> slice_map f xs) (filter (\<lambda>i. f \<le> i \<and> i < f + int (length xs)) [a..b - 1])"
    by (rule map_filter_restrict) (simp add: slice_map_def)
  with assms show ?thesis by (simp add: filter_upto_interval)
qed

section \<open>The contract\<close>

lemma mem_abs_sel [simp]:
  "a_kv (mem_abs m) = data m"
  "a_log (mem_abs m) = slice_map (firstIndex m) (logEntries m)"
  "a_state (mem_abs m) = (case raftState m of None \<Rightarrow> zero_state | Some st \<Rightarrow> st)"
  "a_snap (mem_abs m) = map_option (\<lambda>d. (snapshotIndex m, snapshotTerm m, d)) (snapshotData m)"
  by (simp_all add: mem_abs_def)

interpretation mem_kv: kv_storage mem_ops mem_inv mem_abs
  by unfold_locales
    (auto simp: mem_ops_def storage_defs mem_inv_def mem_abs_def split: option.splits)

interpretation mem_state: state_storage mem_ops mem_inv mem_abs "\<lambda>_. True" "\<lambda>_. True"
  by unfold_locales
    (auto simp: mem_ops_def storage_defs mem_inv_def mem_abs_def zero_state_def split: option.splits)

interpretation mem_snapshot: snapshot_storage mem_ops mem_inv mem_abs "\<lambda>_. True"
  by unfold_locales
    (auto simp: mem_ops_def storage_defs mem_inv_def mem_abs_def split: option.splits)


lemma mem_append1:
  assumes "mem_inv m" "firstIndex m \<le> le_Index e" "le_Index e \<le> firstIndex m + int (length (logEntries m))"
  shows "mem_inv (append_entry m e)"
    and "mem_abs (append_entry m e) = (mem_abs m)\<lparr>a_log := (a_log (mem_abs m))(le_Index e \<mapsto> e)\<rparr>"
  using assms
  by (auto simp: append_entry_def Let_def mem_inv_def mem_abs_def nth_list_update nth_append
      slice_map_update slice_map_snoc)

interpretation mem_log: log_storage mem_ops mem_inv mem_abs mem_can_append "\<lambda>_. True"
proof (unfold_locales, goal_cases)
  case (1 s)
  then show ?case
    using slice_map_interval [of "firstIndex s" "logEntries s"]
    by (auto simp: log_wf_def mem_inv_def slice_map_def split: if_splits)
next
  case (2 s f l i)
  then show ?case by (auto simp: mem_ops_def storage_defs mem_inv_def slice_map_def Let_def)
next
  case (3 s f l a b)
  then show ?case
    by (auto simp: mem_ops_def storage_defs mem_inv_def log_range_def Let_def max_def min_def
        slice_map_range slice_map_range_empty)
next
  case (4 s f l e)
  then have ne: "logEntries s \<noteq> []" by (auto simp: slice_map_def split: if_splits)
  then obtain n where "length (logEntries s) = Suc n" by (cases "logEntries s") auto
  with ne 4 slice_map_bounds [of f l "firstIndex s" "logEntries s"] show ?case
    by (auto simp: mem_ops_def storage_defs mem_inv_def slice_map_def last_conv_nth
        split: if_splits)
next
  case (5 s)
  then show ?case
    by (auto simp: mem_ops_def storage_defs mem_inv_def slice_map_empty_iff)
next
  case (6 s i t d)
  then show ?case
    by (auto simp: mem_ops_def storage_defs mem_inv_def slice_map_empty_iff)
next
  case (7 s f l e)
  then have "logEntries s \<noteq> []" by (auto simp: interval_map_def)
  with 7 slice_map_bounds [of f l "firstIndex s" "logEntries s"] mem_append1 [of s e] show ?case
    by (auto simp: mem_ops_def storage_defs mem_inv_def)
next
  case (8 s e)
  with mem_append1 [of s e] show ?case
    by (auto simp: mem_ops_def storage_defs mem_inv_def mem_can_append_def slice_map_empty_iff)
next
  case (9 s f l i)
  then have "logEntries s \<noteq> []" by (auto simp: interval_map_def)
  with 9 slice_map_bounds [of f l "firstIndex s" "logEntries s"] show ?case
    by (auto simp: mem_ops_def storage_defs mem_inv_def mem_abs_def Let_def slice_map_take
        mem_can_append_def restrict_map_def fun_eq_iff slice_map_def)
next
  case (10 s f l i)
  then have "logEntries s \<noteq> []" by (auto simp: interval_map_def)
  with 10 slice_map_bounds [of f l "firstIndex s" "logEntries s"] show ?case
    by (auto simp: mem_ops_def storage_defs mem_inv_def mem_abs_def Let_def
        mem_can_append_def restrict_map_def fun_eq_iff slice_map_def simp flip: nat_add_distrib)
next
  case (11 s i ps)
  then show ?case by (simp add: mem_ops_def storage_defs mem_inv_def mem_can_append_def)
qed

interpretation mem: storage mem_ops mem_inv mem_abs mem_can_append "\<lambda>_. True" "\<lambda>_. True"
  by unfold_locales

end
