(* ===== verification/Raft_Log.thy ===== *)
theory Raft_Log
  imports Memory_Storage
begin

text \<open>
  \<^verbatim>\<open>internal/raft/log.go\<close>: the log manager, a cache of recent entries over a
  \<^verbatim>\<open>LogStorage\<close>. Reads may fill the cache, so a read returns the log it leaves behind as
  well as its result. The main results say that the cache is transparent: under the log's
  invariant every read returns what the storage holds, whatever the cache contains, and every
  operation keeps the invariant.
\<close>

section \<open>State\<close>

text \<open>
  The Go map \<^verbatim>\<open>cache\<close> is iterated (to find its least index and to evict), so it is an
  association list with distinct keys; the results do not depend on its order.
  \<^verbatim>\<open>Log.storage\<close> and \<^verbatim>\<open>RaftNode.storage\<close> are the same object, so the storage
  state is an argument of the operations and not a field.
\<close>

record Log =
  lastIndex :: int64
  cache :: "(int64 \<times> LogEntry) list"
  cacheSize :: int

definition NewLog :: "'s storage_ops \<Rightarrow> 's \<Rightarrow> Log" where
  "NewLog ops s =
     (let l = \<lparr>lastIndex = 0, cache = [], cacheSize = 1000\<rparr>
      in case op_GetLastLogIndexAndTerm ops s of
           Inl _ \<Rightarrow> l
         | Inr (li, _) \<Rightarrow> l\<lparr>lastIndex := li\<rparr>)"

section \<open>Operations\<close>

definition cacheEntry :: "Log \<Rightarrow> LogEntry \<Rightarrow> Log" where
  "cacheEntry l entry =
     (let c = AList.update (le_Index entry) entry (cache l)
      in if int (length c) > cacheSize l then
           let minIndex = foldl (\<lambda>m (idx, _). if idx < m then idx else m) (le_Index entry) c;
               threshold = minIndex + cacheSize l div 2
           in l\<lparr>cache := filter (\<lambda>(idx, _). \<not> idx < threshold) c\<rparr>
         else l\<lparr>cache := c\<rparr>)"

definition getEntryLocked :: "'s storage_ops \<Rightarrow> 's \<Rightarrow> Log \<Rightarrow> int64 \<Rightarrow> Log \<times> LogEntry option" where
  "getEntryLocked ops s l index =
     (if index < 1 \<or> lastIndex l < index then (l, None)
      else case map_of (cache l) index of
        Some entry \<Rightarrow> (l, Some entry)
      | None \<Rightarrow> (case op_GetLogEntry ops s index of
            Inl _ \<Rightarrow> (l, None)
          | Inr entry \<Rightarrow> (cacheEntry l entry, Some entry)))"

definition Log_LastIndex :: "Log \<Rightarrow> int64" where
  "Log_LastIndex l = lastIndex l"

definition Log_LastTerm :: "'s storage_ops \<Rightarrow> 's \<Rightarrow> Log \<Rightarrow> Log \<times> int64" where
  "Log_LastTerm ops s l =
     (if lastIndex l = 0 then (l, 0)
      else case getEntryLocked ops s l (lastIndex l) of
        (l', None) \<Rightarrow> (l', 0)
      | (l', Some entry) \<Rightarrow> (l', le_Term entry))"

definition Log_GetTerm :: "'s storage_ops \<Rightarrow> 's \<Rightarrow> Log \<Rightarrow> int64 \<Rightarrow> Log \<times> int64" where
  "Log_GetTerm ops s l index =
     (if index = 0 then (l, 0)
      else case getEntryLocked ops s l index of
        (l', None) \<Rightarrow> (l', 0)
      | (l', Some entry) \<Rightarrow> (l', le_Term entry))"

definition Log_GetEntry :: "'s storage_ops \<Rightarrow> 's \<Rightarrow> Log \<Rightarrow> int64 \<Rightarrow> Log \<times> LogEntry option" where
  "Log_GetEntry ops s l index = getEntryLocked ops s l index"

definition Log_GetEntries :: "'s storage_ops \<Rightarrow> 's \<Rightarrow> Log \<Rightarrow> int64 \<Rightarrow> int64 \<Rightarrow> LogEntry list" where
  "Log_GetEntries ops s l start end' =
     (if end' \<le> start \<or> start < 1 then []
      else let end'' = (if lastIndex l + 1 < end' then lastIndex l + 1 else end')
           in case op_GetLogEntries ops s start end'' of Inl _ \<Rightarrow> [] | Inr entries \<Rightarrow> entries)"

definition Log_Append ::
    "'s storage_ops \<Rightarrow> 's \<Rightarrow> Log \<Rightarrow> LogEntry \<Rightarrow> ('s \<times> Log) \<times> storage_error option" where
  "Log_Append ops s l entry =
     (case op_AppendLogEntries ops s [entry] of
        (s', Some err) \<Rightarrow> ((s', l), Some err)
      | (s', None) \<Rightarrow>
          let l1 = (if lastIndex l < le_Index entry then l\<lparr>lastIndex := le_Index entry\<rparr> else l)
          in ((s', cacheEntry l1 entry), None))"

definition Log_AppendEntries ::
    "'s storage_ops \<Rightarrow> 's \<Rightarrow> Log \<Rightarrow> LogEntry list \<Rightarrow> ('s \<times> Log) \<times> storage_error option" where
  "Log_AppendEntries ops s l entries =
     (if entries = [] then ((s, l), None)
      else case op_AppendLogEntries ops s entries of
        (s', Some err) \<Rightarrow> ((s', l), Some err)
      | (s', None) \<Rightarrow>
          let lastEntry = last entries;
              l1 = (if lastIndex l < le_Index lastEntry then l\<lparr>lastIndex := le_Index lastEntry\<rparr> else l)
          in ((s', foldl cacheEntry l1 entries), None))"

definition Log_TruncateAfter ::
    "'s storage_ops \<Rightarrow> 's \<Rightarrow> Log \<Rightarrow> int64 \<Rightarrow> ('s \<times> Log) \<times> storage_error option" where
  "Log_TruncateAfter ops s l index =
     (if lastIndex l \<le> index then ((s, l), None)
      else case op_TruncateLogAfter ops s index of
        (s', Some err) \<Rightarrow> ((s', l), Some err)
      | (s', None) \<Rightarrow>
          ((s', l\<lparr>lastIndex := index, cache := filter (\<lambda>(idx, _). \<not> index < idx) (cache l)\<rparr>), None))"

definition Log_TruncateBefore ::
    "'s storage_ops \<Rightarrow> 's \<Rightarrow> Log \<Rightarrow> int64 \<Rightarrow> ('s \<times> Log) \<times> storage_error option" where
  "Log_TruncateBefore ops s l index =
     (case op_TruncateLogBefore ops s index of
        (s', Some err) \<Rightarrow> ((s', l), Some err)
      | (s', None) \<Rightarrow> ((s', l\<lparr>cache := filter (\<lambda>(idx, _). \<not> idx < index) (cache l)\<rparr>), None))"

definition Log_HasEntry :: "'s storage_ops \<Rightarrow> 's \<Rightarrow> Log \<Rightarrow> int64 \<Rightarrow> int64 \<Rightarrow> Log \<times> bool" where
  "Log_HasEntry ops s l index trm =
     (if index = 0 then (l, trm = 0)
      else case getEntryLocked ops s l index of
        (l', None) \<Rightarrow> (l', False)
      | (l', Some entry) \<Rightarrow> (l', le_Term entry = trm))"

text \<open>
  The loop of \<^verbatim>\<open>findFirstIndexOfTerm\<close> runs over the indices 1 to \<open>lastIndex\<close>, which
  \<^verbatim>\<open>getEntryLocked\<close> never changes.
\<close>

fun find_first_loop :: "'s storage_ops \<Rightarrow> 's \<Rightarrow> int64 \<Rightarrow> Log \<Rightarrow> int64 list \<Rightarrow> Log \<times> int64" where
  "find_first_loop ops s trm l [] = (l, 1)"
| "find_first_loop ops s trm l (i # is) =
     (case getEntryLocked ops s l i of
        (l', Some entry) \<Rightarrow>
          if le_Term entry = trm then (l', i) else find_first_loop ops s trm l' is
      | (l', None) \<Rightarrow> find_first_loop ops s trm l' is)"

definition findFirstIndexOfTerm :: "'s storage_ops \<Rightarrow> 's \<Rightarrow> Log \<Rightarrow> int64 \<Rightarrow> Log \<times> int64" where
  "findFirstIndexOfTerm ops s l trm = find_first_loop ops s trm l [1..lastIndex l]"

definition Log_NextIndex :: "Log \<Rightarrow> int64" where
  "Log_NextIndex l = lastIndex l + 1"

section \<open>What the reads return without a cache\<close>

text \<open>The specification of the reads: functions of the abstract log only.\<close>

definition term_at :: "(int64 \<rightharpoonup> LogEntry) \<Rightarrow> int64 \<Rightarrow> int64" where
  "term_at m i = (case m i of None \<Rightarrow> 0 | Some e \<Rightarrow> le_Term e)"

definition first_of_term :: "(int64 \<rightharpoonup> LogEntry) \<Rightarrow> int64 \<Rightarrow> int64 \<Rightarrow> int64" where
  "first_of_term m n trm =
     (case filter (\<lambda>i. \<exists>e. m i = Some e \<and> le_Term e = trm) [1..n] of [] \<Rightarrow> 1 | i # _ \<Rightarrow> i)"

lemma term_at_upd [simp]: "term_at (m(i \<mapsto> e)) j = (if j = i then le_Term e else term_at m j)"
  by (simp add: term_at_def)

lemma term_at_None [simp]: "m i = None \<Longrightarrow> term_at m i = 0"
  by (simp add: term_at_def)

lemma term_at_Some [simp]: "m i = Some e \<Longrightarrow> term_at m i = le_Term e"
  by (simp add: term_at_def)

section \<open>Cache bookkeeping\<close>

lemma cacheEntry_lastIndex [simp]: "lastIndex (cacheEntry l e) = lastIndex l"
  by (simp add: cacheEntry_def Let_def)

lemma cacheEntry_cacheSize [simp]: "cacheSize (cacheEntry l e) = cacheSize l"
  by (simp add: cacheEntry_def Let_def)

lemma cacheEntry_lookup:
  "map_of (cache (cacheEntry l e)) i = Some x \<Longrightarrow> (if i = le_Index e then x = e else map_of (cache l) i = Some x)"
  by (auto simp: cacheEntry_def Let_def map_of_filter_key update_conv split: if_splits)

lemma cacheEntry_distinct: "distinct (map fst (cache l)) \<Longrightarrow> distinct (map fst (cache (cacheEntry l e)))"
  by (auto simp: cacheEntry_def Let_def distinct_update intro!: distinct_fst_filter)

lemma getEntryLocked_lastIndex [simp]: "lastIndex (fst (getEntryLocked ops s l i)) = lastIndex l"
  by (simp add: getEntryLocked_def split: option.splits sum.splits)

text \<open>Coherence: the cache is a submap of the stored log.\<close>

definition cache_ok :: "(int64 \<rightharpoonup> LogEntry) \<Rightarrow> Log \<Rightarrow> bool" where
  "cache_ok m l \<longleftrightarrow> map_of (cache l) \<subseteq>\<^sub>m m \<and> distinct (map fst (cache l))"

lemma cache_ok_lookup: "cache_ok m l \<Longrightarrow> map_of (cache l) i = Some e \<Longrightarrow> m i = Some e"
  unfolding cache_ok_def map_le_def by (metis domI)

lemma cache_ok_cacheEntry:
  assumes "cache_ok m l"
  shows "cache_ok (m(le_Index e \<mapsto> e)) (cacheEntry l e)"
proof -
  have "(m(le_Index e \<mapsto> e)) i = Some x" if "map_of (cache (cacheEntry l e)) i = Some x" for i x
    using cacheEntry_lookup [OF that] cache_ok_lookup [OF assms] by (auto split: if_splits)
  then show ?thesis using assms cacheEntry_distinct
    by (auto simp: cache_ok_def map_le_def dom_def simp del: fun_upd_apply)
qed

lemma cache_ok_cacheEntry_same:
  assumes "cache_ok m l" "m (le_Index e) = Some e"
  shows "cache_ok m (cacheEntry l e)"
proof -
  have "m(le_Index e \<mapsto> e) = m" using assms(2) by (rule map_upd_triv)
  with cache_ok_cacheEntry [OF assms(1), of e] show ?thesis by simp
qed

lemma cache_ok_filter:
  assumes "cache_ok m l" "\<And>i. P i \<Longrightarrow> m' i = m i"
  shows "cache_ok m' (l\<lparr>cache := filter (\<lambda>(idx, _). P idx) (cache l)\<rparr>)"
  using assms cache_ok_lookup [OF assms(1)]
  by (auto simp: cache_ok_def map_le_def map_of_filter_key dom_def intro: distinct_fst_filter split: if_splits)

lemma cache_ok_lastIndex [simp]: "cache_ok m (l\<lparr>lastIndex := i\<rparr>) = cache_ok m l"
  by (simp add: cache_ok_def)

section \<open>The log's invariant and the transparency of its cache\<close>

text \<open>
  The stored log is one interval that ends at \<open>lastIndex\<close>, the cache is coherent with it, and an
  empty log accepts the next index.
\<close>

definition log_ok ::
    "('s \<Rightarrow> bool) \<Rightarrow> ('s \<Rightarrow> storage_abs) \<Rightarrow> ('s \<Rightarrow> int64 \<Rightarrow> bool) \<Rightarrow> 's \<Rightarrow> Log \<Rightarrow> bool" where
  "log_ok ok absf can_app s l \<longleftrightarrow> ok s
     \<and> (\<exists>f. interval_map f (lastIndex l) (a_log (absf s)))
     \<and> cache_ok (a_log (absf s)) l
     \<and> (a_log (absf s) = Map.empty \<longrightarrow> can_app s (lastIndex l + 1))"

context storage
begin

abbreviation log_inv :: "'s \<Rightarrow> Log \<Rightarrow> bool" where
  "log_inv \<equiv> log_ok inv abs can_append"

abbreviation lview :: "'s \<Rightarrow> int64 \<rightharpoonup> LogEntry" where
  "lview s \<equiv> a_log (abs s)"

lemma log_inv_None: "log_inv s l \<Longrightarrow> i < 1 \<or> lastIndex l < i \<Longrightarrow> lview s i = None"
  unfolding log_ok_def interval_map_def by (metis atLeastAtMost_iff domIff not_less order_trans)

lemma log_inv_last_nonneg: "log_inv s l \<Longrightarrow> 0 \<le> lastIndex l"
  unfolding log_ok_def interval_map_def by auto

lemma log_inv_index: "log_inv s l \<Longrightarrow> lview s i = Some e \<Longrightarrow> le_Index e = i"
  using wf log_wf_index by (auto simp: log_ok_def)

lemma getEntryLocked_spec:
  assumes "log_inv s l"
  shows "\<exists>l'. getEntryLocked ops s l i = (l', lview s i) \<and> log_inv s l' \<and> lastIndex l' = lastIndex l"
proof (cases "i < 1 \<or> lastIndex l < i")
  case True
  with log_inv_None [OF assms True] assms show ?thesis by (auto simp: getEntryLocked_def)
next
  case False
  have inv: "inv s" and ok: "cache_ok (lview s) l" using assms by (auto simp: log_ok_def)
  have read: "op_GetLogEntry ops s i = (case lview s i of None \<Rightarrow> Inl ErrLogNotFound | Some e \<Rightarrow> Inr e)"
    using assms False get_entry [OF inv] by (auto simp: log_ok_def)
  show ?thesis
  proof (cases "map_of (cache l) i")
    case (Some e)
    with False assms cache_ok_lookup [OF ok Some] show ?thesis by (auto simp: getEntryLocked_def)
  next
    case None
    show ?thesis
    proof (cases "lview s i")
      case (Some e)
      with log_inv_index [OF assms Some] cache_ok_cacheEntry_same [OF ok, of e] None False inv assms
      show ?thesis by (auto simp: getEntryLocked_def read log_ok_def)
    qed (use None False inv assms in \<open>auto simp: getEntryLocked_def read\<close>)
  qed
qed

lemma Log_GetEntry_spec:
  assumes "log_inv s l"
  shows "\<exists>l'. Log_GetEntry ops s l i = (l', lview s i) \<and> log_inv s l' \<and> lastIndex l' = lastIndex l"
  using getEntryLocked_spec [OF assms] by (simp add: Log_GetEntry_def)

lemma Log_GetTerm_spec:
  assumes "log_inv s l"
  shows "\<exists>l'. Log_GetTerm ops s l i = (l', term_at (lview s) i) \<and> log_inv s l' \<and> lastIndex l' = lastIndex l"
  using getEntryLocked_spec [OF assms, of i] log_inv_None [OF assms, of 0] assms
  by (auto simp: Log_GetTerm_def term_at_def split: option.splits)

lemma Log_LastTerm_spec:
  assumes "log_inv s l"
  shows "\<exists>l'. Log_LastTerm ops s l = (l', term_at (lview s) (lastIndex l)) \<and> log_inv s l' \<and> lastIndex l' = lastIndex l"
  using getEntryLocked_spec [OF assms, of "lastIndex l"] log_inv_None [OF assms, of 0] assms
  by (auto simp: Log_LastTerm_def term_at_def split: option.splits)

lemma Log_HasEntry_spec:
  assumes "log_inv s l"
  shows "snd (Log_HasEntry ops s l i t) \<longleftrightarrow>
    (if i = 0 then t = 0 else \<exists>e. lview s i = Some e \<and> le_Term e = t)"
  using getEntryLocked_spec [OF assms, of i]
  by (auto simp: Log_HasEntry_def split: option.splits)

lemma Log_GetEntries_spec:
  assumes "log_inv s l" "1 \<le> a"
  shows "Log_GetEntries ops s l a b = log_range (lview s) a (min b (lastIndex l + 1))"
  using assms get_range [of s _ "lastIndex l" a]
  by (auto simp: Log_GetEntries_def log_ok_def log_range_def Let_def min_def)

lemma find_first_loop_spec:
  assumes "log_inv s l"
  shows "\<exists>l'. find_first_loop ops s t l is =
      (l', case filter (\<lambda>i. \<exists>e. lview s i = Some e \<and> le_Term e = t) is of [] \<Rightarrow> 1 | i # _ \<Rightarrow> i)
      \<and> log_inv s l' \<and> lastIndex l' = lastIndex l"
  using assms
proof (induction "is" arbitrary: l)
  case (Cons i "is")
  obtain l' where "getEntryLocked ops s l i = (l', lview s i)" "log_inv s l'" "lastIndex l' = lastIndex l"
    using getEntryLocked_spec [OF Cons.prems] by blast
  with Cons.IH [of l'] show ?case by (auto split: option.splits)
qed auto

lemma findFirstIndexOfTerm_spec:
  assumes "log_inv s l"
  shows "\<exists>l'. findFirstIndexOfTerm ops s l t = (l', first_of_term (lview s) (lastIndex l) t)
      \<and> log_inv s l' \<and> lastIndex l' = lastIndex l"
  using find_first_loop_spec [OF assms] by (simp add: findFirstIndexOfTerm_def first_of_term_def)

lemma Log_Append_spec:
  assumes l: "log_inv s l" and f: "interval_map f (lastIndex l) (lview s)"
    and e: "f \<le> le_Index e" "le_Index e \<le> lastIndex l + 1" "rng (le_Term e)" "rng (le_Index e)"
  shows "\<exists>s' l'. Log_Append ops s l e = ((s', l'), None) \<and> log_inv s' l'
      \<and> abs s' = (abs s)\<lparr>a_log := (lview s)(le_Index e \<mapsto> e)\<rparr>
      \<and> lastIndex l' = max (lastIndex l) (le_Index e)"
proof -
  have "inv s" and c: "cache_ok (lview s) l" using l by (auto simp: log_ok_def)
  have "\<exists>s'. op_AppendLogEntries ops s [e] = (s', None) \<and> inv s'
      \<and> abs s' = (abs s)\<lparr>a_log := (lview s)(le_Index e \<mapsto> e)\<rparr>"
  proof (cases "lview s = Map.empty")
    case True
    with f e have "le_Index e = lastIndex l + 1" by (auto simp: interval_map_def)
    moreover have "1 \<le> le_Index e" using f e(1) by (auto simp: interval_map_def)
    ultimately show ?thesis using True l \<open>inv s\<close> append_empty [of s e] e(3,4) by (auto simp: log_ok_def)
  next
    case False
    with f have "f \<le> lastIndex l" by (auto simp: interval_map_def)
    with append_inside [OF \<open>inv s\<close> f _ e] show ?thesis by simp
  qed
  moreover have "interval_map f (max (lastIndex l) (le_Index e)) ((lview s)(le_Index e \<mapsto> e))"
    using interval_map_upd [OF f e(1,2)] .
  ultimately show ?thesis using cache_ok_cacheEntry [of "lview s" _ e] c
    by (auto simp: Log_Append_def log_ok_def Let_def max_def fun_eq_iff split: if_splits)
qed

lemma Log_TruncateAfter_spec:
  assumes l: "log_inv s l" and f: "interval_map f (lastIndex l) (lview s)"
    and i: "f \<le> i + 1" "i < lastIndex l"
  shows "\<exists>s' l'. Log_TruncateAfter ops s l i = ((s', l'), None) \<and> log_inv s' l'
      \<and> abs s' = (abs s)\<lparr>a_log := lview s |` {..i}\<rparr> \<and> lastIndex l' = i"
proof -
  have "inv s" and c: "cache_ok (lview s) l" using l by (auto simp: log_ok_def)
  from truncate_after [OF \<open>inv s\<close> f i] obtain s' where
    s': "op_TruncateLogAfter ops s i = (s', None)" "inv s'"
      "abs s' = (abs s)\<lparr>a_log := lview s |` {..i}\<rparr>" "i < f \<longrightarrow> can_append s' f" by blast
  have im: "interval_map f i (lview s |` {..i})" using interval_map_upto [OF f] i by simp
  have "can_append s' (i + 1)" if "lview s |` {..i} = Map.empty"
  proof -
    have "f = i + 1" using im i that by (auto simp: interval_map_def)
    with s'(4) show ?thesis by simp
  qed
  moreover have "cache_ok (lview s |` {..i}) (l\<lparr>cache := filter (\<lambda>(idx, _). \<not> i < idx) (cache l)\<rparr>)"
    using cache_ok_filter [OF c, of "\<lambda>idx. \<not> i < idx" "lview s |` {..i}"] by (simp add: restrict_map_def)
  then have "cache_ok (lview s |` {..i}) (l\<lparr>lastIndex := i, cache := filter (\<lambda>(idx, _). \<not> i < idx) (cache l)\<rparr>)"
    by (simp add: cache_ok_def)
  ultimately show ?thesis using s' im i by (auto simp: Log_TruncateAfter_def log_ok_def)
qed

lemma Log_TruncateBefore_spec:
  assumes l: "log_inv s l" and f: "interval_map f (lastIndex l) (lview s)" and ne: "f \<le> lastIndex l"
    and i: "f \<le> i" "i \<le> lastIndex l + 1"
  shows "\<exists>s' l'. Log_TruncateBefore ops s l i = ((s', l'), None) \<and> log_inv s' l'
      \<and> abs s' = (abs s)\<lparr>a_log := lview s |` {i..}\<rparr> \<and> lastIndex l' = lastIndex l"
proof -
  have "inv s" and c: "cache_ok (lview s) l" using l by (auto simp: log_ok_def)
  from truncate_before [OF \<open>inv s\<close> f i ne] obtain s' where
    s': "op_TruncateLogBefore ops s i = (s', None)" "inv s'"
      "abs s' = (abs s)\<lparr>a_log := lview s |` {i..}\<rparr>" "lastIndex l < i \<longrightarrow> can_append s' i" by blast
  have im: "interval_map i (lastIndex l) (lview s |` {i..})" using interval_map_from [OF f i] .
  then have "lview s |` {i..} = Map.empty \<Longrightarrow> i = lastIndex l + 1"
    using i by (auto simp: interval_map_def)
  moreover have "cache_ok (lview s |` {i..}) (l\<lparr>cache := filter (\<lambda>(idx, _). \<not> idx < i) (cache l)\<rparr>)"
    using cache_ok_filter [OF c, of "\<lambda>idx. \<not> idx < i" "lview s |` {i..}"] by (simp add: restrict_map_def)
  ultimately show ?thesis using s' im by (auto simp: Log_TruncateBefore_def log_ok_def)
qed

lemma NewLog_spec:
  assumes "inv s" "interval_map 1 n (lview s)" "a_snap (abs s) = None"
    "lview s = Map.empty \<longrightarrow> can_append s 1"
  shows "log_inv s (NewLog ops s) \<and> lastIndex (NewLog ops s) = n"
proof (cases "n = 0")
  case True
  then have "lview s = Map.empty" using assms(2) by (auto simp: interval_map_def)
  with True assms get_last_empty [of s] show ?thesis
    by (auto simp: NewLog_def log_ok_def cache_ok_def)
next
  case False
  then have "1 \<le> n" using assms(2) by (auto simp: interval_map_def)
  with interval_map_Some [OF assms(2)] obtain e where e: "lview s n = Some e" by blast
  with get_last_nonempty [OF assms(1,2) e] assms(1,2) show ?thesis
    by (auto simp: NewLog_def log_ok_def cache_ok_def)
qed

end

end
