(* ===== verification/Raft_Node.thy ===== *)
theory Raft_Node
  imports Raft_Log Raft_Types
begin

text \<open>
  \<^verbatim>\<open>internal/raft/raft.go\<close>: the state of a Raft node, its construction from a configuration
  and a storage, and the state changes the other files share (\<^verbatim>\<open>persistState\<close>,
  \<^verbatim>\<open>stepDown\<close>, \<^verbatim>\<open>isLogUpToDate\<close>).

  Each definition is the body of a critical section of \<^verbatim>\<open>RaftNode.mu\<close>. Metrics and logging
  have no effect on the state and are left out. The three signal channels have capacity one and
  are written without blocking, so each is a flag. The wait group is modelled by the number of
  running goroutines of each kind (\<^verbatim>\<open>electionTimer\<close>, \<^verbatim>\<open>applyLoop\<close>,
  \<^verbatim>\<open>leaderLoop\<close>). The field \<^verbatim>\<open>lastContact\<close> is never used by the code.
\<close>

section \<open>State\<close>

datatype raft_error =
    ErrConfig string
  | ErrNotLeaderWithHint node_id string
  | ErrStorage storage_error
  | ErrRestoreFailed storage_error
  | ErrAlreadyStarted

record 's RaftNode =
  rn_id :: node_id
  peers :: "node_id list"
  peerAddrs :: "node_id \<rightharpoonup> string"
  currentTerm :: int64
  votedFor :: node_id
  rn_log :: Log
  commitIndex :: int64
  lastApplied :: int64
  nextIndex :: "node_id \<rightharpoonup> int64"
  matchIndex :: "node_id \<rightharpoonup> int64"
  nstate :: NodeState
  leaderId :: node_id
  rn_storage :: 's
  applyCh :: "ApplyMsg list"
  resetTimerCh :: bool
  newEntryCh :: bool
  stepDownCh :: bool
  stopCh :: bool
  electionTimers :: nat
  applyLoops :: nat
  leaderLoops :: nat
  registered :: bool
  electionTimeoutMin :: duration
  electionTimeoutMax :: duration
  heartbeatInterval :: duration
  started :: bool

text \<open>Nil pointers of the configuration are \<open>None\<close>; \<open>cfg_ApplyCh\<close> is the channel's capacity.\<close>

record 's RaftConfig =
  cfg_ID :: node_id
  cfg_Peers :: "node_id list"
  cfg_PeerAddrs :: "node_id \<rightharpoonup> string"
  cfg_Storage :: "'s option"
  cfg_Transport :: "unit option"
  cfg_ApplyCh :: "nat option"
  cfg_ElectionTimeoutMin :: duration
  cfg_ElectionTimeoutMax :: duration
  cfg_HeartbeatInterval :: duration

definition ErrNotLeaderWithHint_Error :: "node_id \<Rightarrow> string" where
  "ErrNotLeaderWithHint_Error leader =
     (if leader = [] then ''not leader, leader unknown'' else ''not leader, leader is '' @ leader)"

definition DefaultRaftConfig ::
    "node_id \<Rightarrow> node_id list \<Rightarrow> (node_id \<rightharpoonup> string) \<Rightarrow> 's option \<Rightarrow> unit option \<Rightarrow> 's RaftConfig" where
  "DefaultRaftConfig i ps addrs st tr = \<lparr>cfg_ID = i, cfg_Peers = ps, cfg_PeerAddrs = addrs,
     cfg_Storage = st, cfg_Transport = tr, cfg_ApplyCh = Some 100,
     cfg_ElectionTimeoutMin = DefaultElectionTimeoutMin,
     cfg_ElectionTimeoutMax = DefaultElectionTimeoutMax,
     cfg_HeartbeatInterval = DefaultHeartbeatInterval\<rparr>"

section \<open>Construction\<close>

definition restoreState :: "'s storage_ops \<Rightarrow> 's RaftNode \<Rightarrow> storage_error + 's RaftNode" where
  "restoreState ops rn =
     (case op_LoadRaftState ops (rn_storage rn) of
        Inl err \<Rightarrow> Inl err
      | Inr st \<Rightarrow>
          let rn1 = (case st of
                       None \<Rightarrow> rn
                     | Some ps \<Rightarrow> rn\<lparr>currentTerm := ps_CurrentTerm ps, votedFor := ps_VotedFor ps\<rparr>)
          in case op_GetLastLogIndexAndTerm ops (rn_storage rn1) of
               Inl err \<Rightarrow> Inl err
             | Inr (li, _) \<Rightarrow> Inr (rn1\<lparr>rn_log := (rn_log rn1)\<lparr>lastIndex := li\<rparr>\<rparr>))"

definition NewRaftNode :: "'s storage_ops \<Rightarrow> 's RaftConfig \<Rightarrow> raft_error + 's RaftNode" where
  "NewRaftNode ops cfg =
     (if cfg_ID cfg = [] then Inl (ErrConfig ''node ID cannot be empty'')
      else case cfg_Storage cfg of
        None \<Rightarrow> Inl (ErrConfig ''storage cannot be nil'')
      | Some s \<Rightarrow>
          if cfg_Transport cfg = None then Inl (ErrConfig ''transport cannot be nil'')
          else
            let rn = \<lparr>rn_id = cfg_ID cfg, peers = cfg_Peers cfg, peerAddrs = cfg_PeerAddrs cfg,
                  currentTerm = 0, votedFor = [], rn_log = NewLog ops s,
                  commitIndex = 0, lastApplied = 0,
                  nextIndex = Map.empty, matchIndex = Map.empty,
                  nstate = Follower, leaderId = [], rn_storage = s, applyCh = [],
                  resetTimerCh = False, newEntryCh = False, stepDownCh = False, stopCh = False,
                  electionTimers = 0, applyLoops = 0, leaderLoops = 0, registered = False,
                  electionTimeoutMin = cfg_ElectionTimeoutMin cfg,
                  electionTimeoutMax = cfg_ElectionTimeoutMax cfg,
                  heartbeatInterval = cfg_HeartbeatInterval cfg, started = False\<rparr>
            in case restoreState ops rn of
                 Inl err \<Rightarrow> Inl (ErrRestoreFailed err)
               | Inr rn' \<Rightarrow> Inr rn')"

section \<open>Shared state changes\<close>

definition persistState :: "'s storage_ops \<Rightarrow> 's RaftNode \<Rightarrow> 's RaftNode \<times> storage_error option" where
  "persistState ops rn =
     (case op_SaveRaftState ops (rn_storage rn)
             \<lparr>ps_CurrentTerm = currentTerm rn, ps_VotedFor = votedFor rn\<rparr> of
        (s', err) \<Rightarrow> (rn\<lparr>rn_storage := s'\<rparr>, err))"

text \<open>The node registers itself as its transport's handler and starts two goroutines.\<close>

definition RaftNode_Start :: "'s RaftNode \<Rightarrow> 's RaftNode \<times> raft_error option" where
  "RaftNode_Start rn =
     (if started rn then (rn, Some ErrAlreadyStarted)
      else (rn\<lparr>started := True, registered := True, electionTimers := Suc (electionTimers rn),
               applyLoops := Suc (applyLoops rn)\<rparr>, None))"

text \<open>
  \<^verbatim>\<open>Stop\<close> closes \<^verbatim>\<open>stopCh\<close>, which is never opened again, and returns when every
  goroutine has ended.
\<close>

definition RaftNode_Stop :: "'s RaftNode \<Rightarrow> 's RaftNode" where
  "RaftNode_Stop rn =
     (if \<not> started rn then rn
      else rn\<lparr>started := False, stopCh := True, electionTimers := 0, applyLoops := 0, leaderLoops := 0\<rparr>)"

definition RaftNode_State :: "'s RaftNode \<Rightarrow> NodeState" where
  "RaftNode_State rn = nstate rn"

definition RaftNode_Term :: "'s RaftNode \<Rightarrow> int64" where
  "RaftNode_Term rn = currentTerm rn"

definition RaftNode_LeaderID :: "'s RaftNode \<Rightarrow> node_id" where
  "RaftNode_LeaderID rn = leaderId rn"

definition RaftNode_ID :: "'s RaftNode \<Rightarrow> node_id" where
  "RaftNode_ID rn = rn_id rn"

definition RaftNode_CommitIndex :: "'s RaftNode \<Rightarrow> int64" where
  "RaftNode_CommitIndex rn = commitIndex rn"

definition RaftNode_LastApplied :: "'s RaftNode \<Rightarrow> int64" where
  "RaftNode_LastApplied rn = lastApplied rn"

definition IsLeader :: "'s RaftNode \<Rightarrow> bool" where
  "IsLeader rn \<longleftrightarrow> nstate rn = Leader"

definition GetPeerAddr :: "'s RaftNode \<Rightarrow> node_id \<Rightarrow> string" where
  "GetPeerAddr rn p = go_get_str (peerAddrs rn) p"

definition quorumSize :: "'s RaftNode \<Rightarrow> int" where
  "quorumSize rn = (int (length (peers rn)) + 1) div 2 + 1"

definition resetElectionTimer :: "'s RaftNode \<Rightarrow> 's RaftNode" where
  "resetElectionTimer rn = rn\<lparr>resetTimerCh := True\<rparr>"

definition triggerReplication :: "'s RaftNode \<Rightarrow> 's RaftNode" where
  "triggerReplication rn = rn\<lparr>newEntryCh := True\<rparr>"

definition signalStepDown :: "'s RaftNode \<Rightarrow> 's RaftNode" where
  "signalStepDown rn = rn\<lparr>stepDownCh := True\<rparr>"

text \<open>The persistence error is dropped, as in the code.\<close>

definition stepDown :: "'s storage_ops \<Rightarrow> 's RaftNode \<Rightarrow> int64 \<Rightarrow> 's RaftNode" where
  "stepDown ops rn newTerm =
     (let rn1 = rn\<lparr>currentTerm := newTerm, votedFor := [], nstate := Follower\<rparr>;
          (rn2, _) = persistState ops rn1
      in signalStepDown rn2)"

definition isLogUpToDate ::
    "'s storage_ops \<Rightarrow> 's RaftNode \<Rightarrow> int64 \<Rightarrow> int64 \<Rightarrow> 's RaftNode \<times> bool" where
  "isLogUpToDate ops rn lastLogIndex lastLogTerm =
     (let myLastIndex = Log_LastIndex (rn_log rn);
          (l', myLastTerm) = Log_LastTerm ops (rn_storage rn) (rn_log rn);
          rn' = rn\<lparr>rn_log := l'\<rparr>
      in if lastLogTerm \<noteq> myLastTerm then (rn', lastLogTerm > myLastTerm)
         else (rn', lastLogIndex \<ge> myLastIndex))"

lemmas channel_defs [node_defs] = resetElectionTimer_def triggerReplication_def signalStepDown_def

end
