(* ===== verification/Raft_Election.thy ===== *)
theory Raft_Election
  imports Raft_Node
begin

text \<open>
  \<^verbatim>\<open>internal/raft/election.go\<close>: the election timer, the two critical sections of
  \<^verbatim>\<open>startElection\<close>, the request and the response half of \<^verbatim>\<open>sendRequestVote\<close>, and
  \<^verbatim>\<open>becomeLeader\<close>. The vote counter of one election is an atomic integer shared by the
  goroutines of that election: it is an argument and a result here.
\<close>

definition randomElectionTimeout :: "'s RaftNode \<Rightarrow> (int \<Rightarrow> int) \<Rightarrow> duration option" where
  "randomElectionTimeout rn int63n =
     (let diff = electionTimeoutMax rn - electionTimeoutMin rn
      in if diff \<le> 0 then None else Some (electionTimeoutMin rn + int63n diff))"

text \<open>The initial assignment of the per-peer indices, a loop over the peers.\<close>

fun init_peer_indices ::
    "int64 \<Rightarrow> node_id list \<Rightarrow> (node_id \<rightharpoonup> int64) \<times> (node_id \<rightharpoonup> int64) \<Rightarrow> (node_id \<rightharpoonup> int64) \<times> (node_id \<rightharpoonup> int64)" where
  "init_peer_indices li [] m = m"
| "init_peer_indices li (p # ps) (nx, mt) = init_peer_indices li ps (nx(p \<mapsto> li + 1), mt(p \<mapsto> 0))"

definition becomeLeader :: "'s storage_ops \<Rightarrow> 's RaftNode \<Rightarrow> 's RaftNode" where
  "becomeLeader ops rn =
     (if nstate rn \<noteq> Candidate then rn
      else
        let rn1 = rn\<lparr>nstate := Leader, leaderId := rn_id rn\<rparr>;
            (nx, mt) = init_peer_indices (Log_LastIndex (rn_log rn1)) (peers rn1)
                         (nextIndex rn1, matchIndex rn1);
            rn2 = rn1\<lparr>nextIndex := nx, matchIndex := mt\<rparr>;
            noopEntry = \<lparr>le_Term = currentTerm rn2, le_Index = Log_NextIndex (rn_log rn2), le_Command = []\<rparr>
        in case Log_Append ops (rn_storage rn2) (rn_log rn2) noopEntry of
             ((s', l'), Some err) \<Rightarrow>
               let rn3 = rn2\<lparr>rn_storage := s', rn_log := l'\<rparr> in stepDown ops rn3 (currentTerm rn3)
           | ((s', l'), None) \<Rightarrow>
               triggerReplication (rn2\<lparr>rn_storage := s', rn_log := l', leaderLoops := Suc (leaderLoops rn2)\<rparr>))"

text \<open>
  First critical section of \<^verbatim>\<open>startElection\<close>, with the timer reset that follows it: the term,
  last index and last term it captures for the vote requests, or \<open>None\<close> when persisting fails.
\<close>

definition startElection_begin ::
    "'s storage_ops \<Rightarrow> 's RaftNode \<Rightarrow> 's RaftNode \<times> (int64 \<times> int64 \<times> int64) option" where
  "startElection_begin ops rn =
     (let rn1 = rn\<lparr>nstate := Candidate, currentTerm := currentTerm rn + 1, votedFor := rn_id rn\<rparr>;
          trm = currentTerm rn1;
          lastLogIndex = Log_LastIndex (rn_log rn1);
          (l', lastLogTerm) = Log_LastTerm ops (rn_storage rn1) (rn_log rn1);
          rn2 = rn1\<lparr>rn_log := l'\<rparr>
      in case persistState ops rn2 of
           (rn3, Some err) \<Rightarrow> (rn3\<lparr>nstate := Follower\<rparr>, None)
         | (rn3, None) \<Rightarrow> (resetElectionTimer rn3, Some (trm, lastLogIndex, lastLogTerm)))"

text \<open>The request a \<^verbatim>\<open>sendRequestVote\<close> goroutine sends, when the peer's address is known.\<close>

definition sendRequestVote_req ::
    "'s RaftNode \<Rightarrow> node_id \<Rightarrow> int64 \<times> int64 \<times> int64 \<Rightarrow> RequestVoteRequest option" where
  "sendRequestVote_req rn peer captured =
     (case captured of (trm, lastLogIndex, lastLogTerm) \<Rightarrow>
        if GetPeerAddr rn peer = [] then None
        else Some \<lparr>rv_Term = trm, rv_CandidateId = rn_id rn,
                   rv_LastLogIndex = lastLogIndex, rv_LastLogTerm = lastLogTerm\<rparr>)"

text \<open>The critical section that processes a response; \<open>votes\<close> is the shared counter.\<close>

definition sendRequestVote_resp ::
    "'s storage_ops \<Rightarrow> 's RaftNode \<Rightarrow> int64 \<Rightarrow> int \<Rightarrow> RequestVoteResponse \<Rightarrow> 's RaftNode \<times> int" where
  "sendRequestVote_resp ops rn trm votes resp =
     (if nstate rn \<noteq> Candidate \<or> currentTerm rn \<noteq> trm then (rn, votes)
      else if rvr_Term resp > currentTerm rn then (stepDown ops rn (rvr_Term resp), votes)
      else if rvr_VoteGranted resp then
        let votes' = votes + 1
        in if votes' \<ge> quorumSize rn \<and> nstate rn = Candidate then (becomeLeader ops rn, votes')
           else (rn, votes')
      else (rn, votes))"

text \<open>The last critical section of \<^verbatim>\<open>startElection\<close>.\<close>

definition startElection_finish :: "'s storage_ops \<Rightarrow> 's RaftNode \<Rightarrow> int64 \<Rightarrow> int \<Rightarrow> 's RaftNode" where
  "startElection_finish ops rn trm votes =
     (if nstate rn \<noteq> Candidate \<or> currentTerm rn \<noteq> trm then rn
      else if votes \<ge> quorumSize rn then becomeLeader ops rn else rn)"

text \<open>
  One pass of the \<^verbatim>\<open>electionTimer\<close> loop: what it does for each case of its select. A timeout
  tells whether an election is started.
\<close>

datatype timer_event = Timeout | TimerReset | TimerStop

datatype timer_action = BeginElection | KeepWaiting | ExitTimer

definition electionTimer_step :: "'s RaftNode \<Rightarrow> timer_event \<Rightarrow> 's RaftNode \<times> timer_action" where
  "electionTimer_step rn ev =
     (case ev of
        Timeout \<Rightarrow> if nstate rn \<noteq> Leader then (rn, BeginElection) else (rn, KeepWaiting)
      | TimerReset \<Rightarrow> (rn\<lparr>resetTimerCh := False\<rparr>, KeepWaiting)
      | TimerStop \<Rightarrow> (rn, ExitTimer))"

end
