(* ===== verification/Raft_RPC.thy ===== *)
theory Raft_RPC
  imports Raft_Node
begin

text \<open>
  \<^verbatim>\<open>internal/raft/rpc_handlers.go\<close>: the handlers of incoming RequestVote, AppendEntries and
  InstallSnapshot calls. The first two are one critical section each and always return a nil
  error; the third releases the lock before it sends the snapshot to the state machine.
\<close>

section \<open>RequestVote\<close>

definition HandleRequestVote ::
    "'s storage_ops \<Rightarrow> 's RaftNode \<Rightarrow> RequestVoteRequest \<Rightarrow> 's RaftNode \<times> RequestVoteResponse" where
  "HandleRequestVote ops rn req =
     (let resp = \<lparr>rvr_Term = currentTerm rn, rvr_VoteGranted = False\<rparr>
      in if rv_Term req < currentTerm rn then (rn, resp)
         else
           let rn1 = (if rv_Term req > currentTerm rn then stepDown ops rn (rv_Term req) else rn);
               resp1 = resp\<lparr>rvr_Term := currentTerm rn1\<rparr>;
               canVote = (votedFor rn1 = [] \<or> votedFor rn1 = rv_CandidateId req);
               (rn2, logUpToDate) = isLogUpToDate ops rn1 (rv_LastLogIndex req) (rv_LastLogTerm req)
           in if canVote \<and> logUpToDate then
                let oldVotedFor = votedFor rn2
                in case persistState ops (rn2\<lparr>votedFor := rv_CandidateId req\<rparr>) of
                     (rn3, Some err) \<Rightarrow> (rn3\<lparr>votedFor := oldVotedFor\<rparr>, resp1)
                   | (rn3, None) \<Rightarrow> (resetElectionTimer rn3, resp1\<lparr>rvr_VoteGranted := True\<rparr>)
              else (rn2, resp1))"

section \<open>AppendEntries\<close>

text \<open>Rules 3 and 4: the loop over the entries; \<open>False\<close> is the early return after a storage error.\<close>

fun process_entries :: "'s storage_ops \<Rightarrow> 's RaftNode \<Rightarrow> LogEntry list \<Rightarrow> 's RaftNode \<times> bool" where
  "process_entries ops rn [] = (rn, True)"
| "process_entries ops rn (entry # rest) =
     (let (l0, existing) = Log_GetEntry ops (rn_storage rn) (rn_log rn) (le_Index entry);
          rn0 = rn\<lparr>rn_log := l0\<rparr>;
          conflict = (case existing of None \<Rightarrow> False | Some ex \<Rightarrow> le_Term ex \<noteq> le_Term entry);
          ((s1, l1), err1) = (if conflict
             then Log_TruncateAfter ops (rn_storage rn0) (rn_log rn0) (le_Index entry - 1)
             else ((rn_storage rn0, rn_log rn0), None));
          rn1 = rn0\<lparr>rn_storage := s1, rn_log := l1\<rparr>
      in if err1 \<noteq> None then (rn1, False)
         else if existing = None \<or> conflict then
           (case Log_Append ops (rn_storage rn1) (rn_log rn1) entry of
              ((s2, l2), Some err) \<Rightarrow> (rn1\<lparr>rn_storage := s2, rn_log := l2\<rparr>, False)
            | ((s2, l2), None) \<Rightarrow> process_entries ops (rn1\<lparr>rn_storage := s2, rn_log := l2\<rparr>) rest)
         else process_entries ops rn1 rest)"

text \<open>
  Rule 2: whether the log has the entry before the new ones; \<open>Some (index, term)\<close> is the conflict
  information of a rejection.
\<close>

definition check_prev ::
    "'s storage_ops \<Rightarrow> 's RaftNode \<Rightarrow> AppendEntriesRequest \<Rightarrow> 's RaftNode \<times> (int64 \<times> int64) option" where
  "check_prev ops rn req =
     (if ae_PrevLogIndex req > 0 then
        if Log_LastIndex (rn_log rn) < ae_PrevLogIndex req
        then (rn, Some (Log_LastIndex (rn_log rn) + 1, 0))
        else
          let (l0, prevEntry) = Log_GetEntry ops (rn_storage rn) (rn_log rn) (ae_PrevLogIndex req);
              rn0 = rn\<lparr>rn_log := l0\<rparr>
          in case prevEntry of
               None \<Rightarrow> (rn0, Some (Log_LastIndex (rn_log rn0) + 1, 0))
             | Some pe \<Rightarrow>
                 if le_Term pe \<noteq> ae_PrevLogTerm req then
                   let (l1, fi) = findFirstIndexOfTerm ops (rn_storage rn0) (rn_log rn0) (le_Term pe)
                   in (rn0\<lparr>rn_log := l1\<rparr>, Some (fi, le_Term pe))
                 else (rn0, None)
      else (rn, None))"

definition HandleAppendEntries ::
    "'s storage_ops \<Rightarrow> 's RaftNode \<Rightarrow> AppendEntriesRequest \<Rightarrow> 's RaftNode \<times> AppendEntriesResponse" where
  "HandleAppendEntries ops rn req =
     (let resp = \<lparr>aer_Term = currentTerm rn, aer_Success = False, aer_MatchIndex = 0,
                  aer_ConflictIndex = 0, aer_ConflictTerm = 0\<rparr>
      in if ae_Term req < currentTerm rn then (rn, resp)
         else
           let rn1 = (if ae_Term req > currentTerm rn then stepDown ops rn (ae_Term req) else rn);
               rn2 = (if nstate rn1 = Candidate then rn1\<lparr>nstate := Follower\<rparr> else rn1);
               rn3 = resetElectionTimer (rn2\<lparr>leaderId := ae_LeaderId req\<rparr>);
               resp1 = resp\<lparr>aer_Term := currentTerm rn3\<rparr>
           in case check_prev ops rn3 req of
                (rn4, Some (ci, ct)) \<Rightarrow>
                  (rn4, resp1\<lparr>aer_ConflictIndex := ci, aer_ConflictTerm := ct\<rparr>)
              | (rn4, None) \<Rightarrow>
                  (case process_entries ops rn4 (convertProtoToLogEntries (ae_Entries req)) of
                     (rn5, False) \<Rightarrow> (rn5, resp1)
                   | (rn5, True) \<Rightarrow>
                       let rn6 = (if ae_LeaderCommit req > commitIndex rn5 then
                                    let li = Log_LastIndex (rn_log rn5);
                                        nc = (if li < ae_LeaderCommit req then li else ae_LeaderCommit req)
                                    in rn5\<lparr>commitIndex := nc\<rparr>
                                  else rn5)
                       in (rn6, resp1\<lparr>aer_Success := True, aer_MatchIndex := Log_LastIndex (rn_log rn6)\<rparr>)))"

section \<open>InstallSnapshot\<close>

text \<open>
  The part under the lock. The message is what the handler then tries to send on
  \<^verbatim>\<open>applyCh\<close>; \<open>None\<close> is an early return.
\<close>

definition HandleInstallSnapshot_locked ::
    "'s storage_ops \<Rightarrow> 's RaftNode \<Rightarrow> InstallSnapshotRequest \<Rightarrow>
     's RaftNode \<times> InstallSnapshotResponse \<times> ApplyMsg option" where
  "HandleInstallSnapshot_locked ops rn req =
     (let resp = \<lparr>isr_Term = currentTerm rn\<rparr>
      in if is_Term req < currentTerm rn then (rn, resp, None)
         else
           let (rn1, resp1) =
                 (if is_Term req > currentTerm rn
                  then let r = stepDown ops rn (is_Term req) in (r, resp\<lparr>isr_Term := currentTerm r\<rparr>)
                  else (rn, resp))
           in case op_SaveSnapshot ops (rn_storage rn1) (is_LastIncludedIndex req)
                     (is_LastIncludedTerm req) (is_Data req) of
                (s2, Some err) \<Rightarrow> (rn1\<lparr>rn_storage := s2\<rparr>, resp1, None)
              | (s2, None) \<Rightarrow>
                  (case Log_TruncateBefore ops s2 (rn_log rn1) (is_LastIncludedIndex req + 1) of
                     ((s3, l3), Some err) \<Rightarrow> (rn1\<lparr>rn_storage := s3, rn_log := l3\<rparr>, resp1, None)
                   | ((s3, l3), None) \<Rightarrow>
                       (resetElectionTimer
                          (rn1\<lparr>rn_storage := s3, rn_log := l3, leaderId := is_LeaderId req\<rparr>),
                        resp1,
                        Some \<lparr>CommandValid = False, am_Command = None, CommandIndex = 0, CommandTerm = 0,
                              SnapshotValid = True, am_Snapshot = is_Data req,
                              SnapshotTerm = is_LastIncludedTerm req,
                              SnapshotIndex = is_LastIncludedIndex req\<rparr>)))"

text \<open>The second critical section, after the message was accepted by the channel.\<close>

definition HandleInstallSnapshot_sent :: "'s RaftNode \<Rightarrow> int64 \<Rightarrow> 's RaftNode" where
  "HandleInstallSnapshot_sent rn snapshotIdx =
     (let rn1 = (if snapshotIdx > commitIndex rn then rn\<lparr>commitIndex := snapshotIdx\<rparr> else rn)
      in if snapshotIdx > lastApplied rn1 then rn1\<lparr>lastApplied := snapshotIdx\<rparr> else rn1)"

text \<open>The handler: the message is sent, or the caller's context ends first (\<open>False\<close>).\<close>

definition HandleInstallSnapshot ::
    "'s storage_ops \<Rightarrow> 's RaftNode \<Rightarrow> InstallSnapshotRequest \<Rightarrow> bool \<Rightarrow>
     's RaftNode \<times> InstallSnapshotResponse \<times> bool" where
  "HandleInstallSnapshot ops rn req send_ok =
     (case HandleInstallSnapshot_locked ops rn req of
        (rn1, resp, None) \<Rightarrow> (rn1, resp, True)
      | (rn1, resp, Some msg) \<Rightarrow>
          if send_ok
          then (HandleInstallSnapshot_sent (rn1\<lparr>applyCh := applyCh rn1 @ [msg]\<rparr>) (SnapshotIndex msg), resp, True)
          else (rn1, resp, False))"

end
