(* ===== verification/Raft_Replication.thy ===== *)
theory Raft_Replication
  imports Raft_Node Command_Codec
begin

text \<open>
  \<^verbatim>\<open>internal/raft/replication.go\<close>: the leader loop, the request and the response half of
  \<^verbatim>\<open>sendAppendEntries\<close>, commit advancement, the apply loop and \<^verbatim>\<open>Propose\<close>.
\<close>

section \<open>The leader loop\<close>

text \<open>
  One pass of the select of \<^verbatim>\<open>leaderLoop\<close>. Which ready case is taken is up to the scheduler;
  a case that needs a token is enabled only when its channel holds one.
\<close>

datatype loop_event = Tick | NewEntry | StepDownSignal | LoopStop

definition leaderLoop_enabled :: "'s RaftNode \<Rightarrow> loop_event \<Rightarrow> bool" where
  "leaderLoop_enabled rn ev \<longleftrightarrow> 0 < leaderLoops rn \<and>
     (case ev of Tick \<Rightarrow> True | NewEntry \<Rightarrow> newEntryCh rn
      | StepDownSignal \<Rightarrow> stepDownCh rn | LoopStop \<Rightarrow> stopCh rn)"

text \<open>The node after the pass, and whether \<^verbatim>\<open>sendHeartbeats\<close> is called.\<close>

definition leaderLoop_step :: "'s RaftNode \<Rightarrow> loop_event \<Rightarrow> 's RaftNode \<times> bool" where
  "leaderLoop_step rn ev =
     (case ev of
        Tick \<Rightarrow> (rn, True)
      | NewEntry \<Rightarrow> (rn\<lparr>newEntryCh := False\<rparr>, True)
      | StepDownSignal \<Rightarrow> (rn\<lparr>stepDownCh := False, leaderLoops := leaderLoops rn - 1\<rparr>, False)
      | LoopStop \<Rightarrow> (rn\<lparr>leaderLoops := leaderLoops rn - 1\<rparr>, False))"

text \<open>What \<^verbatim>\<open>sendHeartbeats\<close> captures: term, commit index and the peers to call.\<close>

definition sendHeartbeats :: "'s RaftNode \<Rightarrow> (int64 \<times> int64 \<times> node_id list) option" where
  "sendHeartbeats rn =
     (if nstate rn \<noteq> Leader then None else Some (currentTerm rn, commitIndex rn, peers rn))"

section \<open>Sending AppendEntries\<close>

definition sendAppendEntries_req ::
    "'s storage_ops \<Rightarrow> 's RaftNode \<Rightarrow> node_id \<Rightarrow> int64 \<Rightarrow> int64 \<Rightarrow> 's RaftNode \<times> AppendEntriesRequest option" where
  "sendAppendEntries_req ops rn peerID trm commit =
     (if GetPeerAddr rn peerID = [] then (rn, None)
      else if nstate rn \<noteq> Leader \<or> currentTerm rn \<noteq> trm then (rn, None)
      else
        let ni = go_get (nextIndex rn) peerID;
            prevLogIndex = ni - 1;
            (l', prevLogTerm) = Log_GetTerm ops (rn_storage rn) (rn_log rn) prevLogIndex;
            rn' = rn\<lparr>rn_log := l'\<rparr>;
            li = Log_LastIndex (rn_log rn');
            entries = (if ni \<le> li then Log_GetEntries ops (rn_storage rn') (rn_log rn') ni (li + 1) else [])
        in (rn', Some \<lparr>ae_Term = trm, ae_LeaderId = rn_id rn, ae_PrevLogIndex = prevLogIndex,
                       ae_PrevLogTerm = prevLogTerm, ae_Entries = convertLogEntriesToProto entries,
                       ae_LeaderCommit = commit\<rparr>))"

text \<open>
  \<^verbatim>\<open>checkCommit\<close> scans the indices above the commit index; \<open>replicas\<close> counts the leader and
  the peers whose match index has reached \<open>n\<close>.
\<close>

definition replicas :: "'s RaftNode \<Rightarrow> int64 \<Rightarrow> int" where
  "replicas rn n = foldl (\<lambda>c p. if go_get (matchIndex rn) p \<ge> n then c + 1 else c) 1 (peers rn)"

fun checkCommit_loop :: "'s storage_ops \<Rightarrow> 's RaftNode \<Rightarrow> int64 list \<Rightarrow> 's RaftNode" where
  "checkCommit_loop ops rn [] = rn"
| "checkCommit_loop ops rn (n # ns) =
     (let (l', t) = Log_GetTerm ops (rn_storage rn) (rn_log rn) n;
          rn' = rn\<lparr>rn_log := l'\<rparr>
      in if t \<noteq> currentTerm rn' then checkCommit_loop ops rn' ns
         else if replicas rn' n \<ge> quorumSize rn' then checkCommit_loop ops (rn'\<lparr>commitIndex := n\<rparr>) ns
         else checkCommit_loop ops rn' ns)"

definition checkCommit :: "'s storage_ops \<Rightarrow> 's RaftNode \<Rightarrow> 's RaftNode" where
  "checkCommit ops rn =
     (if nstate rn \<noteq> Leader then rn
      else checkCommit_loop ops rn [commitIndex rn + 1..Log_LastIndex (rn_log rn)])"

text \<open>The scan for the last entry of the conflicting term: 0 when there is none.\<close>

fun find_last_loop :: "'s storage_ops \<Rightarrow> 's \<Rightarrow> int64 \<Rightarrow> Log \<Rightarrow> int64 list \<Rightarrow> Log \<times> int64" where
  "find_last_loop ops s trm l [] = (l, 0)"
| "find_last_loop ops s trm l (i # is) =
     (let (l', t) = Log_GetTerm ops s l i
      in if t = trm then (l', i) else find_last_loop ops s trm l' is)"

definition backup_nextIndex ::
    "'s storage_ops \<Rightarrow> 's RaftNode \<Rightarrow> node_id \<Rightarrow> AppendEntriesResponse \<Rightarrow> 's RaftNode" where
  "backup_nextIndex ops rn peerID resp =
     (if aer_ConflictTerm resp > 0 then
        let (l', foundIndex) = find_last_loop ops (rn_storage rn) (aer_ConflictTerm resp) (rn_log rn)
                                 (rev [1..Log_LastIndex (rn_log rn)]);
            rn' = rn\<lparr>rn_log := l'\<rparr>
        in if foundIndex > 0 then rn'\<lparr>nextIndex := (nextIndex rn')(peerID \<mapsto> foundIndex + 1)\<rparr>
           else rn'\<lparr>nextIndex := (nextIndex rn')(peerID \<mapsto> aer_ConflictIndex resp)\<rparr>
      else if aer_ConflictIndex resp > 0 then rn\<lparr>nextIndex := (nextIndex rn)(peerID \<mapsto> aer_ConflictIndex resp)\<rparr>
      else if go_get (nextIndex rn) peerID > 1
      then rn\<lparr>nextIndex := (nextIndex rn)(peerID \<mapsto> go_get (nextIndex rn) peerID - 1)\<rparr>
      else rn)"

text \<open>
  The critical section that processes a response. \<open>prevLogIndex\<close> and \<open>n\<close> (the number of entries
  sent) are local variables of the goroutine that sent the request.
\<close>

definition sendAppendEntries_resp ::
    "'s storage_ops \<Rightarrow> 's RaftNode \<Rightarrow> node_id \<Rightarrow> int64 \<Rightarrow> int64 \<Rightarrow> nat \<Rightarrow> AppendEntriesResponse \<Rightarrow> 's RaftNode" where
  "sendAppendEntries_resp ops rn peerID trm prevLogIndex n resp =
     (if nstate rn \<noteq> Leader \<or> currentTerm rn \<noteq> trm then rn
      else if aer_Term resp > currentTerm rn then stepDown ops rn (aer_Term resp)
      else if aer_Success resp then
        let newMatchIndex = prevLogIndex + int n;
            rn1 = (if newMatchIndex > go_get (matchIndex rn) peerID
                   then rn\<lparr>matchIndex := (matchIndex rn)(peerID \<mapsto> newMatchIndex)\<rparr> else rn);
            rn2 = rn1\<lparr>nextIndex := (nextIndex rn1)(peerID \<mapsto> newMatchIndex + 1)\<rparr>
        in checkCommit ops rn2
      else backup_nextIndex ops rn peerID resp)"

section \<open>The apply loop\<close>

text \<open>
  The critical section of one pass: the loop runs over the indices from \<open>lastApplied + 1\<close> to
  \<open>commitIndex\<close>, and stops at an index whose entry cannot be read, after having advanced
  \<open>lastApplied\<close> to it. A command that does not decode is delivered as nil.
\<close>

definition command_of :: "LogEntry \<Rightarrow> Command option" where
  "command_of e = (if le_Command e \<noteq> [] then DecodeCommand (le_Command e) else None)"

definition apply_msg :: "LogEntry \<Rightarrow> ApplyMsg" where
  "apply_msg e = \<lparr>CommandValid = True, am_Command = command_of e,
     CommandIndex = le_Index e, CommandTerm = le_Term e,
     SnapshotValid = False, am_Snapshot = [], SnapshotTerm = 0, SnapshotIndex = 0\<rparr>"

fun applyLoop_collect :: "'s storage_ops \<Rightarrow> 's RaftNode \<Rightarrow> int64 list \<Rightarrow> 's RaftNode \<times> ApplyMsg list" where
  "applyLoop_collect ops rn [] = (rn, [])"
| "applyLoop_collect ops rn (i # is) =
     (let rn1 = rn\<lparr>lastApplied := i\<rparr>;
          (l', entry) = Log_GetEntry ops (rn_storage rn1) (rn_log rn1) (lastApplied rn1);
          rn2 = rn1\<lparr>rn_log := l'\<rparr>
      in case entry of
           None \<Rightarrow> (rn2, [])
         | Some e \<Rightarrow>
             let (rn3, msgs) = applyLoop_collect ops rn2 is in (rn3, apply_msg e # msgs))"

definition applyLoop_pass :: "'s storage_ops \<Rightarrow> 's RaftNode \<Rightarrow> 's RaftNode \<times> ApplyMsg list" where
  "applyLoop_pass ops rn = applyLoop_collect ops rn [lastApplied rn + 1..commitIndex rn]"

section \<open>Proposals\<close>

definition Propose ::
    "'s storage_ops \<Rightarrow> 's RaftNode \<Rightarrow> bytes \<Rightarrow> 's RaftNode \<times> (raft_error + int64 \<times> int64)" where
  "Propose ops rn command =
     (if nstate rn \<noteq> Leader
      then (rn, Inl (ErrNotLeaderWithHint (leaderId rn) (go_get_str (peerAddrs rn) (leaderId rn))))
      else
        let entry = \<lparr>le_Term = currentTerm rn, le_Index = Log_NextIndex (rn_log rn), le_Command = command\<rparr>
        in case Log_Append ops (rn_storage rn) (rn_log rn) entry of
             ((s', l'), Some err) \<Rightarrow> (rn\<lparr>rn_storage := s', rn_log := l'\<rparr>, Inl (ErrStorage err))
           | ((s', l'), None) \<Rightarrow>
               (triggerReplication (rn\<lparr>rn_storage := s', rn_log := l'\<rparr>),
                Inr (le_Index entry, le_Term entry)))"

definition ProposeCommand ::
    "'s storage_ops \<Rightarrow> 's RaftNode \<Rightarrow> Command \<Rightarrow> 's RaftNode \<times> (raft_error + int64 \<times> int64)" where
  "ProposeCommand ops rn cmd = Propose ops rn (Command_Encode cmd)"

end
