(* ===== verification/Raft_Frame.thy ===== *)
theory Raft_Frame
  imports Raft_Election Raft_RPC Raft_Replication
begin

text \<open>
  What the Raft node leaves alone. The node shares one storage object with the key-value server; it
  calls only the state, log and snapshot operations of it. A relation between storage states that
  these operations respect is respected by every critical section of the node, whatever their
  arguments and whether they succeed or not.
\<close>

locale storage_frame =
  fixes ops :: "'s storage_ops"
    and R :: "'s \<Rightarrow> 's \<Rightarrow> bool"
  assumes frame_refl: "R s s"
    and frame_trans: "R s s' \<Longrightarrow> R s' s'' \<Longrightarrow> R s s''"
    and frame_save: "R s (fst (op_SaveRaftState ops s ps))"
    and frame_append: "R s (fst (op_AppendLogEntries ops s es))"
    and frame_after: "R s (fst (op_TruncateLogAfter ops s i))"
    and frame_before: "R s (fst (op_TruncateLogBefore ops s i))"
    and frame_snapshot: "R s (fst (op_SaveSnapshot ops s i t d))"
begin

abbreviation keeps :: "'s RaftNode \<Rightarrow> 's RaftNode \<Rightarrow> bool" where
  "keeps rn rn' \<equiv> R (rn_storage rn) (rn_storage rn')"

lemma frame_save_eq: "op_SaveRaftState ops s ps = (s', e) \<Longrightarrow> R s s'"
  using frame_save [of s ps] by simp

lemma frame_append_eq: "Log_Append ops s l e = ((s', l'), err) \<Longrightarrow> R s s'"
  using frame_append [of s "[e]"] by (auto simp: Log_Append_def Let_def split: prod.splits option.splits)

lemma frame_after_eq: "Log_TruncateAfter ops s l i = ((s', l'), err) \<Longrightarrow> R s s'"
  using frame_after [of s i] frame_refl
  by (auto simp: Log_TruncateAfter_def split: if_splits prod.splits option.splits)

lemma frame_before_eq: "Log_TruncateBefore ops s l i = ((s', l'), err) \<Longrightarrow> R s s'"
  using frame_before [of s i] by (auto simp: Log_TruncateBefore_def split: prod.splits option.splits)

lemma frame_snapshot_eq: "op_SaveSnapshot ops s i t d = (s', e) \<Longrightarrow> R s s'"
  using frame_snapshot [of s i t d] by simp

lemma persistState_keeps: "persistState ops rn = (rn', e) \<Longrightarrow> keeps rn rn'"
  by (auto simp: persistState_def frame_save_eq split: prod.splits)

lemma stepDown_keeps: "keeps rn (stepDown ops rn t)"
  by (auto simp: stepDown_def signalStepDown_def split: prod.splits dest: persistState_keeps)

lemma stepDown_keeps_from: "R s (rn_storage rn) \<Longrightarrow> R s (rn_storage (stepDown ops rn t))"
  using frame_trans stepDown_keeps by blast

lemma isLogUpToDate_keeps: "isLogUpToDate ops rn li lt = (rn', b) \<Longrightarrow> rn_storage rn' = rn_storage rn"
  by (auto simp: isLogUpToDate_def Let_def split: prod.splits if_splits)

section \<open>Elections\<close>

lemma HandleRequestVote_keeps: "keeps rn (fst (HandleRequestVote ops rn req))"
  by (auto simp: HandleRequestVote_def Let_def resetElectionTimer_def frame_refl stepDown_keeps
      split: prod.splits option.splits
      dest!: isLogUpToDate_keeps persistState_keeps intro: frame_trans stepDown_keeps)

lemma becomeLeader_keeps: "keeps rn (becomeLeader ops rn)"
  by (auto simp: becomeLeader_def Let_def triggerReplication_def frame_refl
      split: prod.splits option.splits dest!: frame_append_eq intro!: stepDown_keeps_from)

lemma startElection_begin_keeps: "keeps rn (fst (startElection_begin ops rn))"
  by (auto simp: startElection_begin_def Let_def resetElectionTimer_def
      split: prod.splits option.splits dest!: persistState_keeps)

lemma sendRequestVote_resp_keeps: "keeps rn (fst (sendRequestVote_resp ops rn t v resp))"
  by (simp add: sendRequestVote_resp_def Let_def frame_refl stepDown_keeps becomeLeader_keeps)

lemma startElection_finish_keeps: "keeps rn (startElection_finish ops rn t v)"
  by (simp add: startElection_finish_def frame_refl becomeLeader_keeps)

section \<open>Replication\<close>

lemma process_entries_keeps: "process_entries ops rn es = (rn', b) \<Longrightarrow> keeps rn rn'"
proof (induction es arbitrary: rn)
  case (Cons e es)
  show ?case using Cons.prems
    by (auto simp: Let_def frame_refl split: prod.splits if_splits option.splits
        dest!: frame_append_eq frame_after_eq Cons.IH intro: frame_trans)
qed (simp add: frame_refl)

lemma check_prev_keeps: "check_prev ops rn req = (rn', r) \<Longrightarrow> rn_storage rn' = rn_storage rn"
  by (auto simp: check_prev_def Let_def split: if_splits prod.splits option.splits)

lemma HandleAppendEntries_keeps: "keeps rn (fst (HandleAppendEntries ops rn req))"
proof (cases "ae_Term req < currentTerm rn")
  case False
  define rn1 where "rn1 = (if ae_Term req > currentTerm rn then stepDown ops rn (ae_Term req) else rn)"
  define rn2 where "rn2 = (if nstate rn1 = Candidate then rn1\<lparr>nstate := Follower\<rparr> else rn1)"
  define rn3 where "rn3 = resetElectionTimer (rn2\<lparr>leaderId := ae_LeaderId req\<rparr>)"
  obtain rn4 c where c: "check_prev ops rn3 req = (rn4, c)" by (cases "check_prev ops rn3 req")
  obtain rn5 b where p: "process_entries ops rn4 (convertProtoToLogEntries (ae_Entries req)) = (rn5, b)"
    by (cases "process_entries ops rn4 (convertProtoToLogEntries (ae_Entries req))")
  have "keeps rn rn1" using stepDown_keeps frame_refl by (simp add: rn1_def)
  then have 4: "keeps rn rn4" using check_prev_keeps [OF c] by (simp add: rn3_def rn2_def resetElectionTimer_def)
  have 5: "keeps rn rn5" using frame_trans [OF 4 process_entries_keeps [OF p]] .
  have "rn_storage (fst (HandleAppendEntries ops rn req)) \<in> {rn_storage rn4, rn_storage rn5}"
    using False c p unfolding HandleAppendEntries_def Let_def rn1_def [symmetric] rn2_def [symmetric] rn3_def [symmetric]
    by (simp split: option.split bool.split prod.split)
  with 4 5 show ?thesis by auto
qed (simp add: HandleAppendEntries_def Let_def frame_refl)

lemma checkCommit_keeps: "rn_storage (checkCommit ops rn) = rn_storage rn"
proof -
  have "rn_storage (checkCommit_loop ops rn ns) = rn_storage rn" for ns
    by (induction ns arbitrary: rn) (simp_all add: Let_def split: prod.split)
  then show ?thesis by (simp add: checkCommit_def)
qed

lemma backup_keeps: "rn_storage (backup_nextIndex ops rn p resp) = rn_storage rn"
  by (simp add: backup_nextIndex_def Let_def split: prod.split)

lemma sendAppendEntries_resp_keeps: "keeps rn (sendAppendEntries_resp ops rn p t prev n resp)"
  by (simp add: sendAppendEntries_resp_def Let_def frame_refl stepDown_keeps checkCommit_keeps backup_keeps)

lemma sendAppendEntries_req_keeps: "keeps rn (fst (sendAppendEntries_req ops rn p t c))"
  by (simp add: sendAppendEntries_req_def Let_def frame_refl split: prod.split)

lemma Propose_keeps: "keeps rn (fst (Propose ops rn cmd))"
  by (auto simp: Propose_def Let_def triggerReplication_def frame_refl
      split: prod.splits option.splits dest!: frame_append_eq)

lemma applyLoop_pass_keeps: "rn_storage (fst (applyLoop_pass ops rn)) = rn_storage rn"
proof -
  have "rn_storage (fst (applyLoop_collect ops rn ns)) = rn_storage rn" for ns
  proof (induction ns arbitrary: rn)
    case (Cons i ns)
    obtain l' e where g: "Log_GetEntry ops (rn_storage rn) (rn_log rn) i = (l', e)" by fastforce
    with Cons.IH [of "rn\<lparr>lastApplied := i, rn_log := l'\<rparr>"] show ?case
      by (simp add: Let_def case_prod_unfold split: option.split)
  qed simp
  then show ?thesis by (simp add: applyLoop_pass_def)
qed

end

section \<open>The in-memory storage\<close>

definition same_data :: "MemoryStorage \<Rightarrow> MemoryStorage \<Rightarrow> bool" where
  "same_data m m' \<longleftrightarrow> data m' = data m \<and> closed m' = closed m"

interpretation mem_frame: storage_frame mem_ops same_data
proof (unfold_locales, goal_cases)
  case (4 s es)
  have "same_data s (foldl append_entry s es)"
    by (induction es arbitrary: s) (auto simp: same_data_def append_entry_def Let_def)
  then show ?case by (simp add: mem_ops_def storage_defs same_data_def)
qed (simp_all add: same_data_def mem_ops_def storage_defs Let_def)

end
