(* ===== verification/KV_Server.thy ===== *)
theory KV_Server
  imports Raft_Replication
begin

text \<open>
  \<^verbatim>\<open>internal/server/kv_server.go\<close>: the replicated key-value server. The server applies the
  messages of the Raft node to the key-value part of the storage and answers the client operations
  that wait for them.

  \<^verbatim>\<open>cmd/server/main.go\<close> gives the server and the Raft node one storage object, so the storage
  state is an argument of the operations, as for \<open>Log\<close>, and so is the Raft node where an operation
  reads it. Result channels live in a heap \<open>chans\<close> of buffers of capacity one: \<open>Some None\<close> is an
  empty channel, \<open>Some (Some r)\<close> one that holds \<open>r\<close>. Metrics have no effect on the state.
\<close>

section \<open>State\<close>

datatype kv_error =
    KVNotLeaderWithHint node_id string
  | KVTimeout
  | KVServerClosed
  | KVContext string
  | KVRaft raft_error
  | KVStorage storage_error
  | KVNilCommand
  | KVUnknownCommand

text \<open>\<open>op_Value\<close> is declared by the code and never set.\<close>

record OpResult =
  op_Value :: bytes
  op_Err :: "kv_error option"

record KVServer =
  pendingOps :: "64 word \<rightharpoonup> nat"
  chans :: "nat \<rightharpoonup> OpResult option"
  nextChan :: nat
  nextRequestID :: "64 word"
  kv_stopCh :: bool
  kv_applyLoops :: nat
  operationTimeout :: duration

record 's KVServerConfig =
  kvc_Raft :: "'s RaftNode option"
  kvc_Storage :: "'s option"
  kvc_OperationTimeout :: duration

definition DefaultOperationTimeout :: duration where
  "DefaultOperationTimeout = 5000 * Millisecond"

text \<open>A panic is \<open>Inl\<close> of its message; \<open>None\<close> is a nil configuration.\<close>

definition NewKVServer :: "'s KVServerConfig option \<Rightarrow> string + KVServer" where
  "NewKVServer cfg =
     (case cfg of
        None \<Rightarrow> Inl ''kv server config is nil''
      | Some c \<Rightarrow>
          if kvc_Raft c = None then Inl ''raft node is nil''
          else if kvc_Storage c = None then Inl ''storage is nil''
          else
            let timeout = (if kvc_OperationTimeout c = 0 then DefaultOperationTimeout else kvc_OperationTimeout c)
            in Inr \<lparr>pendingOps = Map.empty, chans = Map.empty, nextChan = 0, nextRequestID = 0,
                    kv_stopCh = False, kv_applyLoops = 0, operationTimeout = timeout\<rparr>)"

definition KVServer_Start :: "KVServer \<Rightarrow> KVServer" where
  "KVServer_Start kv = kv\<lparr>kv_applyLoops := Suc (kv_applyLoops kv)\<rparr>"

section \<open>Applying commands\<close>

text \<open>A send with a default case: it is dropped when the buffer is full.\<close>

definition try_send :: "nat \<Rightarrow> OpResult \<Rightarrow> KVServer \<Rightarrow> KVServer" where
  "try_send ch r kv =
     (case chans kv ch of Some None \<Rightarrow> kv\<lparr>chans := (chans kv)(ch \<mapsto> Some r)\<rparr> | _ \<Rightarrow> kv)"

definition result_of :: "storage_error option \<Rightarrow> OpResult" where
  "result_of err = \<lparr>op_Value = [], op_Err = map_option KVStorage err\<rparr>"

definition applyCommand :: "'s storage_ops \<Rightarrow> 's \<Rightarrow> Command \<Rightarrow> 's \<times> OpResult" where
  "applyCommand ops s cmd =
     (if cmd_Type cmd = CommandPut then
        (case op_Put ops s (cmd_Key cmd) (cmd_Value cmd) of (s', err) \<Rightarrow> (s', result_of err))
      else if cmd_Type cmd = CommandDelete then
        (case op_Delete ops s (cmd_Key cmd) of (s', err) \<Rightarrow> (s', result_of err))
      else if cmd_Type cmd = CommandNoop then (s, result_of None)
      else (s, \<lparr>op_Value = [], op_Err = Some KVUnknownCommand\<rparr>))"

text \<open>Snapshots are left to the storage layer: the function has an empty body.\<close>

definition applySnapshot :: "KVServer \<Rightarrow> bytes \<Rightarrow> KVServer" where
  "applySnapshot kv d = kv"

definition notify :: "64 word \<Rightarrow> OpResult \<Rightarrow> KVServer \<Rightarrow> KVServer" where
  "notify requestID result kv =
     (if requestID = 0 then kv
      else case pendingOps kv requestID of
        Some ch \<Rightarrow> try_send ch result (kv\<lparr>pendingOps := (pendingOps kv)(requestID := None)\<rparr>)
      | None \<Rightarrow> kv)"

definition handleApplyMsg :: "'s storage_ops \<Rightarrow> KVServer \<Rightarrow> 's \<Rightarrow> ApplyMsg \<Rightarrow> KVServer \<times> 's" where
  "handleApplyMsg ops kv s msg =
     (if SnapshotValid msg then (applySnapshot kv (am_Snapshot msg), s)
      else if \<not> CommandValid msg then (kv, s)
      else
        let (s', result, requestID) =
              (case am_Command msg of
                 None \<Rightarrow> (s, \<lparr>op_Value = [], op_Err = Some KVNilCommand\<rparr>, 0)
               | Some cmd \<Rightarrow> (case applyCommand ops s cmd of (s1, r) \<Rightarrow> (s1, r, cmd_RequestID cmd)))
        in (notify requestID result kv, s'))"

text \<open>The body of \<^verbatim>\<open>applyLoop\<close>: messages are handled one by one in the order of the channel.\<close>

fun kv_applyLoop :: "'s storage_ops \<Rightarrow> KVServer \<times> 's \<Rightarrow> ApplyMsg list \<Rightarrow> KVServer \<times> 's" where
  "kv_applyLoop ops (kv, s) [] = (kv, s)"
| "kv_applyLoop ops (kv, s) (msg # msgs) = kv_applyLoop ops (handleApplyMsg ops kv s msg) msgs"

section \<open>Client operations\<close>

definition notLeaderError :: "'s RaftNode \<Rightarrow> kv_error" where
  "notLeaderError rn =
     (let leader = RaftNode_LeaderID rn;
          addr = (if leader \<noteq> [] then GetPeerAddr rn leader else [])
      in KVNotLeaderWithHint leader addr)"

definition KVServer_IsLeader :: "'s RaftNode \<Rightarrow> bool" where
  "KVServer_IsLeader rn = IsLeader rn"

definition KVServer_LeaderID :: "'s RaftNode \<Rightarrow> node_id" where
  "KVServer_LeaderID rn = RaftNode_LeaderID rn"

definition KVNotLeader_Error :: "node_id \<Rightarrow> string" where
  "KVNotLeader_Error leader =
     (if leader = [] then ''not leader, leader unknown'' else ''not leader, leader is '' @ leader)"

text \<open>
  The waiting loop of a linearizable \<^verbatim>\<open>Get\<close>. Each element of the list is one iteration that
  starts before the deadline: the node as it is then, and the error of the context when it ends in
  the select. The empty list is the deadline.
\<close>

fun wait_applied :: "int64 \<Rightarrow> ('s RaftNode \<times> string option) list \<Rightarrow> kv_error option" where
  "wait_applied c [] = None"
| "wait_applied c ((rn, ended) # ps) =
     (if RaftNode_LastApplied rn \<ge> c then None
      else case ended of Some e \<Rightarrow> Some (KVContext e) | None \<Rightarrow> wait_applied c ps)"

text \<open>
  What a \<^verbatim>\<open>Get\<close> observes: it releases all locks between its reads, so each read may see
  another state of the node.
\<close>

record 's get_view =
  at_leader :: "'s RaftNode"
  at_commit :: "'s RaftNode"
  at_applied :: "'s RaftNode"
  at_polls :: "('s RaftNode \<times> string option) list"
  at_final :: "'s RaftNode"
  at_read :: 's

definition get_ready :: "'s get_view \<Rightarrow> kv_error option" where
  "get_ready v =
     (if \<not> IsLeader (at_leader v) then Some (notLeaderError (at_leader v))
      else
        let commit = RaftNode_CommitIndex (at_commit v)
        in if RaftNode_LastApplied (at_applied v) < commit then
             (case wait_applied commit (at_polls v) of
                Some e \<Rightarrow> Some e
              | None \<Rightarrow> if RaftNode_LastApplied (at_final v) < commit then Some KVTimeout else None)
           else None)"

definition KVServer_Get ::
    "'s storage_ops \<Rightarrow> 's get_view \<Rightarrow> string \<Rightarrow> bool \<Rightarrow> kv_error + bytes \<times> bool" where
  "KVServer_Get ops v key linearizable =
     (case (if linearizable then get_ready v else None) of
        Some e \<Rightarrow> Inl e
      | None \<Rightarrow>
          (case op_Get ops (at_read v) key of
             Inl err \<Rightarrow> if err = ErrKeyNotFound then Inr ([], False) else Inl (KVStorage err)
           | Inr value \<Rightarrow> Inr (value, True)))"

text \<open>
  \<^verbatim>\<open>propose\<close>, split at the points where it holds no lock. First it draws a request ID and
  registers a result channel; \<open>cmd_RequestID\<close> of the command is set to the ID.
\<close>

definition propose_register :: "KVServer \<Rightarrow> Command \<Rightarrow> KVServer \<times> Command \<times> nat" where
  "propose_register kv cmd =
     (let requestID = nextRequestID kv + 1; ch = nextChan kv
      in (kv\<lparr>nextRequestID := requestID, nextChan := Suc ch, chans := (chans kv)(ch \<mapsto> None),
             pendingOps := (pendingOps kv)(requestID \<mapsto> ch)\<rparr>,
          cmd\<lparr>cmd_RequestID := requestID\<rparr>, ch))"

definition forget :: "64 word \<Rightarrow> KVServer \<Rightarrow> KVServer" where
  "forget requestID kv = kv\<lparr>pendingOps := (pendingOps kv)(requestID := None)\<rparr>"

text \<open>
  Then it encodes the command (which cannot fail for this type) and proposes it; on an error it
  forgets the operation and returns, else it waits.
\<close>

definition propose_submit ::
    "'s storage_ops \<Rightarrow> KVServer \<Rightarrow> 's RaftNode \<Rightarrow> Command \<Rightarrow> KVServer \<times> 's RaftNode \<times> kv_error option" where
  "propose_submit ops kv rn cmd =
     (case Propose ops rn (Command_Encode cmd) of
        (rn', Inr _) \<Rightarrow> (kv, rn', None)
      | (rn', Inl err) \<Rightarrow>
          (forget (cmd_RequestID cmd) kv, rn',
           Some (case err of ErrNotLeaderWithHint l a \<Rightarrow> KVNotLeaderWithHint l a | _ \<Rightarrow> KVRaft err)))"

text \<open>The select that ends \<^verbatim>\<open>propose\<close>; \<open>None\<close> when the case is not ready.\<close>

datatype wait_case = ContextDone string | StopClosed | TimedOut | ResultReady

definition propose_wait ::
    "KVServer \<Rightarrow> 64 word \<Rightarrow> nat \<Rightarrow> wait_case \<Rightarrow> (KVServer \<times> kv_error option) option" where
  "propose_wait kv requestID ch c =
     (case c of
        ContextDone e \<Rightarrow> Some (forget requestID kv, Some (KVContext e))
      | StopClosed \<Rightarrow> if kv_stopCh kv then Some (kv, Some KVServerClosed) else None
      | TimedOut \<Rightarrow> Some (forget requestID kv, Some KVTimeout)
      | ResultReady \<Rightarrow>
          (case chans kv ch of
             Some (Some r) \<Rightarrow> Some (kv\<lparr>chans := (chans kv)(ch \<mapsto> None)\<rparr>, op_Err r)
           | _ \<Rightarrow> None))"

definition put_command :: "string \<Rightarrow> bytes \<Rightarrow> Command" where
  "put_command key value = \<lparr>cmd_Type = CommandPut, cmd_Key = key, cmd_Value = value, cmd_RequestID = 0\<rparr>"

definition delete_command :: "string \<Rightarrow> Command" where
  "delete_command key = \<lparr>cmd_Type = CommandDelete, cmd_Key = key, cmd_Value = [], cmd_RequestID = 0\<rparr>"

section \<open>Stopping\<close>

text \<open>
  \<^verbatim>\<open>Stop\<close> answers every pending operation, in the order in which the map is iterated, forgets
  them, closes \<^verbatim>\<open>stopCh\<close> and waits for the apply loop. A second call panics (\<open>None\<close>), as
  closing a closed channel does.
\<close>

definition closed_result :: OpResult where
  "closed_result = \<lparr>op_Value = [], op_Err = Some KVServerClosed\<rparr>"

definition KVServer_Stop :: "nat list \<Rightarrow> KVServer \<Rightarrow> KVServer option" where
  "KVServer_Stop order kv =
     (if kv_stopCh kv then None
      else Some ((foldl (\<lambda>k ch. try_send ch closed_result k) kv order)
        \<lparr>pendingOps := Map.empty, kv_stopCh := True, kv_applyLoops := 0\<rparr>))"

section \<open>The state machine the server implements\<close>

text \<open>The effect of a message on the abstract key-value map.\<close>

definition kv_effect :: "ApplyMsg \<Rightarrow> (bytes \<rightharpoonup> bytes) \<Rightarrow> (bytes \<rightharpoonup> bytes)" where
  "kv_effect msg m =
     (if SnapshotValid msg \<or> \<not> CommandValid msg then m
      else case am_Command msg of
        None \<Rightarrow> m
      | Some cmd \<Rightarrow>
          if cmd_Type cmd = CommandPut then m(cmd_Key cmd \<mapsto> cmd_Value cmd)
          else if cmd_Type cmd = CommandDelete then m(cmd_Key cmd := None)
          else m)"

text \<open>What a message writes to a key: nothing, or a new content of the key.\<close>

definition kv_write :: "ApplyMsg \<Rightarrow> bytes \<Rightarrow> bytes option option" where
  "kv_write msg k =
     (if SnapshotValid msg \<or> \<not> CommandValid msg then None
      else case am_Command msg of
        None \<Rightarrow> None
      | Some cmd \<Rightarrow>
          if cmd_Key cmd \<noteq> k then None
          else if cmd_Type cmd = CommandPut then Some (Some (cmd_Value cmd))
          else if cmd_Type cmd = CommandDelete then Some None
          else None)"

lemma kv_effect_write: "kv_effect msg m k = (case kv_write msg k of None \<Rightarrow> m k | Some w \<Rightarrow> w)"
  by (auto simp: kv_effect_def kv_write_def split: option.splits)

text \<open>The last write to a key decides its content.\<close>

lemma fold_kv_effect:
  "fold kv_effect msgs m k =
     (case List.map_filter (\<lambda>msg. kv_write msg k) (rev msgs) of [] \<Rightarrow> m k | w # _ \<Rightarrow> w)"
  by (induction msgs rule: rev_induct)
    (auto simp: kv_effect_write map_filter_simps split: option.splits list.splits)

lemma replay_prefix:
  "fold kv_effect (msgs @ rest) (fold kv_effect msgs m) = fold kv_effect (msgs @ rest) m"
proof
  fix k
  have "List.map_filter (\<lambda>msg. kv_write msg k) (rev (msgs @ rest)) = []
      \<Longrightarrow> List.map_filter (\<lambda>msg. kv_write msg k) (rev msgs) = []"
    by (auto simp: map_filter_def)
  then show "fold kv_effect (msgs @ rest) (fold kv_effect msgs m) k = fold kv_effect (msgs @ rest) m k"
    unfolding fold_kv_effect [of "msgs @ rest"] by (auto simp: fold_kv_effect split: list.splits)
qed

lemma a_kv_same [simp]: "st\<lparr>a_kv := a_kv st\<rparr> = st"
  by (cases st) simp

context kv_storage
begin

text \<open>Over a storage that meets its contract a message has exactly its effect, and never fails.\<close>

lemma applyCommand_spec:
  assumes "inv s" "CommandValid msg" "\<not> SnapshotValid msg" "am_Command msg = Some cmd"
  shows "\<exists>s'. applyCommand ops s cmd =
      (s', \<lparr>op_Value = [], op_Err = (if cmd_Type cmd \<in> {CommandPut, CommandDelete, CommandNoop} then None
              else Some KVUnknownCommand)\<rparr>)
    \<and> inv s' \<and> abs s' = (abs s)\<lparr>a_kv := kv_effect msg (a_kv (abs s))\<rparr>"
proof (cases "cmd_Type cmd = CommandPut \<or> cmd_Type cmd = CommandDelete")
  case True
  then show ?thesis
    using kv_put [OF assms(1), of "cmd_Key cmd" "cmd_Value cmd"] kv_delete [OF assms(1), of "cmd_Key cmd"] assms
    by (auto simp: applyCommand_def result_of_def kv_effect_def command_consts)
qed (use assms in \<open>simp add: applyCommand_def result_of_def kv_effect_def\<close>)

lemma handleApplyMsg_spec:
  assumes "inv s"
  shows "\<exists>kv' s'. handleApplyMsg ops kv s msg = (kv', s') \<and> inv s'
    \<and> abs s' = (abs s)\<lparr>a_kv := kv_effect msg (a_kv (abs s))\<rparr>"
proof (cases "SnapshotValid msg \<or> \<not> CommandValid msg \<or> am_Command msg = None")
  case True
  then have "kv_effect msg (a_kv (abs s)) = a_kv (abs s)" by (auto simp: kv_effect_def)
  moreover have "snd (handleApplyMsg ops kv s msg) = s" using True by (auto simp: handleApplyMsg_def)
  ultimately show ?thesis using assms by (metis a_kv_same prod.collapse)
next
  case False
  then obtain cmd where c: "am_Command msg = Some cmd" by auto
  with False applyCommand_spec [OF assms _ _ c] show ?thesis by (auto simp: handleApplyMsg_def)
qed

lemma kv_applyLoop_spec:
  assumes "inv s"
  shows "\<exists>kv' s'. kv_applyLoop ops (kv, s) msgs = (kv', s') \<and> inv s'
    \<and> abs s' = (abs s)\<lparr>a_kv := fold kv_effect msgs (a_kv (abs s))\<rparr>"
  using assms
proof (induction msgs arbitrary: kv s)
  case (Cons msg msgs)
  obtain kv' s' where h: "handleApplyMsg ops kv s msg = (kv', s')" "inv s'"
    "abs s' = (abs s)\<lparr>a_kv := kv_effect msg (a_kv (abs s))\<rparr>"
    using handleApplyMsg_spec [OF Cons.prems] by blast
  from Cons.IH [OF h(2), of kv'] h show ?case by auto
qed simp

end

end
