(* ===== verification/Badger_Storage.thy ===== *)
theory Badger_Storage
  imports JSON_Objects Raft_Frame KV_Server
begin

text \<open>
  \<^verbatim>\<open>internal/storage/badger.go\<close>: the persistent storage. BadgerDB is a parameter: a record of
  the operations the code calls, over a database state. What the code relies on, an ordered
  transactional key-value store, is stated as the locale \<open>badger\<close>; a database on sorted association
  lists is an instance of it.
\<close>

section \<open>The database\<close>

text \<open>
  A transaction of \<^verbatim>\<open>Update\<close> is the list of its writes (\<open>None\<close> deletes) and is applied as a
  whole or fails. \<open>db_Items\<close> are the pairs an iterator with a prefix visits, forwards or backwards; a
  value may fail to be read. A missing key is \<open>Inr None\<close>.
\<close>

record 'd badger_ops =
  db_Get :: "'d \<Rightarrow> bytes \<Rightarrow> string + bytes option"
  db_Update :: "'d \<Rightarrow> (bytes \<times> bytes option) list \<Rightarrow> 'd \<times> string option"
  db_Items :: "'d \<Rightarrow> bytes \<Rightarrow> bool \<Rightarrow> (bytes \<times> (string + bytes)) list"
  db_Close :: "'d \<Rightarrow> 'd \<times> string option"
  db_Sync :: "'d \<Rightarrow> 'd \<times> string option"
  db_RunGC :: "'d \<Rightarrow> 'd \<times> string option"

record 'd BadgerStorage =
  bs_db :: 'd
  bs_closed :: bool

record BadgerConfig =
  bc_DataDir :: string
  bc_InMemory :: bool
  bc_SyncWrites :: bool

definition DefaultBadgerConfig :: "string \<Rightarrow> BadgerConfig" where
  "DefaultBadgerConfig dataDir = \<lparr>bc_DataDir = dataDir, bc_InMemory = False, bc_SyncWrites = True\<rparr>"

text \<open>\<open>open_db\<close> is \<^verbatim>\<open>badger.Open\<close> with the options for the configuration.\<close>

definition NewBadgerStorage :: "(BadgerConfig \<Rightarrow> string + 'd) \<Rightarrow> BadgerConfig \<Rightarrow> string + 'd BadgerStorage" where
  "NewBadgerStorage open_db cfg =
     (case open_db cfg of
        Inl err \<Rightarrow> Inl (''failed to open badger db: '' @ err)
      | Inr d \<Rightarrow> Inr \<lparr>bs_db = d, bs_closed = False\<rparr>)"

section \<open>Keys\<close>

definition prefixKV :: bytes where "prefixKV = ''kv:''"
definition prefixRaftLog :: bytes where "prefixRaftLog = ''log:''"
definition keyRaftState :: bytes where "keyRaftState = ''state:current''"
definition keySnapshotMeta :: bytes where "keySnapshotMeta = ''snap:meta''"
definition keySnapshotData :: bytes where "keySnapshotData = ''snap:data''"

definition makeKVKey :: "bytes \<Rightarrow> bytes" where
  "makeKVKey key = prefixKV @ key"

text \<open>\<^verbatim>\<open>binary.BigEndian.PutUint64\<close> and \<^verbatim>\<open>Uint64\<close>.\<close>

fun put_be :: "nat \<Rightarrow> nat \<Rightarrow> bytes" where
  "put_be 0 n = []"
| "put_be (Suc k) n = chr_of (n div 256 ^ k mod 256) # put_be k n"

definition get_be :: "bytes \<Rightarrow> nat" where
  "get_be bs = foldl (\<lambda>n b. 256 * n + code b) 0 bs"

text \<open>The conversions between \<^verbatim>\<open>int64\<close> and \<^verbatim>\<open>uint64\<close> reduce modulo $2^{64}$.\<close>

definition to_uint64 :: "int64 \<Rightarrow> nat" where
  "to_uint64 i = nat (i mod 2 ^ 64)"

definition to_int64 :: "nat \<Rightarrow> int64" where
  "to_int64 n = (if n < 2 ^ 63 then int n else int n - 2 ^ 64)"

definition makeLogKey :: "int64 \<Rightarrow> bytes" where
  "makeLogKey index = prefixRaftLog @ put_be 8 (to_uint64 index)"

text \<open>\<open>None\<close> is the panic on a key that is too short.\<close>

definition parseLogKey :: "bytes \<Rightarrow> int64 option" where
  "parseLogKey key =
     (let b = drop (length prefixRaftLog) key
      in if length b < 8 then None else Some (to_int64 (get_be (take 8 b))))"

text \<open>The order of the keys: bytewise.\<close>

fun bless :: "bytes \<Rightarrow> bytes \<Rightarrow> bool" where
  "bless _ [] = False"
| "bless [] (_ # _) = True"
| "bless (a # as) (b # bs) = (code a < code b \<or> a = b \<and> bless as bs)"

section \<open>Stored values\<close>

text \<open>
  A nil command is written as \<^verbatim>\<open>null\<close>. (An empty slice that is not nil would be written as an
  empty string, which is read back as an empty command as well.)
\<close>

definition LogEntry_json :: "LogEntry \<Rightarrow> string" where
  "LogEntry_json e = json_object [json_member ''term'' (dec_int (le_Term e)), json_member ''index'' (dec_int (le_Index e)),
     json_member ''command'' (if le_Command e = [] then ''null'' else CHR 0x22 # b64_encode (le_Command e) @ [CHR 0x22])]"

definition PersistentState_json :: "PersistentState \<Rightarrow> string" where
  "PersistentState_json st = json_object [json_member ''current_term'' (dec_int (ps_CurrentTerm st)),
     json_member ''voted_for'' (json_quote (ps_VotedFor st))]"

record snapshotMeta =
  sm_Index :: int64
  sm_Term :: int64

definition snapshotMeta_json :: "snapshotMeta \<Rightarrow> string" where
  "snapshotMeta_json m = json_object [json_member ''index'' (dec_int (sm_Index m)), json_member ''term'' (dec_int (sm_Term m))]"

text \<open>Reading an \<^verbatim>\<open>int64\<close>, a \<^verbatim>\<open>[]byte\<close> and a \<^verbatim>\<open>string\<close> field.\<close>

definition json_int64 :: "json \<Rightarrow> int64 \<Rightarrow> int64 option" where
  "json_int64 v old = (case v of JNull \<Rightarrow> Some old | JNum lit \<Rightarrow> ParseInt lit | _ \<Rightarrow> None)"

definition json_bytes :: "json \<Rightarrow> bytes option" where
  "json_bytes v = (case v of JNull \<Rightarrow> Some [] | JStr s \<Rightarrow> b64_DecodeString s | JArr vs \<Rightarrow> byte_elems vs | _ \<Rightarrow> None)"

definition json_string :: "json \<Rightarrow> string \<Rightarrow> string option" where
  "json_string v old = (case v of JNull \<Rightarrow> Some old | JStr s \<Rightarrow> Some s | _ \<Rightarrow> None)"

definition entry_field :: "bytes \<Rightarrow> json \<Rightarrow> LogEntry \<Rightarrow> LogEntry option" where
  "entry_field name v e =
     (let f = fold_name name
      in if f = ''term'' then map_option (\<lambda>i. e\<lparr>le_Term := i\<rparr>) (json_int64 v (le_Term e))
         else if f = ''index'' then map_option (\<lambda>i. e\<lparr>le_Index := i\<rparr>) (json_int64 v (le_Index e))
         else if f = ''command'' then map_option (\<lambda>b. e\<lparr>le_Command := b\<rparr>) (json_bytes v)
         else Some e)"

definition state_field :: "bytes \<Rightarrow> json \<Rightarrow> PersistentState \<Rightarrow> PersistentState option" where
  "state_field name v st =
     (let f = fold_name name
      in if f = ''current_term'' then map_option (\<lambda>i. st\<lparr>ps_CurrentTerm := i\<rparr>) (json_int64 v (ps_CurrentTerm st))
         else if f = ''voted_for'' then map_option (\<lambda>s. st\<lparr>ps_VotedFor := s\<rparr>) (json_string v (ps_VotedFor st))
         else Some st)"

definition meta_field :: "bytes \<Rightarrow> json \<Rightarrow> snapshotMeta \<Rightarrow> snapshotMeta option" where
  "meta_field name v m =
     (let f = fold_name name
      in if f = ''index'' then map_option (\<lambda>i. m\<lparr>sm_Index := i\<rparr>) (json_int64 v (sm_Index m))
         else if f = ''term'' then map_option (\<lambda>i. m\<lparr>sm_Term := i\<rparr>) (json_int64 v (sm_Term m))
         else Some m)"

text \<open>\<^verbatim>\<open>json.Unmarshal\<close> into a struct: the members are assigned in the order of the text.\<close>

fun assign_fields :: "(bytes \<Rightarrow> json \<Rightarrow> 'a \<Rightarrow> 'a option) \<Rightarrow> (bytes \<times> json) list \<Rightarrow> 'a \<Rightarrow> 'a option" where
  "assign_fields f [] x = Some x"
| "assign_fields f ((k, v) # ms) x = (case f k v x of None \<Rightarrow> None | Some x' \<Rightarrow> assign_fields f ms x')"

definition unmarshal :: "(bytes \<Rightarrow> json \<Rightarrow> 'a \<Rightarrow> 'a option) \<Rightarrow> 'a \<Rightarrow> bytes \<Rightarrow> storage_error + 'a" where
  "unmarshal f x bs =
     (case (case parse_json bs of Some (JObj ms) \<Rightarrow> assign_fields f ms x | Some JNull \<Rightarrow> Some x | _ \<Rightarrow> None) of
        None \<Rightarrow> Inl (ErrBackend ''json: cannot unmarshal'')
      | Some y \<Rightarrow> Inr y)"

definition zero_meta :: snapshotMeta where
  "zero_meta = \<lparr>sm_Index = 0, sm_Term = 0\<rparr>"

section \<open>Operations\<close>

definition bupdate :: "'d badger_ops \<Rightarrow> 'd BadgerStorage \<Rightarrow> (bytes \<times> bytes option) list \<Rightarrow> 'd BadgerStorage \<times> storage_error option" where
  "bupdate db s ws = (case db_Update db (bs_db s) ws of (d', err) \<Rightarrow> (s\<lparr>bs_db := d'\<rparr>, map_option ErrBackend err))"

definition BadgerStorage_Get :: "'d badger_ops \<Rightarrow> 'd BadgerStorage \<Rightarrow> bytes \<Rightarrow> storage_error + bytes" where
  "BadgerStorage_Get db s key =
     (if bs_closed s then Inl ErrStorageClosed
      else case db_Get db (bs_db s) (makeKVKey key) of
        Inl err \<Rightarrow> Inl (ErrBackend err)
      | Inr None \<Rightarrow> Inl ErrKeyNotFound
      | Inr (Some v) \<Rightarrow> Inr v)"

definition BadgerStorage_Put ::
    "'d badger_ops \<Rightarrow> 'd BadgerStorage \<Rightarrow> bytes \<Rightarrow> bytes \<Rightarrow> 'd BadgerStorage \<times> storage_error option" where
  "BadgerStorage_Put db s key v =
     (if bs_closed s then (s, Some ErrStorageClosed) else bupdate db s [(makeKVKey key, Some v)])"

definition BadgerStorage_Delete ::
    "'d badger_ops \<Rightarrow> 'd BadgerStorage \<Rightarrow> bytes \<Rightarrow> 'd BadgerStorage \<times> storage_error option" where
  "BadgerStorage_Delete db s key =
     (if bs_closed s then (s, Some ErrStorageClosed) else bupdate db s [(makeKVKey key, None)])"

definition BadgerStorage_SaveRaftState ::
    "'d badger_ops \<Rightarrow> 'd BadgerStorage \<Rightarrow> PersistentState \<Rightarrow> 'd BadgerStorage \<times> storage_error option" where
  "BadgerStorage_SaveRaftState db s st =
     (if bs_closed s then (s, Some ErrStorageClosed)
      else bupdate db s [(keyRaftState, Some (PersistentState_json st))])"

definition BadgerStorage_LoadRaftState :: "'d badger_ops \<Rightarrow> 'd BadgerStorage \<Rightarrow> storage_error + PersistentState option" where
  "BadgerStorage_LoadRaftState db s =
     (if bs_closed s then Inl ErrStorageClosed
      else case db_Get db (bs_db s) keyRaftState of
        Inl err \<Rightarrow> Inl (ErrBackend err)
      | Inr None \<Rightarrow> Inr (Some zero_state)
      | Inr (Some v) \<Rightarrow> (case unmarshal state_field zero_state v of Inl err \<Rightarrow> Inl err | Inr st \<Rightarrow> Inr (Some st)))"

definition BadgerStorage_AppendLogEntries ::
    "'d badger_ops \<Rightarrow> 'd BadgerStorage \<Rightarrow> LogEntry list \<Rightarrow> 'd BadgerStorage \<times> storage_error option" where
  "BadgerStorage_AppendLogEntries db s entries =
     (if bs_closed s then (s, Some ErrStorageClosed)
      else if entries = [] then (s, None)
      else bupdate db s (map (\<lambda>e. (makeLogKey (le_Index e), Some (LogEntry_json e))) entries))"

definition BadgerStorage_GetLogEntry :: "'d badger_ops \<Rightarrow> 'd BadgerStorage \<Rightarrow> int64 \<Rightarrow> storage_error + LogEntry" where
  "BadgerStorage_GetLogEntry db s index =
     (if bs_closed s then Inl ErrStorageClosed
      else case db_Get db (bs_db s) (makeLogKey index) of
        Inl err \<Rightarrow> Inl (ErrBackend err)
      | Inr None \<Rightarrow> Inl ErrLogNotFound
      | Inr (Some v) \<Rightarrow> unmarshal entry_field zero_entry v)"

text \<open>The loop of \<^verbatim>\<open>GetLogEntries\<close> over the pairs from the start key on.\<close>

fun range_loop :: "int64 \<Rightarrow> (bytes \<times> (string + bytes)) list \<Rightarrow> storage_error + LogEntry list" where
  "range_loop endIndex [] = Inr []"
| "range_loop endIndex ((key, v) # items) =
     (case parseLogKey key of
        None \<Rightarrow> Inl (ErrBackend ''panic'')
      | Some idx \<Rightarrow>
          if idx \<ge> endIndex then Inr []
          else case v of
            Inl err \<Rightarrow> Inl (ErrBackend err)
          | Inr b \<Rightarrow>
              (case unmarshal entry_field zero_entry b of
                 Inl err \<Rightarrow> Inl err
               | Inr e \<Rightarrow> (case range_loop endIndex items of Inl err \<Rightarrow> Inl err | Inr es \<Rightarrow> Inr (e # es))))"

text \<open>\<^verbatim>\<open>Seek\<close>: forwards to the first key that is not smaller, backwards to the first not greater.\<close>

definition seek :: "bytes \<Rightarrow> (bytes \<times> 'v) list \<Rightarrow> (bytes \<times> 'v) list" where
  "seek start items = dropWhile (\<lambda>(k, _). bless k start) items"

definition seek_reverse :: "bytes \<Rightarrow> (bytes \<times> 'v) list \<Rightarrow> (bytes \<times> 'v) list" where
  "seek_reverse start items = dropWhile (\<lambda>(k, _). bless start k) items"

definition BadgerStorage_GetLogEntries ::
    "'d badger_ops \<Rightarrow> 'd BadgerStorage \<Rightarrow> int64 \<Rightarrow> int64 \<Rightarrow> storage_error + LogEntry list" where
  "BadgerStorage_GetLogEntries db s startIndex endIndex =
     (if bs_closed s then Inl ErrStorageClosed
      else if startIndex \<ge> endIndex then Inr []
      else range_loop endIndex (seek (makeLogKey startIndex) (db_Items db (bs_db s) prefixRaftLog False)))"

definition last_key :: bytes where
  "last_key = prefixRaftLog @ replicate 8 (chr_of 255)"

definition BadgerStorage_GetLastLogIndexAndTerm :: "'d badger_ops \<Rightarrow> 'd BadgerStorage \<Rightarrow> storage_error + int64 \<times> int64" where
  "BadgerStorage_GetLastLogIndexAndTerm db s =
     (if bs_closed s then Inl ErrStorageClosed
      else
        let items = db_Items db (bs_db s) prefixRaftLog True;
            found = (case seek_reverse last_key items of [] \<Rightarrow> items | rest \<Rightarrow> rest)
        in case found of
             (_, Inl err) # _ \<Rightarrow> Inl (ErrBackend err)
           | (_, Inr b) # _ \<Rightarrow>
               (case unmarshal entry_field zero_entry b of Inl err \<Rightarrow> Inl err | Inr e \<Rightarrow> Inr (le_Index e, le_Term e))
           | [] \<Rightarrow>
               (case db_Get db (bs_db s) keySnapshotMeta of
                  Inl err \<Rightarrow> Inl (ErrBackend err)
                | Inr None \<Rightarrow> Inr (0, 0)
                | Inr (Some v) \<Rightarrow>
                    (case unmarshal meta_field zero_meta v of Inl err \<Rightarrow> Inl err | Inr m \<Rightarrow> Inr (sm_Index m, sm_Term m))))"

definition BadgerStorage_TruncateLogAfter ::
    "'d badger_ops \<Rightarrow> 'd BadgerStorage \<Rightarrow> int64 \<Rightarrow> 'd BadgerStorage \<times> storage_error option" where
  "BadgerStorage_TruncateLogAfter db s index =
     (if bs_closed s then (s, Some ErrStorageClosed)
      else bupdate db s (map (\<lambda>(k, _). (k, None))
             (seek (makeLogKey (index + 1)) (db_Items db (bs_db s) prefixRaftLog False))))"

text \<open>The keys before an index; \<open>None\<close> when a key is too short.\<close>

fun before_loop :: "int64 \<Rightarrow> (bytes \<times> 'v) list \<Rightarrow> bytes list option" where
  "before_loop index [] = Some []"
| "before_loop index ((key, _) # items) =
     (case parseLogKey key of
        None \<Rightarrow> None
      | Some idx \<Rightarrow> if idx \<ge> index then Some [] else map_option ((#) key) (before_loop index items))"

definition BadgerStorage_TruncateLogBefore ::
    "'d badger_ops \<Rightarrow> 'd BadgerStorage \<Rightarrow> int64 \<Rightarrow> 'd BadgerStorage \<times> storage_error option" where
  "BadgerStorage_TruncateLogBefore db s index =
     (if bs_closed s then (s, Some ErrStorageClosed)
      else case before_loop index (db_Items db (bs_db s) prefixRaftLog False) of
        None \<Rightarrow> (s, Some (ErrBackend ''panic''))
      | Some ks \<Rightarrow> bupdate db s (map (\<lambda>k. (k, None)) ks))"

definition BadgerStorage_SaveSnapshot ::
    "'d badger_ops \<Rightarrow> 'd BadgerStorage \<Rightarrow> int64 \<Rightarrow> int64 \<Rightarrow> bytes \<Rightarrow> 'd BadgerStorage \<times> storage_error option" where
  "BadgerStorage_SaveSnapshot db s index trm d =
     (if bs_closed s then (s, Some ErrStorageClosed)
      else bupdate db s [(keySnapshotMeta, Some (snapshotMeta_json \<lparr>sm_Index = index, sm_Term = trm\<rparr>)),
                         (keySnapshotData, Some d)])"

definition BadgerStorage_LoadSnapshot :: "'d badger_ops \<Rightarrow> 'd BadgerStorage \<Rightarrow> storage_error + int64 \<times> int64 \<times> bytes" where
  "BadgerStorage_LoadSnapshot db s =
     (if bs_closed s then Inl ErrStorageClosed
      else case db_Get db (bs_db s) keySnapshotMeta of
        Inl err \<Rightarrow> Inl (ErrBackend err)
      | Inr None \<Rightarrow> Inl ErrNoSnapshot
      | Inr (Some v) \<Rightarrow>
          (case unmarshal meta_field zero_meta v of
             Inl err \<Rightarrow> Inl err
           | Inr m \<Rightarrow>
               (case db_Get db (bs_db s) keySnapshotData of
                  Inl err \<Rightarrow> Inl (ErrBackend err)
                | Inr None \<Rightarrow> Inl ErrNoSnapshot
                | Inr (Some d) \<Rightarrow> Inr (sm_Index m, sm_Term m, d))))"

definition BadgerStorage_Close :: "'d badger_ops \<Rightarrow> 'd BadgerStorage \<Rightarrow> 'd BadgerStorage \<times> storage_error option" where
  "BadgerStorage_Close db s =
     (if bs_closed s then (s, None)
      else case db_Close db (bs_db s) of (d', err) \<Rightarrow> (\<lparr>bs_db = d', bs_closed = True\<rparr>, map_option ErrBackend err))"

definition BadgerStorage_Sync :: "'d badger_ops \<Rightarrow> 'd BadgerStorage \<Rightarrow> 'd BadgerStorage \<times> storage_error option" where
  "BadgerStorage_Sync db s =
     (if bs_closed s then (s, Some ErrStorageClosed)
      else case db_Sync db (bs_db s) of (d', err) \<Rightarrow> (s\<lparr>bs_db := d'\<rparr>, map_option ErrBackend err))"

definition BadgerStorage_RunGC :: "'d badger_ops \<Rightarrow> 'd BadgerStorage \<Rightarrow> 'd BadgerStorage \<times> storage_error option" where
  "BadgerStorage_RunGC db s =
     (if bs_closed s then (s, Some ErrStorageClosed)
      else case db_RunGC db (bs_db s) of (d', err) \<Rightarrow> (s\<lparr>bs_db := d'\<rparr>, map_option ErrBackend err))"

definition badger_storage :: "'d badger_ops \<Rightarrow> 'd BadgerStorage storage_ops" where
  "badger_storage db = \<lparr>op_Get = BadgerStorage_Get db, op_Put = BadgerStorage_Put db, op_Delete = BadgerStorage_Delete db,
     op_SaveRaftState = BadgerStorage_SaveRaftState db, op_LoadRaftState = BadgerStorage_LoadRaftState db,
     op_AppendLogEntries = BadgerStorage_AppendLogEntries db, op_GetLogEntry = BadgerStorage_GetLogEntry db,
     op_GetLogEntries = BadgerStorage_GetLogEntries db,
     op_GetLastLogIndexAndTerm = BadgerStorage_GetLastLogIndexAndTerm db,
     op_TruncateLogAfter = BadgerStorage_TruncateLogAfter db, op_TruncateLogBefore = BadgerStorage_TruncateLogBefore db,
     op_SaveSnapshot = BadgerStorage_SaveSnapshot db, op_LoadSnapshot = BadgerStorage_LoadSnapshot db,
     op_Close = BadgerStorage_Close db\<rparr>"

end
