(* ===== verification/KV_System.thy ===== *)
theory KV_System
  imports KV_Server Raft_Frame
begin

text \<open>
  One process of the program: the key-value server, the Raft node it proposes to, the storage they
  share, the apply channel between them and the clients that are inside \<^verbatim>\<open>Put\<close> or
  \<^verbatim>\<open>Delete\<close>. A step is one critical section; the client goroutines, the two apply loops and
  the node's RPC goroutines interleave freely.
\<close>

section \<open>The system\<close>

text \<open>Where a client goroutine is: after registering, waiting for the result, or returned.\<close>

datatype client =
    Registered Command nat
  | Waiting Command nat
  | Returned Command "kv_error option"

text \<open>\<open>sys_inbox\<close> is the content of \<^verbatim>\<open>applyCh\<close>, \<open>sys_handled\<close> the messages handled so far.\<close>

record 's kv_system =
  sys_kv :: KVServer
  sys_node :: "'s RaftNode"
  sys_inbox :: "ApplyMsg list"
  sys_handled :: "ApplyMsg list"
  sys_clients :: "nat \<rightharpoonup> client"

datatype kv_event =
    CallPut nat string bytes
  | CallDelete nat string
  | Submit nat
  | Await nat wait_case
  | NodeApply
  | HandleNext
  | StopServer "nat list"
  | NodeTimeout
  | NodeVoteRequest RequestVoteRequest
  | NodeVoteResponse int64 int RequestVoteResponse
  | NodeFinish int64 int
  | NodeAppend AppendEntriesRequest
  | NodeSendAppend node_id int64 int64
  | NodeAppendResponse node_id int64 int64 nat AppendEntriesResponse

definition start_client :: "nat \<Rightarrow> Command \<Rightarrow> 's kv_system \<Rightarrow> 's kv_system option" where
  "start_client c cmd sys =
     (if sys_clients sys c \<noteq> None then None
      else case propose_register (sys_kv sys) cmd of
        (kv', cmd', ch) \<Rightarrow>
          Some (sys\<lparr>sys_kv := kv', sys_clients := (sys_clients sys)(c \<mapsto> Registered cmd' ch)\<rparr>))"

definition set_raft :: "'s RaftNode \<Rightarrow> 's kv_system \<Rightarrow> 's kv_system" where
  "set_raft rn sys = sys\<lparr>sys_node := rn\<rparr>"

fun kv_exec :: "'s storage_ops \<Rightarrow> kv_event \<Rightarrow> 's kv_system \<Rightarrow> 's kv_system option" where
  "kv_exec ops (CallPut c key value) sys = start_client c (put_command key value) sys"
| "kv_exec ops (CallDelete c key) sys = start_client c (delete_command key) sys"
| "kv_exec ops (Submit c) sys =
     (case sys_clients sys c of
        Some (Registered cmd ch) \<Rightarrow>
          (case propose_submit ops (sys_kv sys) (sys_node sys) cmd of
             (kv', rn', err) \<Rightarrow>
               Some (sys\<lparr>sys_kv := kv', sys_node := rn', sys_clients := (sys_clients sys)(c \<mapsto>
                 (case err of None \<Rightarrow> Waiting cmd ch | Some e \<Rightarrow> Returned cmd (Some e)))\<rparr>))
      | _ \<Rightarrow> None)"
| "kv_exec ops (Await c w) sys =
     (case sys_clients sys c of
        Some (Waiting cmd ch) \<Rightarrow>
          (case propose_wait (sys_kv sys) (cmd_RequestID cmd) ch w of
             None \<Rightarrow> None
           | Some (kv', err) \<Rightarrow>
               Some (sys\<lparr>sys_kv := kv', sys_clients := (sys_clients sys)(c \<mapsto> Returned cmd err)\<rparr>))
      | _ \<Rightarrow> None)"
| "kv_exec ops NodeApply sys =
     (case applyLoop_pass ops (sys_node sys) of
        (rn', msgs) \<Rightarrow> Some (sys\<lparr>sys_node := rn', sys_inbox := sys_inbox sys @ msgs\<rparr>))"
| "kv_exec ops HandleNext sys =
     (if kv_applyLoops (sys_kv sys) = 0 then None
      else case sys_inbox sys of
        [] \<Rightarrow> None
      | msg # rest \<Rightarrow>
          (case handleApplyMsg ops (sys_kv sys) (rn_storage (sys_node sys)) msg of
             (kv', s') \<Rightarrow> Some (sys\<lparr>sys_kv := kv', sys_node := (sys_node sys)\<lparr>rn_storage := s'\<rparr>,
                              sys_inbox := rest, sys_handled := sys_handled sys @ [msg]\<rparr>)))"
| "kv_exec ops (StopServer order) sys =
     (if set order \<noteq> ran (pendingOps (sys_kv sys)) then None
      else map_option (\<lambda>kv'. sys\<lparr>sys_kv := kv'\<rparr>) (KVServer_Stop order (sys_kv sys)))"
| "kv_exec ops NodeTimeout sys = Some (set_raft (fst (startElection_begin ops (sys_node sys))) sys)"
| "kv_exec ops (NodeVoteRequest req) sys = Some (set_raft (fst (HandleRequestVote ops (sys_node sys) req)) sys)"
| "kv_exec ops (NodeVoteResponse t v resp) sys =
     Some (set_raft (fst (sendRequestVote_resp ops (sys_node sys) t v resp)) sys)"
| "kv_exec ops (NodeFinish t v) sys = Some (set_raft (startElection_finish ops (sys_node sys) t v) sys)"
| "kv_exec ops (NodeAppend req) sys = Some (set_raft (fst (HandleAppendEntries ops (sys_node sys) req)) sys)"
| "kv_exec ops (NodeSendAppend p t c) sys =
     Some (set_raft (fst (sendAppendEntries_req ops (sys_node sys) p t c)) sys)"
| "kv_exec ops (NodeAppendResponse p t prev n resp) sys =
     Some (set_raft (sendAppendEntries_resp ops (sys_node sys) p t prev n resp) sys)"

fun kv_run :: "'s storage_ops \<Rightarrow> kv_event list \<Rightarrow> 's kv_system \<Rightarrow> 's kv_system option" where
  "kv_run ops [] sys = Some sys"
| "kv_run ops (ev # evs) sys = (case kv_exec ops ev sys of None \<Rightarrow> None | Some sys' \<Rightarrow> kv_run ops evs sys')"

text \<open>A process that has just been started.\<close>

definition fresh_system :: "'s KVServerConfig \<Rightarrow> 's kv_system \<Rightarrow> bool" where
  "fresh_system cfg sys \<longleftrightarrow> (\<exists>kv rn. NewKVServer (Some cfg) = Inr kv \<and> kvc_Raft cfg = Some rn
     \<and> sys = \<lparr>sys_kv = KVServer_Start kv, sys_node = rn, sys_inbox = [], sys_handled = [],
              sys_clients = Map.empty\<rparr>)"

section \<open>An invariant of the waiting clients\<close>

text \<open>A message that was handled without an error and carries a request ID.\<close>

definition done_msg :: "64 word \<Rightarrow> ApplyMsg \<Rightarrow> bool" where
  "done_msg r msg \<longleftrightarrow> CommandValid msg \<and> \<not> SnapshotValid msg
     \<and> (\<exists>cmd. am_Command msg = Some cmd \<and> cmd_RequestID cmd = r
          \<and> cmd_Type cmd \<in> {CommandPut, CommandDelete, CommandNoop})"

definition has_done :: "'s kv_system \<Rightarrow> 64 word \<Rightarrow> bool" where
  "has_done sys r \<longleftrightarrow> (\<exists>msg\<in>set (sys_handled sys). done_msg r msg)"

text \<open>
  A client's channel is registered under its own request ID only, and holds a success only after a
  message with that ID was handled.
\<close>

definition channel_ok :: "'s kv_system \<Rightarrow> Command \<Rightarrow> nat \<Rightarrow> bool" where
  "channel_ok sys cmd ch \<longleftrightarrow> ch < nextChan (sys_kv sys)
     \<and> (\<forall>r. pendingOps (sys_kv sys) r = Some ch \<longrightarrow> r = cmd_RequestID cmd)
     \<and> (\<forall>res. chans (sys_kv sys) ch = Some (Some res) \<longrightarrow> op_Err res = None \<longrightarrow> has_done sys (cmd_RequestID cmd))"

fun client_ok :: "'s kv_system \<Rightarrow> client \<Rightarrow> bool" where
  "client_ok sys (Registered cmd ch) = channel_ok sys cmd ch"
| "client_ok sys (Waiting cmd ch) = channel_ok sys cmd ch"
| "client_ok sys (Returned cmd err) = (err = None \<longrightarrow> has_done sys (cmd_RequestID cmd))"

definition clients_inv :: "'s kv_system \<Rightarrow> bool" where
  "clients_inv sys \<longleftrightarrow> (\<forall>c cl. sys_clients sys c = Some cl \<longrightarrow> client_ok sys cl)
     \<and> (\<forall>r ch. pendingOps (sys_kv sys) r = Some ch \<longrightarrow> ch < nextChan (sys_kv sys))"

lemma clients_invD: "clients_inv sys \<Longrightarrow> sys_clients sys c = Some cl \<Longrightarrow> client_ok sys cl"
  unfolding clients_inv_def by blast

text \<open>How the server state may change without breaking it.\<close>

definition kv_later :: "'s kv_system \<Rightarrow> 's kv_system \<Rightarrow> bool" where
  "kv_later sys sys' \<longleftrightarrow> nextChan (sys_kv sys) \<le> nextChan (sys_kv sys')
     \<and> set (sys_handled sys) \<subseteq> set (sys_handled sys')
     \<and> (\<forall>r ch. pendingOps (sys_kv sys') r = Some ch \<longrightarrow>
          pendingOps (sys_kv sys) r = Some ch \<or> nextChan (sys_kv sys) \<le> ch \<and> ch < nextChan (sys_kv sys'))
     \<and> (\<forall>ch res. ch < nextChan (sys_kv sys) \<longrightarrow> chans (sys_kv sys') ch = Some (Some res) \<longrightarrow> op_Err res = None \<longrightarrow>
          chans (sys_kv sys) ch = Some (Some res)
          \<or> (\<exists>r. pendingOps (sys_kv sys) r = Some ch \<and> has_done sys' r))"

lemma has_done_mono: "set (sys_handled sys) \<subseteq> set (sys_handled sys') \<Longrightarrow> has_done sys r \<Longrightarrow> has_done sys' r"
  by (auto simp: has_done_def)

lemma channel_ok_later: "kv_later sys sys' \<Longrightarrow> channel_ok sys cmd ch \<Longrightarrow> channel_ok sys' cmd ch"
  unfolding kv_later_def channel_ok_def by (metis has_done_mono leD order.strict_trans2)

lemma client_ok_later: "kv_later sys sys' \<Longrightarrow> client_ok sys cl \<Longrightarrow> client_ok sys' cl"
  using channel_ok_later has_done_mono by (cases cl) (auto simp: kv_later_def)

text \<open>A step changes one client at most.\<close>

lemma clients_inv_step:
  assumes "clients_inv sys" "kv_later sys sys'" "sys_clients sys' = (sys_clients sys)(c \<mapsto> cl)" "client_ok sys' cl"
  shows "clients_inv sys'"
  using assms client_ok_later [OF assms(2)] unfolding clients_inv_def kv_later_def
  by (auto split: if_splits) (metis order.strict_trans2)+

lemma clients_inv_keep:
  assumes "clients_inv sys" "kv_later sys sys'" "sys_clients sys' = sys_clients sys"
  shows "clients_inv sys'"
  using assms client_ok_later [OF assms(2)] unfolding clients_inv_def kv_later_def
  by auto (metis order.strict_trans2)+

lemma try_send_sel [simp]:
  "pendingOps (try_send ch r kv) = pendingOps kv" "nextChan (try_send ch r kv) = nextChan kv"
  "kv_stopCh (try_send ch r kv) = kv_stopCh kv" "kv_applyLoops (try_send ch r kv) = kv_applyLoops kv"
  "nextRequestID (try_send ch r kv) = nextRequestID kv"
  by (simp_all add: try_send_def split: option.split)

lemma try_send_chans:
  "chans (try_send ch r kv) ch' = Some (Some x) \<Longrightarrow> chans kv ch' = Some (Some x) \<or> ch' = ch \<and> x = r"
  by (auto simp: try_send_def split: option.splits if_splits)

lemma close_all_chans:
  "chans (foldl (\<lambda>k ch. try_send ch closed_result k) kv order) ch' = Some (Some x) \<Longrightarrow>
     op_Err x = None \<Longrightarrow> chans kv ch' = Some (Some x)"
proof (induction order arbitrary: kv)
  case (Cons ch order)
  then have "chans (try_send ch closed_result kv) ch' = Some (Some x)" by simp
  from try_send_chans [OF this] Cons.prems(2) show ?case by (auto simp: closed_result_def)
qed simp

lemma close_all_sel [simp]:
  "nextChan (foldl (\<lambda>k ch. try_send ch r k) kv order) = nextChan kv"
  by (induction order arbitrary: kv) auto


lemma handle_later:
  assumes "handleApplyMsg ops (sys_kv sys) st msg = (kv', s')"
    "sys_kv sys' = kv'" "sys_handled sys' = sys_handled sys @ [msg]"
  shows "kv_later sys sys'"
proof (cases "SnapshotValid msg \<or> \<not> CommandValid msg \<or> am_Command msg = None")
  case True
  then have "kv' = sys_kv sys" using assms(1)
    by (auto simp: handleApplyMsg_def applySnapshot_def notify_def split: if_splits)
  then show ?thesis using assms by (auto simp: kv_later_def)
next
  case False
  then obtain cmd where cmd: "am_Command msg = Some cmd" by auto
  obtain s1 r where a: "applyCommand ops st cmd = (s1, r)" by (cases "applyCommand ops st cmd")
  have done_cmd: "has_done sys' (cmd_RequestID cmd)" if "op_Err r = None"
  proof -
    have "cmd_Type cmd \<in> {CommandPut, CommandDelete, CommandNoop}"
      using a that by (auto simp: applyCommand_def split: if_splits)
    then show ?thesis using False cmd assms(3) by (auto simp: has_done_def done_msg_def)
  qed
  have kv': "kv' = notify (cmd_RequestID cmd) r (sys_kv sys)" using assms(1) False cmd a by (simp add: handleApplyMsg_def)
  show ?thesis
  proof (cases "cmd_RequestID cmd = 0 \<or> pendingOps (sys_kv sys) (cmd_RequestID cmd) = None")
    case True
    then have "kv' = sys_kv sys" using kv' by (auto simp: notify_def)
    then show ?thesis using assms by (auto simp: kv_later_def)
  next
    case pending: False
    then obtain ch where ch: "pendingOps (sys_kv sys) (cmd_RequestID cmd) = Some ch" by auto
    have n: "kv' = try_send ch r (forget (cmd_RequestID cmd) (sys_kv sys))"
      using kv' pending ch by (simp add: notify_def forget_def)
    have "chans (sys_kv sys) c = Some (Some res) \<or> (\<exists>q. pendingOps (sys_kv sys) q = Some c \<and> has_done sys' q)"
      if "chans kv' c = Some (Some res)" "op_Err res = None" for c res
      using try_send_chans [OF that(1) [unfolded n]] that(2) ch done_cmd by (auto simp: forget_def)
    then show ?thesis using assms(2,3) n by (auto simp: kv_later_def forget_def split: if_splits)
  qed
qed

lemma start_client_inv:
  assumes "clients_inv sys" "start_client c cmd sys = Some sys'"
  shows "clients_inv sys'"
proof -
  let ?r = "nextRequestID (sys_kv sys) + 1" and ?ch = "nextChan (sys_kv sys)"
  have sys': "sys' = sys\<lparr>sys_kv := (sys_kv sys)\<lparr>nextRequestID := ?r, nextChan := Suc ?ch,
      chans := (chans (sys_kv sys))(?ch \<mapsto> None), pendingOps := (pendingOps (sys_kv sys))(?r \<mapsto> ?ch)\<rparr>,
      sys_clients := (sys_clients sys)(c \<mapsto> Registered (cmd\<lparr>cmd_RequestID := ?r\<rparr>) ?ch)\<rparr>"
    using assms(2) by (auto simp: start_client_def propose_register_def Let_def split: if_splits)
  have "kv_later sys sys'" unfolding sys' kv_later_def by auto
  moreover have "\<not> (\<exists>r. pendingOps (sys_kv sys) r = Some ?ch)"
    using assms(1) unfolding clients_inv_def by blast
  then have "client_ok sys' (Registered (cmd\<lparr>cmd_RequestID := ?r\<rparr>) ?ch)"
    unfolding sys' by (auto simp: channel_ok_def split: if_splits)
  moreover have "sys_clients sys' = (sys_clients sys)(c \<mapsto> Registered (cmd\<lparr>cmd_RequestID := ?r\<rparr>) ?ch)"
    by (simp add: sys')
  ultimately show ?thesis using clients_inv_step [OF assms(1)] by blast
qed

lemma wait_later:
  assumes "propose_wait (sys_kv sys) r ch w = Some (kv', err)" "sys_kv sys' = kv'" "sys_handled sys' = sys_handled sys"
  shows "kv_later sys sys'"
proof -
  have "nextChan kv' = nextChan (sys_kv sys)" "pendingOps kv' q = Some c \<Longrightarrow> pendingOps (sys_kv sys) q = Some c"
    "chans kv' c = Some (Some res) \<Longrightarrow> chans (sys_kv sys) c = Some (Some res)" for q c res
    using assms(1) by (auto simp: propose_wait_def forget_def split: wait_case.splits option.splits if_splits)
  then show ?thesis unfolding kv_later_def assms(2,3) by auto
qed

lemma clients_inv_exec:
  assumes inv: "clients_inv sys" and step: "kv_exec ops ev sys = Some sys'"
  shows "clients_inv sys'"
proof (cases ev)
  case (CallPut c key v)
  with step start_client_inv [OF inv] show ?thesis by auto
next
  case (CallDelete c key)
  with step start_client_inv [OF inv] show ?thesis by auto
next
  case (Submit c)
  with step obtain cmd ch kv' rn' err where s: "sys_clients sys c = Some (Registered cmd ch)"
    "propose_submit ops (sys_kv sys) (sys_node sys) cmd = (kv', rn', err)"
    "sys' = sys\<lparr>sys_kv := kv', sys_node := rn', sys_clients := (sys_clients sys)(c \<mapsto>
         (case err of None \<Rightarrow> Waiting cmd ch | Some e \<Rightarrow> Returned cmd (Some e)))\<rparr>"
    by (auto split: option.splits client.splits prod.splits)
  have l: "kv_later sys sys'"
    using s(2,3) by (auto simp: propose_submit_def forget_def kv_later_def split: prod.splits sum.splits if_splits)
  have "client_ok sys' (case err of None \<Rightarrow> Waiting cmd ch | Some e \<Rightarrow> Returned cmd (Some e))"
    using client_ok_later [OF l clients_invD [OF inv s(1)]] by (auto split: option.split)
  then show ?thesis using s(3) by (intro clients_inv_step [OF inv l]) simp_all
next
  case (Await c w)
  with step obtain cmd ch kv' err where s: "sys_clients sys c = Some (Waiting cmd ch)"
    "propose_wait (sys_kv sys) (cmd_RequestID cmd) ch w = Some (kv', err)"
    "sys' = sys\<lparr>sys_kv := kv', sys_clients := (sys_clients sys)(c \<mapsto> Returned cmd err)\<rparr>"
    by (auto split: option.splits client.splits prod.splits)
  have l: "kv_later sys sys'" using wait_later [OF s(2)] s(3) by simp
  have "channel_ok sys cmd ch" using clients_invD [OF inv s(1)] by simp
  then have "client_ok sys' (Returned cmd err)"
    using s(2,3) by (auto simp: channel_ok_def propose_wait_def has_done_def split: wait_case.splits option.splits if_splits)
  moreover have "sys_clients sys' = (sys_clients sys)(c \<mapsto> Returned cmd err)" by (simp add: s(3))
  ultimately show ?thesis using clients_inv_step [OF inv l] by blast
next
  case HandleNext
  with step obtain msg rest kv' s' where s: "handleApplyMsg ops (sys_kv sys) (rn_storage (sys_node sys)) msg = (kv', s')"
    "sys' = sys\<lparr>sys_kv := kv', sys_node := (sys_node sys)\<lparr>rn_storage := s'\<rparr>,
       sys_inbox := rest, sys_handled := sys_handled sys @ [msg]\<rparr>"
    by (auto split: list.splits prod.splits if_splits)
  with handle_later [OF s(1)] inv show ?thesis by (intro clients_inv_keep [of sys sys']) simp_all
next
  case (StopServer order)
  with step have s: "sys' = sys\<lparr>sys_kv := (foldl (\<lambda>k ch. try_send ch closed_result k) (sys_kv sys) order)
        \<lparr>pendingOps := Map.empty, kv_stopCh := True, kv_applyLoops := 0\<rparr>\<rparr>"
    by (auto simp: KVServer_Stop_def split: if_splits)
  then have "kv_later sys sys'" by (auto simp: kv_later_def dest: close_all_chans)
  with s inv show ?thesis by (intro clients_inv_keep [of sys sys']) simp_all
next
  case NodeApply
  with step inv show ?thesis
    by (auto intro!: clients_inv_keep [OF inv] simp: kv_later_def split: prod.splits)
qed (use step in \<open>auto intro!: clients_inv_keep [OF inv] simp: kv_later_def set_raft_def\<close>)

section \<open>The content of the storage\<close>

section \<open>The store the process shares\<close>

text \<open>
  The contract between the two users of the storage object: \<open>live\<close> states accept the writes of the
  key-value server, and the calls of the Raft node leave the key-value content \<open>kv\<close> alone.
\<close>

definition same_kv :: "('s \<Rightarrow> bool) \<Rightarrow> ('s \<Rightarrow> bytes \<rightharpoonup> bytes) \<Rightarrow> 's \<Rightarrow> 's \<Rightarrow> bool" where
  "same_kv live kv s s' \<longleftrightarrow> (live s \<longrightarrow> live s' \<and> kv s' = kv s)"

text \<open>The key-value part of the storage holds the effects of the handled messages, in order.\<close>

definition content_inv ::
    "('s \<Rightarrow> bool) \<Rightarrow> ('s \<Rightarrow> bytes \<rightharpoonup> bytes) \<Rightarrow> (bytes \<rightharpoonup> bytes) \<Rightarrow> 's kv_system \<Rightarrow> bool" where
  "content_inv live kv m0 sys \<longleftrightarrow> live (rn_storage (sys_node sys))
     \<and> kv (rn_storage (sys_node sys)) = fold kv_effect (sys_handled sys) m0"

locale shared_store = storage_frame ops "same_kv live kv"
  for ops :: "'s storage_ops" and live :: "'s \<Rightarrow> bool" and kv :: "'s \<Rightarrow> bytes \<rightharpoonup> bytes" +
  assumes live_put: "live s \<Longrightarrow> \<exists>s'. op_Put ops s k v = (s', None) \<and> live s' \<and> kv s' = (kv s)(k \<mapsto> v)"
    and live_delete: "live s \<Longrightarrow> \<exists>s'. op_Delete ops s k = (s', None) \<and> live s' \<and> kv s' = (kv s)(k := None)"
begin

lemma content_keep:
  assumes "content_inv live kv m0 sys" "keeps (sys_node sys) (sys_node sys')" "sys_handled sys' = sys_handled sys"
  shows "content_inv live kv m0 sys'"
  using assms by (simp add: content_inv_def same_kv_def)

lemma applyCommand_effect:
  assumes "live s" "CommandValid msg" "\<not> SnapshotValid msg" "am_Command msg = Some cmd"
  shows "live (fst (applyCommand ops s cmd)) \<and> kv (fst (applyCommand ops s cmd)) = kv_effect msg (kv s)"
  using live_put [OF assms(1), of "cmd_Key cmd" "cmd_Value cmd"] live_delete [OF assms(1), of "cmd_Key cmd"] assms
  by (auto simp: applyCommand_def kv_effect_def)

lemma content_handle:
  assumes inv: "content_inv live kv m0 sys" and h: "handleApplyMsg ops (sys_kv sys) (rn_storage (sys_node sys)) msg = (kv', s')"
    "rn_storage (sys_node sys') = s'" "sys_handled sys' = sys_handled sys @ [msg]"
  shows "content_inv live kv m0 sys'"
proof -
  let ?m = "rn_storage (sys_node sys)"
  have "live s' \<and> kv s' = kv_effect msg (kv ?m)"
  proof (cases "SnapshotValid msg \<or> \<not> CommandValid msg \<or> am_Command msg = None")
    case True
    then have "s' = ?m" "kv_effect msg (kv ?m) = kv ?m"
      using h(1) by (auto simp: handleApplyMsg_def kv_effect_def split: if_splits)
    then show ?thesis using inv by (simp add: content_inv_def)
  next
    case False
    then obtain cmd where cmd: "am_Command msg = Some cmd" by auto
    with False h(1) have "s' = fst (applyCommand ops ?m cmd)"
      by (auto simp: handleApplyMsg_def split: prod.splits)
    then show ?thesis using applyCommand_effect [of ?m msg cmd] inv False cmd by (simp add: content_inv_def)
  qed
  then show ?thesis using inv h by (simp add: content_inv_def)
qed

lemma content_exec:
  assumes inv: "content_inv live kv m0 sys" and step: "kv_exec ops ev sys = Some sys'"
  shows "content_inv live kv m0 sys'"
proof (cases ev)
  case (Submit c)
  with step obtain cmd ch kv' rn' err where s: "propose_submit ops (sys_kv sys) (sys_node sys) cmd = (kv', rn', err)"
    "sys_node sys' = rn'" "sys_handled sys' = sys_handled sys"
    by (auto split: option.splits client.splits prod.splits)
  have "rn' = fst (Propose ops (sys_node sys) (Command_Encode cmd))"
    using s(1) by (auto simp: propose_submit_def split: prod.splits sum.splits)
  then show ?thesis using content_keep [OF inv] Propose_keeps s(2,3) by metis
next
  case HandleNext
  with step obtain msg rest kv' s' where "handleApplyMsg ops (sys_kv sys) (rn_storage (sys_node sys)) msg = (kv', s')"
    "rn_storage (sys_node sys') = s'" "sys_handled sys' = sys_handled sys @ [msg]"
    by (auto split: list.splits prod.splits if_splits)
  then show ?thesis by (rule content_handle [OF inv])
next
  case NodeApply
  then have "sys_node sys' = fst (applyLoop_pass ops (sys_node sys))" "sys_handled sys' = sys_handled sys"
    using step by (auto split: prod.splits)
  then show ?thesis using inv applyLoop_pass_keeps [of "sys_node sys"] by (simp add: content_inv_def)
qed (use step in \<open>auto intro!: content_keep [OF inv] frame_refl startElection_begin_keeps
      HandleRequestVote_keeps sendRequestVote_resp_keeps startElection_finish_keeps
      HandleAppendEntries_keeps sendAppendEntries_req_keeps sendAppendEntries_resp_keeps
      simp: set_raft_def start_client_def split: option.splits client.splits prod.splits if_splits\<close>)

lemma content_run: "content_inv live kv m0 sys \<Longrightarrow> kv_run ops evs sys = Some sys' \<Longrightarrow> content_inv live kv m0 sys'"
  by (induction evs arbitrary: sys) (auto split: option.splits intro: content_exec)

end

interpretation mem_shared: shared_store mem_ops "\<lambda>m. \<not> closed m" data
proof (unfold_locales, goal_cases)
  case (4 s es)
  show ?case using mem_frame.frame_append [of s es] by (simp add: same_data_def same_kv_def)
qed (simp_all add: same_kv_def mem_ops_def storage_defs Let_def)

section \<open>Runs\<close>

lemma clients_inv_run: "clients_inv sys \<Longrightarrow> kv_run ops evs sys = Some sys' \<Longrightarrow> clients_inv sys'"
  by (induction evs arbitrary: sys) (auto split: option.splits intro: clients_inv_exec)

lemma fresh_clients_inv: "fresh_system cfg sys \<Longrightarrow> clients_inv sys"
  by (auto simp: fresh_system_def NewKVServer_def KVServer_Start_def Let_def clients_inv_def split: if_splits)

end
