(* ===== verification/Raft_Spec.thy ===== *)
theory Raft_Spec
  imports Raft_Log Raft_Types
begin

text \<open>
  The specification of a Raft node: the state the protocol talks about, with the log as a map from
  indices to entries and no cache, storage, channels or errors, and one function per critical
  section of the implementation. \<open>Raft_Refine\<close> proves that the handlers of the implementation
  compute these functions; \<open>Raft_Safety\<close> proves the safety of a cluster of such nodes.
\<close>

section \<open>State\<close>

record spec_node =
  n_id :: node_id
  n_peers :: "node_id list"
  n_addrs :: "node_id \<rightharpoonup> string"
  n_term :: int64
  n_vote :: node_id
  n_role :: NodeState
  n_leader :: node_id
  n_log :: "int64 \<rightharpoonup> LogEntry"
  n_last :: int64
  n_commit :: int64
  n_applied :: int64
  n_next :: "node_id \<rightharpoonup> int64"
  n_match :: "node_id \<rightharpoonup> int64"

definition spec_ok :: "spec_node \<Rightarrow> bool" where
  "spec_ok n \<longleftrightarrow> interval_map 1 (n_last n) (n_log n) \<and> (\<forall>i e. n_log n i = Some e \<longrightarrow> le_Index e = i)"

definition last_term :: "spec_node \<Rightarrow> int64" where
  "last_term n = term_at (n_log n) (n_last n)"

definition quorum_of :: "node_id list \<Rightarrow> int" where
  "quorum_of ps = (int (length ps) + 1) div 2 + 1"

section \<open>Terms and votes\<close>

definition s_stepDown :: "int64 \<Rightarrow> spec_node \<Rightarrow> spec_node" where
  "s_stepDown t n = n\<lparr>n_term := t, n_vote := [], n_role := Follower\<rparr>"

definition up_to_date :: "int64 \<Rightarrow> int64 \<Rightarrow> int64 \<Rightarrow> int64 \<Rightarrow> bool" where
  "up_to_date lt li myt myi \<longleftrightarrow> myt < lt \<or> lt = myt \<and> myi \<le> li"

definition s_observe :: "int64 \<Rightarrow> spec_node \<Rightarrow> spec_node" where
  "s_observe t n = (if n_term n < t then s_stepDown t n else n)"

definition s_HandleRequestVote ::
    "RequestVoteRequest \<Rightarrow> spec_node \<Rightarrow> spec_node \<times> RequestVoteResponse" where
  "s_HandleRequestVote req n =
     (if rv_Term req < n_term n then (n, \<lparr>rvr_Term = n_term n, rvr_VoteGranted = False\<rparr>)
      else
        let n1 = s_observe (rv_Term req) n;
            grant = ((n_vote n1 = [] \<or> n_vote n1 = rv_CandidateId req)
                     \<and> up_to_date (rv_LastLogTerm req) (rv_LastLogIndex req) (last_term n) (n_last n))
        in (if grant then n1\<lparr>n_vote := rv_CandidateId req\<rparr> else n1,
            \<lparr>rvr_Term = rv_Term req, rvr_VoteGranted = grant\<rparr>))"

definition s_startElection :: "spec_node \<Rightarrow> spec_node" where
  "s_startElection n = n\<lparr>n_role := Candidate, n_term := n_term n + 1, n_vote := n_id n\<rparr>"

definition s_append :: "bytes \<Rightarrow> spec_node \<Rightarrow> spec_node" where
  "s_append cmd n =
     n\<lparr>n_log := (n_log n)(n_last n + 1 \<mapsto> \<lparr>le_Term = n_term n, le_Index = n_last n + 1, le_Command = cmd\<rparr>),
       n_last := n_last n + 1\<rparr>"

text \<open>The leader's bookkeeping of a peer starts after its own last entry; the rest is kept.\<close>

definition s_becomeLeader :: "spec_node \<Rightarrow> spec_node" where
  "s_becomeLeader n =
     s_append [] (n\<lparr>n_role := Leader, n_leader := n_id n,
       n_next := (\<lambda>p. if p \<in> set (n_peers n) then Some (n_last n + 1) else n_next n p),
       n_match := (\<lambda>p. if p \<in> set (n_peers n) then Some 0 else n_match n p)\<rparr>)"

definition s_voteResp :: "int64 \<Rightarrow> int \<Rightarrow> RequestVoteResponse \<Rightarrow> spec_node \<Rightarrow> spec_node \<times> int" where
  "s_voteResp t votes resp n =
     (if n_role n \<noteq> Candidate \<or> n_term n \<noteq> t then (n, votes)
      else if rvr_Term resp > n_term n then (s_stepDown (rvr_Term resp) n, votes)
      else if rvr_VoteGranted resp then
        (if votes + 1 \<ge> quorum_of (n_peers n) then s_becomeLeader n else n, votes + 1)
      else (n, votes))"

definition s_finish :: "int64 \<Rightarrow> int \<Rightarrow> spec_node \<Rightarrow> spec_node" where
  "s_finish t votes n =
     (if n_role n = Candidate \<and> n_term n = t \<and> votes \<ge> quorum_of (n_peers n) then s_becomeLeader n else n)"

section \<open>Replication\<close>

text \<open>The entries of a request replace what conflicts with them and leave the rest alone.\<close>

fun s_merge :: "LogEntry list \<Rightarrow> spec_node \<Rightarrow> spec_node" where
  "s_merge [] n = n"
| "s_merge (e # es) n =
     (case n_log n (le_Index e) of
        None \<Rightarrow> s_merge es (n\<lparr>n_log := (n_log n)(le_Index e \<mapsto> e), n_last := max (n_last n) (le_Index e)\<rparr>)
      | Some ex \<Rightarrow>
          if le_Term ex = le_Term e then s_merge es n
          else s_merge es (n\<lparr>n_log := (n_log n |` {..le_Index e - 1})(le_Index e \<mapsto> e), n_last := le_Index e\<rparr>))"

definition s_check_prev :: "AppendEntriesRequest \<Rightarrow> spec_node \<Rightarrow> (int64 \<times> int64) option" where
  "s_check_prev req n =
     (if ae_PrevLogIndex req \<le> 0 then None
      else case n_log n (ae_PrevLogIndex req) of
        None \<Rightarrow> Some (n_last n + 1, 0)
      | Some pe \<Rightarrow>
          if le_Term pe = ae_PrevLogTerm req then None
          else Some (first_of_term (n_log n) (n_last n) (le_Term pe), le_Term pe))"

definition s_advance :: "int64 \<Rightarrow> spec_node \<Rightarrow> spec_node" where
  "s_advance c n = (if c > n_commit n then n\<lparr>n_commit := min c (n_last n)\<rparr> else n)"

definition s_HandleAppendEntries ::
    "AppendEntriesRequest \<Rightarrow> spec_node \<Rightarrow> spec_node \<times> AppendEntriesResponse" where
  "s_HandleAppendEntries req n =
     (let fail = \<lparr>aer_Term = n_term n, aer_Success = False, aer_MatchIndex = 0,
                  aer_ConflictIndex = 0, aer_ConflictTerm = 0\<rparr>
      in if ae_Term req < n_term n then (n, fail)
         else
           let n1 = s_observe (ae_Term req) n;
               n2 = n1\<lparr>n_role := (if n_role n1 = Candidate then Follower else n_role n1),
                       n_leader := ae_LeaderId req\<rparr>
           in case s_check_prev req n2 of
                Some (ci, ct) \<Rightarrow>
                  (n2, fail\<lparr>aer_Term := ae_Term req, aer_ConflictIndex := ci, aer_ConflictTerm := ct\<rparr>)
              | None \<Rightarrow>
                  let n3 = s_advance (ae_LeaderCommit req)
                             (s_merge (convertProtoToLogEntries (ae_Entries req)) n2)
                  in (n3, fail\<lparr>aer_Term := ae_Term req, aer_Success := True, aer_MatchIndex := n_last n3\<rparr>))"

definition s_request :: "node_id \<Rightarrow> int64 \<Rightarrow> int64 \<Rightarrow> spec_node \<Rightarrow> AppendEntriesRequest option" where
  "s_request p t commit n =
     (if go_get_str (n_addrs n) p = [] \<or> n_role n \<noteq> Leader \<or> n_term n \<noteq> t then None
      else let ni = go_get (n_next n) p
           in Some \<lparr>ae_Term = t, ae_LeaderId = n_id n, ae_PrevLogIndex = ni - 1,
                    ae_PrevLogTerm = term_at (n_log n) (ni - 1),
                    ae_Entries = convertLogEntriesToProto (log_range (n_log n) ni (n_last n + 1)),
                    ae_LeaderCommit = commit\<rparr>)"

definition s_replicas :: "spec_node \<Rightarrow> int64 \<Rightarrow> int" where
  "s_replicas n k = 1 + int (length (filter (\<lambda>p. go_get (n_match n) p \<ge> k) (n_peers n)))"

definition s_committable :: "spec_node \<Rightarrow> int64 \<Rightarrow> bool" where
  "s_committable n k \<longleftrightarrow> term_at (n_log n) k = n_term n \<and> s_replicas n k \<ge> quorum_of (n_peers n)"

definition s_checkCommit :: "spec_node \<Rightarrow> spec_node" where
  "s_checkCommit n =
     (if n_role n \<noteq> Leader then n
      else n\<lparr>n_commit := last (n_commit n # filter (s_committable n) [n_commit n + 1..n_last n])\<rparr>)"

definition s_backup :: "node_id \<Rightarrow> AppendEntriesResponse \<Rightarrow> spec_node \<Rightarrow> spec_node" where
  "s_backup p resp n =
     (let ni = (if aer_ConflictTerm resp > 0 then
                  (case filter (\<lambda>i. term_at (n_log n) i = aer_ConflictTerm resp) (rev [1..n_last n]) of
                     [] \<Rightarrow> aer_ConflictIndex resp
                   | i # _ \<Rightarrow> i + 1)
                else if aer_ConflictIndex resp > 0 then aer_ConflictIndex resp
                else go_get (n_next n) p - 1)
      in if aer_ConflictTerm resp \<le> 0 \<and> aer_ConflictIndex resp \<le> 0 \<and> go_get (n_next n) p \<le> 1 then n
         else n\<lparr>n_next := (n_next n)(p \<mapsto> ni)\<rparr>)"

definition s_appendResp ::
    "node_id \<Rightarrow> int64 \<Rightarrow> int64 \<Rightarrow> nat \<Rightarrow> AppendEntriesResponse \<Rightarrow> spec_node \<Rightarrow> spec_node" where
  "s_appendResp p t prev k resp n =
     (if n_role n \<noteq> Leader \<or> n_term n \<noteq> t then n
      else if aer_Term resp > n_term n then s_stepDown (aer_Term resp) n
      else if aer_Success resp then
        let m = prev + int k
        in s_checkCommit (n\<lparr>n_match := (if m > go_get (n_match n) p then (n_match n)(p \<mapsto> m) else n_match n),
                            n_next := (n_next n)(p \<mapsto> m + 1)\<rparr>)
      else s_backup p resp n)"

definition s_Propose :: "bytes \<Rightarrow> spec_node \<Rightarrow> spec_node \<times> (int64 \<times> int64) option" where
  "s_Propose cmd n =
     (if n_role n \<noteq> Leader then (n, None) else (s_append cmd n, Some (n_last n + 1, n_term n)))"

section \<open>Applying and restarting\<close>

definition s_applied :: "spec_node \<Rightarrow> LogEntry list" where
  "s_applied n = log_range (n_log n) (n_applied n + 1) (n_commit n + 1)"

definition s_apply :: "spec_node \<Rightarrow> spec_node" where
  "s_apply n = n\<lparr>n_applied := max (n_applied n) (n_commit n)\<rparr>"

text \<open>What a node is after a restart: only the persistent part survives.\<close>

definition s_restart :: "spec_node \<Rightarrow> spec_node" where
  "s_restart n = n\<lparr>n_role := Follower, n_leader := [], n_commit := 0, n_applied := 0,
     n_next := Map.empty, n_match := Map.empty\<rparr>"

end
