(* ===== verification/Raft_Refine.thy ===== *)
theory Raft_Refine
  imports Raft_Spec Raft_Election Raft_RPC Raft_Replication
begin

text \<open>
  The critical sections of the implementation compute the functions of \<open>Raft_Spec\<close>, over any
  storage that meets the contract: for each of them, a node that satisfies the invariant
  \<open>node_ok\<close> is taken to one that satisfies it again, and the specification's view of the result
  is the specification's function of the view. The view forgets the cache, the channels and the
  goroutine counters.
\<close>

section \<open>Invariant and view\<close>

text \<open>
  The log is coherent with the storage and starts at index 1, no snapshot has been installed, and
  the term and vote in memory are the persisted ones.
\<close>

definition node_log_ok ::
    "('s \<Rightarrow> bool) \<Rightarrow> ('s \<Rightarrow> storage_abs) \<Rightarrow> ('s \<Rightarrow> int64 \<Rightarrow> bool) \<Rightarrow> 's RaftNode \<Rightarrow> bool" where
  "node_log_ok ok absf can_app rn \<longleftrightarrow>
     log_ok ok absf can_app (rn_storage rn) (rn_log rn)
     \<and> interval_map 1 (lastIndex (rn_log rn)) (a_log (absf (rn_storage rn)))
     \<and> a_snap (absf (rn_storage rn)) = None"

definition node_ok ::
    "('s \<Rightarrow> bool) \<Rightarrow> ('s \<Rightarrow> storage_abs) \<Rightarrow> ('s \<Rightarrow> int64 \<Rightarrow> bool) \<Rightarrow> 's RaftNode \<Rightarrow> bool" where
  "node_ok ok absf can_app rn \<longleftrightarrow> node_log_ok ok absf can_app rn
     \<and> a_state (absf (rn_storage rn)) = \<lparr>ps_CurrentTerm = currentTerm rn, ps_VotedFor = votedFor rn\<rparr>"

definition node_view :: "('s \<Rightarrow> storage_abs) \<Rightarrow> 's RaftNode \<Rightarrow> spec_node" where
  "node_view absf rn = \<lparr>n_id = rn_id rn, n_peers = peers rn, n_addrs = peerAddrs rn,
     n_term = currentTerm rn, n_vote = votedFor rn, n_role = nstate rn, n_leader = leaderId rn,
     n_log = a_log (absf (rn_storage rn)), n_last = lastIndex (rn_log rn),
     n_commit = commitIndex rn, n_applied = lastApplied rn,
     n_next = nextIndex rn, n_match = matchIndex rn\<rparr>"

lemma node_view_sel [simp]:
  "n_id (node_view absf rn) = rn_id rn" "n_peers (node_view absf rn) = peers rn"
  "n_addrs (node_view absf rn) = peerAddrs rn"
  "n_term (node_view absf rn) = currentTerm rn" "n_vote (node_view absf rn) = votedFor rn"
  "n_role (node_view absf rn) = nstate rn" "n_leader (node_view absf rn) = leaderId rn"
  "n_log (node_view absf rn) = a_log (absf (rn_storage rn))"
  "n_last (node_view absf rn) = lastIndex (rn_log rn)"
  "n_commit (node_view absf rn) = commitIndex rn" "n_applied (node_view absf rn) = lastApplied rn"
  "n_next (node_view absf rn) = nextIndex rn" "n_match (node_view absf rn) = matchIndex rn"
  by (simp_all add: node_view_def)

text \<open>The fields the invariant does not mention.\<close>

lemma node_ok_simps [simp]:
  "node_ok ok absf ca (rn\<lparr>nstate := x1\<rparr>) = node_ok ok absf ca rn"
  "node_ok ok absf ca (rn\<lparr>leaderId := x2\<rparr>) = node_ok ok absf ca rn"
  "node_ok ok absf ca (rn\<lparr>commitIndex := x3\<rparr>) = node_ok ok absf ca rn"
  "node_ok ok absf ca (rn\<lparr>lastApplied := x3\<rparr>) = node_ok ok absf ca rn"
  "node_ok ok absf ca (rn\<lparr>nextIndex := x4\<rparr>) = node_ok ok absf ca rn"
  "node_ok ok absf ca (rn\<lparr>matchIndex := x4\<rparr>) = node_ok ok absf ca rn"
  "node_ok ok absf ca (rn\<lparr>resetTimerCh := x5\<rparr>) = node_ok ok absf ca rn"
  "node_ok ok absf ca (rn\<lparr>newEntryCh := x5\<rparr>) = node_ok ok absf ca rn"
  "node_ok ok absf ca (rn\<lparr>stepDownCh := x5\<rparr>) = node_ok ok absf ca rn"
  "node_ok ok absf ca (rn\<lparr>leaderLoops := x6\<rparr>) = node_ok ok absf ca rn"
  by (simp_all add: node_ok_def node_log_ok_def)

lemma node_log_ok_simps [simp]:
  "node_log_ok ok absf ca (rn\<lparr>nstate := x1\<rparr>) = node_log_ok ok absf ca rn"
  "node_log_ok ok absf ca (rn\<lparr>currentTerm := x3\<rparr>) = node_log_ok ok absf ca rn"
  "node_log_ok ok absf ca (rn\<lparr>votedFor := x2\<rparr>) = node_log_ok ok absf ca rn"
  by (simp_all add: node_log_ok_def)

lemma node_view_simps [simp]:
  "node_view absf (rn\<lparr>nstate := x1\<rparr>) = (node_view absf rn)\<lparr>n_role := x1\<rparr>"
  "node_view absf (rn\<lparr>leaderId := x2\<rparr>) = (node_view absf rn)\<lparr>n_leader := x2\<rparr>"
  "node_view absf (rn\<lparr>commitIndex := x3\<rparr>) = (node_view absf rn)\<lparr>n_commit := x3\<rparr>"
  "node_view absf (rn\<lparr>lastApplied := x3\<rparr>) = (node_view absf rn)\<lparr>n_applied := x3\<rparr>"
  "node_view absf (rn\<lparr>nextIndex := x4\<rparr>) = (node_view absf rn)\<lparr>n_next := x4\<rparr>"
  "node_view absf (rn\<lparr>matchIndex := x4\<rparr>) = (node_view absf rn)\<lparr>n_match := x4\<rparr>"
  "node_view absf (rn\<lparr>resetTimerCh := x5\<rparr>) = node_view absf rn"
  "node_view absf (rn\<lparr>newEntryCh := x5\<rparr>) = node_view absf rn"
  "node_view absf (rn\<lparr>stepDownCh := x5\<rparr>) = node_view absf rn"
  "node_view absf (rn\<lparr>leaderLoops := x6\<rparr>) = node_view absf rn"
  "node_view absf (rn\<lparr>currentTerm := x3\<rparr>) = (node_view absf rn)\<lparr>n_term := x3\<rparr>"
  "node_view absf (rn\<lparr>votedFor := x2\<rparr>) = (node_view absf rn)\<lparr>n_vote := x2\<rparr>"
  by (simp_all add: node_view_def)

lemma node_view_match_same [simp]: "(node_view absf rn)\<lparr>n_match := matchIndex rn\<rparr> = node_view absf rn"
  by (simp add: node_view_def)

text \<open>A read of the log changes the cache at most.\<close>

lemma node_read:
  assumes "node_ok ok absf ca rn" "log_ok ok absf ca (rn_storage rn) l'" "lastIndex l' = lastIndex (rn_log rn)"
  shows "node_ok ok absf ca (rn\<lparr>rn_log := l'\<rparr>)" "node_view absf (rn\<lparr>rn_log := l'\<rparr>) = node_view absf rn"
  using assms by (simp_all add: node_ok_def node_log_ok_def node_view_def)

lemma node_ok_log: "node_ok ok absf ca rn \<Longrightarrow> log_ok ok absf ca (rn_storage rn) (rn_log rn)"
  by (simp add: node_ok_def node_log_ok_def)

lemma node_ok_log_ok: "node_ok ok absf ca rn \<Longrightarrow> node_log_ok ok absf ca rn"
  by (simp add: node_ok_def)

text \<open>Entries that follow an index without a gap, as every request of a leader has them.\<close>

fun follow :: "int64 \<Rightarrow> LogEntry list \<Rightarrow> bool" where
  "follow p [] = True"
| "follow p (e # es) = (le_Index e = p + 1 \<and> follow (p + 1) es)"

definition ae_wf :: "AppendEntriesRequest \<Rightarrow> bool" where
  "ae_wf req \<longleftrightarrow> 0 \<le> ae_PrevLogIndex req \<and> follow (ae_PrevLogIndex req) (convertProtoToLogEntries (ae_Entries req))"

lemma init_peer_indices_eq:
  "init_peer_indices li ps (nx, mt) =
     (\<lambda>p. if p \<in> set ps then Some (li + 1) else nx p, \<lambda>p. if p \<in> set ps then Some 0 else mt p)"
  by (induction li ps "(nx, mt)" arbitrary: nx mt rule: init_peer_indices.induct)
    (auto simp: fun_eq_iff)

lemma replicas_eq: "replicas rn k = s_replicas (node_view absf rn) k"
proof -
  have "foldl (\<lambda>c p. if go_get (matchIndex rn) p \<ge> k then c + 1 else c) a ps
      = a + int (length (filter (\<lambda>p. go_get (matchIndex rn) p \<ge> k) ps))" for a ps
    by (induction ps arbitrary: a) auto
  then show ?thesis by (simp add: replicas_def s_replicas_def)
qed

section \<open>Terms and votes\<close>

context storage
begin

abbreviation nok :: "'s RaftNode \<Rightarrow> bool" where
  "nok \<equiv> node_ok inv abs can_append"

abbreviation view :: "'s RaftNode \<Rightarrow> spec_node" where
  "view \<equiv> node_view abs"

abbreviation nlok :: "'s RaftNode \<Rightarrow> bool" where
  "nlok \<equiv> node_log_ok inv abs can_append"

lemma nok_spec_ok: "nok rn \<Longrightarrow> spec_ok (view rn)"
  using log_inv_index by (auto simp: node_ok_def node_log_ok_def spec_ok_def)

text \<open>Saving the pair of term and vote, whatever was saved before.\<close>

lemma persistState_refines:
  assumes "nlok rn" "rng (currentTerm rn)" "id_ok (votedFor rn)"
  shows "\<exists>rn'. persistState ops rn = (rn', None) \<and> nok rn' \<and> view rn' = view rn"
proof -
  have i: "inv (rn_storage rn)" using assms(1) by (simp add: node_log_ok_def log_ok_def)
  let ?ps = "\<lparr>ps_CurrentTerm = currentTerm rn, ps_VotedFor = votedFor rn\<rparr>"
  from save_state [OF i, of ?ps] assms(2,3) obtain s' where s': "op_SaveRaftState ops (rn_storage rn) ?ps = (s', None)"
    "inv s'" "abs s' = (abs (rn_storage rn))\<lparr>a_state := ?ps\<rparr>" by auto
  have "can_append s' k" if "can_append (rn_storage rn) k" for k
    using can_append_state [OF i that, of ?ps] s'(1) by simp
  with s' assms(1) show ?thesis
    by (auto simp: persistState_def node_ok_def node_log_ok_def log_ok_def node_view_def)
qed

lemma stepDown_refines:
  assumes "nok rn" "rng t"
  shows "nok (stepDown ops rn t) \<and> view (stepDown ops rn t) = s_stepDown t (view rn)"
proof -
  let ?rn = "rn\<lparr>currentTerm := t, votedFor := [], nstate := Follower\<rparr>"
  obtain rn' where "persistState ops ?rn = (rn', None)" "nok rn'" "view rn' = view ?rn"
    using persistState_refines [of ?rn] node_ok_log_ok [OF assms(1)] assms(2) no_id_ok by auto
  then show ?thesis by (simp add: stepDown_def s_stepDown_def signalStepDown_def)
qed

lemma observe_refines:
  assumes "nok rn" "rng t"
  shows "nok (if t > currentTerm rn then stepDown ops rn t else rn)
    \<and> view (if t > currentTerm rn then stepDown ops rn t else rn) = s_observe t (view rn)"
  using stepDown_refines [OF assms] assms by (simp add: s_observe_def)

lemma isLogUpToDate_refines:
  assumes "nok rn"
  shows "\<exists>rn'. isLogUpToDate ops rn li lt =
      (rn', up_to_date lt li (last_term (view rn)) (n_last (view rn)))
    \<and> nok rn' \<and> view rn' = view rn"
proof -
  obtain l' where l': "Log_LastTerm ops (rn_storage rn) (rn_log rn) = (l', last_term (view rn))"
    "log_inv (rn_storage rn) l'" "lastIndex l' = lastIndex (rn_log rn)"
    using Log_LastTerm_spec [OF node_ok_log [OF assms]] by (auto simp: last_term_def)
  with node_read [OF assms l'(2,3)] show ?thesis
    by (auto simp: isLogUpToDate_def Let_def up_to_date_def Log_LastIndex_def)
qed

lemma HandleRequestVote_refines:
  assumes "nok rn" "rng (rv_Term req)" "id_ok (rv_CandidateId req)"
  shows "\<exists>rn'. HandleRequestVote ops rn req = (rn', snd (s_HandleRequestVote req (view rn)))
    \<and> nok rn' \<and> view rn' = fst (s_HandleRequestVote req (view rn))"
proof (cases "rv_Term req < currentTerm rn")
  case True
  with assms show ?thesis by (simp add: HandleRequestVote_def s_HandleRequestVote_def)
next
  case False
  let ?rn1 = "if rv_Term req > currentTerm rn then stepDown ops rn (rv_Term req) else rn"
  have rn1: "nok ?rn1" "view ?rn1 = s_observe (rv_Term req) (view rn)"
    using observe_refines [OF assms(1,2)] by auto
  have ll: "last_term (view ?rn1) = last_term (view rn)" "n_last (view ?rn1) = n_last (view rn)"
    unfolding rn1 by (simp_all add: s_observe_def s_stepDown_def last_term_def)
  have t1: "currentTerm ?rn1 = rv_Term req"
    using False arg_cong [OF rn1(2), of n_term] by (simp add: s_observe_def s_stepDown_def split: if_splits)
  have v1: "votedFor ?rn1 = n_vote (s_observe (rv_Term req) (view rn))"
    using arg_cong [OF rn1(2), of n_vote] by simp
  obtain rn2 where rn2: "isLogUpToDate ops ?rn1 (rv_LastLogIndex req) (rv_LastLogTerm req) =
      (rn2, up_to_date (rv_LastLogTerm req) (rv_LastLogIndex req) (last_term (view rn)) (n_last (view rn)))"
    "nok rn2" "view rn2 = s_observe (rv_Term req) (view rn)"
    using isLogUpToDate_refines [OF rn1(1)] ll rn1(2) by metis
  have t2: "currentTerm rn2 = rv_Term req"
    using t1 arg_cong [OF rn2(3), of n_term] arg_cong [OF rn1(2), of n_term] by simp
  obtain rn3 where rn3: "persistState ops (rn2\<lparr>votedFor := rv_CandidateId req\<rparr>) = (rn3, None)" "nok rn3"
    "view rn3 = (s_observe (rv_Term req) (view rn))\<lparr>n_vote := rv_CandidateId req\<rparr>"
    using persistState_refines [of "rn2\<lparr>votedFor := rv_CandidateId req\<rparr>"] rn2(2,3)
      node_ok_log_ok [OF rn2(2)] t2 assms(2,3) by auto
  from False rn2 rn3 t1 v1 show ?thesis
    by (auto simp: HandleRequestVote_def s_HandleRequestVote_def Let_def resetElectionTimer_def)
qed

section \<open>Appending and elections\<close>

lemma node_append:
  assumes "nok rn" "1 \<le> le_Index e" "le_Index e \<le> lastIndex (rn_log rn) + 1" "rng (le_Term e)" "rng (le_Index e)"
  shows "\<exists>s' l'. Log_Append ops (rn_storage rn) (rn_log rn) e = ((s', l'), None)
    \<and> nok (rn\<lparr>rn_storage := s', rn_log := l'\<rparr>)
    \<and> view (rn\<lparr>rn_storage := s', rn_log := l'\<rparr>) = (view rn)\<lparr>n_log := (n_log (view rn))(le_Index e \<mapsto> e),
        n_last := max (n_last (view rn)) (le_Index e)\<rparr>"
proof -
  have im: "interval_map 1 (lastIndex (rn_log rn)) (lview (rn_storage rn))"
    using assms(1) by (simp add: node_ok_def node_log_ok_def)
  from Log_Append_spec [OF node_ok_log [OF assms(1)] im assms(2-5)] interval_map_upd [OF im assms(2,3)] assms(1)
  show ?thesis by (auto simp: node_ok_def node_log_ok_def node_view_def)
qed

lemma node_append_next:
  assumes "nok rn" "rng (currentTerm rn)" "rng (lastIndex (rn_log rn) + 1)"
  shows "\<exists>s' l'. Log_Append ops (rn_storage rn) (rn_log rn)
        \<lparr>le_Term = currentTerm rn, le_Index = Log_NextIndex (rn_log rn), le_Command = cmd\<rparr> = ((s', l'), None)
    \<and> nok (rn\<lparr>rn_storage := s', rn_log := l'\<rparr>)
    \<and> view (rn\<lparr>rn_storage := s', rn_log := l'\<rparr>) = s_append cmd (view rn)"
proof -
  let ?e = "\<lparr>le_Term = currentTerm rn, le_Index = Log_NextIndex (rn_log rn), le_Command = cmd\<rparr>"
  have "1 \<le> le_Index ?e" "le_Index ?e \<le> lastIndex (rn_log rn) + 1" "rng (le_Term ?e)" "rng (le_Index ?e)"
    using assms(2,3) log_inv_last_nonneg [OF node_ok_log [OF assms(1)]] by (simp_all add: Log_NextIndex_def)
  from node_append [OF assms(1) this] show ?thesis
    by (auto simp: s_append_def Log_NextIndex_def)
qed

lemma becomeLeader_refines:
  assumes "nok rn" "nstate rn = Candidate" "rng (currentTerm rn)" "rng (lastIndex (rn_log rn) + 1)"
  shows "nok (becomeLeader ops rn) \<and> view (becomeLeader ops rn) = s_becomeLeader (view rn)
    \<and> leaderLoops (becomeLeader ops rn) = Suc (leaderLoops rn) \<and> newEntryCh (becomeLeader ops rn)"
proof -
  let ?nx = "\<lambda>p. if p \<in> set (peers rn) then Some (lastIndex (rn_log rn) + 1) else nextIndex rn p"
  let ?mt = "\<lambda>p. if p \<in> set (peers rn) then Some 0 else matchIndex rn p"
  let ?rn = "rn\<lparr>nstate := Leader, leaderId := rn_id rn, nextIndex := ?nx, matchIndex := ?mt\<rparr>"
  obtain s' l' where *: "Log_Append ops (rn_storage rn) (rn_log rn)
      \<lparr>le_Term = currentTerm rn, le_Index = Log_NextIndex (rn_log rn), le_Command = []\<rparr> = ((s', l'), None)"
    "nok (?rn\<lparr>rn_storage := s', rn_log := l'\<rparr>)" "view (?rn\<lparr>rn_storage := s', rn_log := l'\<rparr>) = s_append [] (view ?rn)"
    using node_append_next [of ?rn "[]"] assms(1,3,4) by auto
  have "becomeLeader ops rn = triggerReplication (?rn\<lparr>rn_storage := s', rn_log := l', leaderLoops := Suc (leaderLoops rn)\<rparr>)"
    using assms(2) *(1) by (simp add: becomeLeader_def Let_def init_peer_indices_eq Log_LastIndex_def cong: if_cong)
  with *(2,3) show ?thesis by (simp add: s_becomeLeader_def triggerReplication_def cong: if_cong)
qed

lemma startElection_begin_refines:
  assumes "nok rn" "rng (currentTerm rn + 1)" "id_ok (rn_id rn)"
  shows "\<exists>rn'. startElection_begin ops rn =
      (rn', Some (currentTerm rn + 1, n_last (view rn), last_term (view rn)))
    \<and> nok rn' \<and> view rn' = s_startElection (view rn)"
proof -
  let ?rn = "rn\<lparr>nstate := Candidate, currentTerm := currentTerm rn + 1, votedFor := rn_id rn\<rparr>"
  obtain l' where l': "Log_LastTerm ops (rn_storage rn) (rn_log rn) = (l', last_term (view rn))"
    "log_inv (rn_storage rn) l'" "lastIndex l' = lastIndex (rn_log rn)"
    using Log_LastTerm_spec [OF node_ok_log [OF assms(1)]] by (auto simp: last_term_def)
  have "nlok (?rn\<lparr>rn_log := l'\<rparr>)" "view (?rn\<lparr>rn_log := l'\<rparr>) = s_startElection (view rn)"
    using node_ok_log_ok [OF assms(1)] l'(2,3) by (simp_all add: node_log_ok_def node_view_def s_startElection_def)
  with persistState_refines [of "?rn\<lparr>rn_log := l'\<rparr>"] assms(2,3) obtain rn' where "persistState ops (?rn\<lparr>rn_log := l'\<rparr>) = (rn', None)"
    "nok rn'" "view rn' = s_startElection (view rn)" by auto
  with l' show ?thesis
    by (simp add: startElection_begin_def Let_def Log_LastIndex_def resetElectionTimer_def)
qed

lemma sendRequestVote_resp_refines:
  assumes "nok rn" "rng (rvr_Term resp)" "rng (currentTerm rn)" "rng (lastIndex (rn_log rn) + 1)"
  shows "\<exists>rn'. sendRequestVote_resp ops rn t votes resp = (rn', snd (s_voteResp t votes resp (view rn)))
    \<and> nok rn' \<and> view rn' = fst (s_voteResp t votes resp (view rn))"
  using assms stepDown_refines [OF assms(1,2)] becomeLeader_refines [OF assms(1) _ assms(3,4)]
  by (simp add: sendRequestVote_resp_def s_voteResp_def Let_def quorumSize_def quorum_of_def)

lemma startElection_finish_refines:
  assumes "nok rn" "rng (currentTerm rn)" "rng (lastIndex (rn_log rn) + 1)"
  shows "nok (startElection_finish ops rn t votes) \<and>
    view (startElection_finish ops rn t votes) = s_finish t votes (view rn)"
  using assms becomeLeader_refines [OF assms(1) _ assms(2,3)]
  by (simp add: startElection_finish_def s_finish_def quorumSize_def quorum_of_def)

section \<open>AppendEntries\<close>

lemma check_prev_refines:
  assumes "nok rn"
  shows "\<exists>rn'. check_prev ops rn req = (rn', s_check_prev req (view rn)) \<and> nok rn' \<and> view rn' = view rn
    \<and> rn_storage rn' = rn_storage rn"
proof (cases "0 < ae_PrevLogIndex req \<and> ae_PrevLogIndex req \<le> lastIndex (rn_log rn)")
  case False
  with assms log_inv_None [OF node_ok_log [OF assms], of "ae_PrevLogIndex req"] show ?thesis
    by (auto simp: check_prev_def s_check_prev_def Log_LastIndex_def split: option.split)
next
  case True
  obtain l0 where l0: "Log_GetEntry ops (rn_storage rn) (rn_log rn) (ae_PrevLogIndex req) =
      (l0, lview (rn_storage rn) (ae_PrevLogIndex req))"
    "log_inv (rn_storage rn) l0" "lastIndex l0 = lastIndex (rn_log rn)"
    using Log_GetEntry_spec [OF node_ok_log [OF assms]] by blast
  show ?thesis
  proof (cases "lview (rn_storage rn) (ae_PrevLogIndex req)")
    case None
    with True l0 node_read [OF assms l0(2,3)] show ?thesis
      by (simp add: check_prev_def s_check_prev_def Log_LastIndex_def)
  next
    case (Some pe)
    obtain l1 where l1: "findFirstIndexOfTerm ops (rn_storage rn) l0 (le_Term pe) =
        (l1, first_of_term (lview (rn_storage rn)) (lastIndex (rn_log rn)) (le_Term pe))"
      "log_inv (rn_storage rn) l1" "lastIndex l1 = lastIndex (rn_log rn)"
      using findFirstIndexOfTerm_spec [OF l0(2)] l0(3) by metis
    from True Some l0 l1 node_read [OF assms l0(2,3)] node_read [OF assms l1(2,3)] show ?thesis
      by (simp add: check_prev_def s_check_prev_def Log_LastIndex_def)
  qed
qed

lemma node_truncate:
  assumes "nok rn" "0 \<le> i" "i < lastIndex (rn_log rn)"
  shows "\<exists>s' l'. Log_TruncateAfter ops (rn_storage rn) (rn_log rn) i = ((s', l'), None)
    \<and> nok (rn\<lparr>rn_storage := s', rn_log := l'\<rparr>)
    \<and> view (rn\<lparr>rn_storage := s', rn_log := l'\<rparr>) = (view rn)\<lparr>n_log := n_log (view rn) |` {..i}, n_last := i\<rparr>"
proof -
  have im: "interval_map 1 (lastIndex (rn_log rn)) (lview (rn_storage rn))"
    using assms(1) by (simp add: node_ok_def node_log_ok_def)
  have i: "1 \<le> i + 1" using assms(2) by simp
  from Log_TruncateAfter_spec [OF node_ok_log [OF assms(1)] im i assms(3)] interval_map_upto [OF im i] assms(1,3)
  show ?thesis by (auto simp: node_ok_def node_log_ok_def node_view_def)
qed

text \<open>One iteration of the loop over the entries.\<close>

lemma process_entry_refines:
  assumes ok: "nok rn" and e: "1 \<le> le_Index e" "le_Index e \<le> lastIndex (rn_log rn) + 1"
    and r: "rng (le_Term e)" "rng (le_Index e)"
  shows "\<exists>rn'. process_entries ops rn (e # es) = process_entries ops rn' es \<and> nok rn'
    \<and> s_merge (e # es) (view rn) = s_merge es (view rn') \<and> le_Index e \<le> lastIndex (rn_log rn')"
proof -
  obtain l0 where l0: "Log_GetEntry ops (rn_storage rn) (rn_log rn) (le_Index e) = (l0, lview (rn_storage rn) (le_Index e))"
    "log_inv (rn_storage rn) l0" "lastIndex l0 = lastIndex (rn_log rn)"
    using Log_GetEntry_spec [OF node_ok_log [OF ok]] by blast
  let ?rn0 = "rn\<lparr>rn_log := l0\<rparr>"
  have r0: "nok ?rn0" "view ?rn0 = view rn" using node_read [OF ok l0(2,3)] .
  show ?thesis
  proof (cases "lview (rn_storage rn) (le_Index e)")
    case None
    obtain s' l' where *: "Log_Append ops (rn_storage rn) l0 e = ((s', l'), None)"
      "nok (?rn0\<lparr>rn_storage := s', rn_log := l'\<rparr>)"
      "view (?rn0\<lparr>rn_storage := s', rn_log := l'\<rparr>) =
        (view rn)\<lparr>n_log := (n_log (view rn))(le_Index e \<mapsto> e), n_last := max (n_last (view rn)) (le_Index e)\<rparr>"
      using node_append [OF r0(1) e(1) _ r] e(2) l0(3) r0(2) by auto
    from arg_cong [OF *(3), of n_last] have "le_Index e \<le> lastIndex l'" by simp
    with None l0(1) * show ?thesis
      by (intro exI [of _ "?rn0\<lparr>rn_storage := s', rn_log := l'\<rparr>"]) simp
  next
    case (Some ex)
    then have le: "le_Index e \<le> lastIndex (rn_log rn)"
      using log_inv_None [OF node_ok_log [OF ok], of "le_Index e"] by fastforce
    show ?thesis
    proof (cases "le_Term ex = le_Term e")
      case True
      have "s_merge es (view ?rn0) = s_merge es (view rn)" by (simp only: r0(2))
      with True Some l0 r0 le show ?thesis by (intro exI [of _ ?rn0]) simp
    next
      case False
      obtain s1 l1 where 1: "Log_TruncateAfter ops (rn_storage rn) l0 (le_Index e - 1) = ((s1, l1), None)"
        "nok (?rn0\<lparr>rn_storage := s1, rn_log := l1\<rparr>)" "view (?rn0\<lparr>rn_storage := s1, rn_log := l1\<rparr>) =
          (view rn)\<lparr>n_log := n_log (view rn) |` {..le_Index e - 1}, n_last := le_Index e - 1\<rparr>"
        using node_truncate [OF r0(1), of "le_Index e - 1"] e(1) le l0(3) r0(2) by auto
      let ?rn1 = "?rn0\<lparr>rn_storage := s1, rn_log := l1\<rparr>"
      have "lastIndex l1 = le_Index e - 1" using arg_cong [OF 1(3), of n_last] by simp
      then obtain s2 l2 where 2: "Log_Append ops s1 l1 e = ((s2, l2), None)"
        "nok (?rn1\<lparr>rn_storage := s2, rn_log := l2\<rparr>)" "view (?rn1\<lparr>rn_storage := s2, rn_log := l2\<rparr>) =
          (view ?rn1)\<lparr>n_log := (n_log (view ?rn1))(le_Index e \<mapsto> e), n_last := max (n_last (view ?rn1)) (le_Index e)\<rparr>"
        using node_append [OF 1(2) e(1) _ r] by auto
      have v2: "view (?rn1\<lparr>rn_storage := s2, rn_log := l2\<rparr>) =
          (view rn)\<lparr>n_log := (n_log (view rn) |` {..le_Index e - 1})(le_Index e \<mapsto> e), n_last := le_Index e\<rparr>"
        unfolding 2(3) 1(3) by simp
      have "lastIndex l2 = le_Index e" using arg_cong [OF v2, of n_last] by simp
      with Some False l0(1) 1(1) 2(1,2) v2 show ?thesis
        by (intro exI [of _ "?rn1\<lparr>rn_storage := s2, rn_log := l2\<rparr>"]) simp
    qed
  qed
qed

lemma process_entries_refines:
  assumes "nok rn" "follow p es" "0 \<le> p" "p \<le> lastIndex (rn_log rn)" "\<forall>e\<in>set es. rng (le_Term e) \<and> rng (le_Index e)"
  shows "\<exists>rn'. process_entries ops rn es = (rn', True) \<and> nok rn' \<and> view rn' = s_merge es (view rn)"
  using assms
proof (induction es arbitrary: rn p)
  case (Cons e es)
  from Cons.prems obtain rn' where "process_entries ops rn (e # es) = process_entries ops rn' es" "nok rn'"
    "s_merge (e # es) (view rn) = s_merge es (view rn')" "p + 1 \<le> lastIndex (rn_log rn')"
    using process_entry_refines [of rn e es] by auto
  with Cons.IH [of rn' "p + 1"] Cons.prems show ?case by auto
qed simp

lemma HandleAppendEntries_refines:
  assumes "nok rn" "ae_wf req" "rng (ae_Term req)"
    "\<forall>e\<in>set (convertProtoToLogEntries (ae_Entries req)). rng (le_Term e) \<and> rng (le_Index e)"
  shows "\<exists>rn'. HandleAppendEntries ops rn req = (rn', snd (s_HandleAppendEntries req (view rn)))
    \<and> nok rn' \<and> view rn' = fst (s_HandleAppendEntries req (view rn))"
proof (cases "ae_Term req < currentTerm rn")
  case True
  with assms(1) show ?thesis by (simp add: HandleAppendEntries_def s_HandleAppendEntries_def)
next
  case False
  let ?rn1 = "if ae_Term req > currentTerm rn then stepDown ops rn (ae_Term req) else rn"
  let ?n1 = "s_observe (ae_Term req) (view rn)"
  let ?n2 = "?n1\<lparr>n_role := (if n_role ?n1 = Candidate then Follower else n_role ?n1), n_leader := ae_LeaderId req\<rparr>"
  let ?rn2 = "if nstate ?rn1 = Candidate then ?rn1\<lparr>nstate := Follower\<rparr> else ?rn1"
  let ?rn3 = "resetElectionTimer (?rn2\<lparr>leaderId := ae_LeaderId req\<rparr>)"
  have rn1: "nok ?rn1" "view ?rn1 = ?n1" using observe_refines [OF assms(1,3)] by auto
  have st: "nstate ?rn1 = n_role ?n1" using arg_cong [OF rn1(2), of n_role] by simp
  have rn3: "nok ?rn3" "view ?rn3 = ?n2"
    using rn1 st by (auto simp: resetElectionTimer_def)
  have t3: "currentTerm ?rn3 = ae_Term req"
    using False arg_cong [OF rn3(2), of n_term] by (simp add: s_observe_def s_stepDown_def split: if_splits)
  obtain rn4 where rn4: "check_prev ops ?rn3 req = (rn4, s_check_prev req ?n2)" "nok rn4" "view rn4 = ?n2"
    using check_prev_refines [OF rn3(1), of req] rn3(2) by metis
  show ?thesis
  proof (cases "s_check_prev req ?n2")
    case (Some cc)
    with False rn4 t3 show ?thesis
      by (simp add: HandleAppendEntries_def s_HandleAppendEntries_def Let_def split: prod.split)
  next
    case None
    have "ae_PrevLogIndex req \<le> lastIndex (rn_log rn4)"
    proof (cases "ae_PrevLogIndex req = 0")
      case True
      then show ?thesis using log_inv_last_nonneg [OF node_ok_log [OF rn4(2)]] by simp
    next
      case False
      have "s_check_prev req (view rn4) = None" using None rn4(3) by simp
      with False assms(2) have "lview (rn_storage rn4) (ae_PrevLogIndex req) \<noteq> None"
        by (auto simp: s_check_prev_def ae_wf_def split: option.splits)
      then show ?thesis using log_inv_None [OF node_ok_log [OF rn4(2)], of "ae_PrevLogIndex req"] by fastforce
    qed
    with process_entries_refines [OF rn4(2) _ _ _ assms(4)] assms(2) obtain rn5 where rn5:
      "process_entries ops rn4 (convertProtoToLogEntries (ae_Entries req)) = (rn5, True)" "nok rn5"
      "view rn5 = s_merge (convertProtoToLogEntries (ae_Entries req)) ?n2"
      using rn4(3) unfolding ae_wf_def by metis
    have "commitIndex rn5 = n_commit (view rn5)" "lastIndex (rn_log rn5) = n_last (view rn5)" by simp_all
    with False rn4(1) None rn5 t3 show ?thesis
      by (auto simp: HandleAppendEntries_def s_HandleAppendEntries_def Let_def Log_LastIndex_def s_advance_def min_def)
  qed
qed

section \<open>Replication by the leader\<close>

lemma node_get_term:
  assumes "nok rn"
  shows "\<exists>l'. Log_GetTerm ops (rn_storage rn) (rn_log rn) i = (l', term_at (n_log (view rn)) i)
    \<and> nok (rn\<lparr>rn_log := l'\<rparr>) \<and> view (rn\<lparr>rn_log := l'\<rparr>) = view rn \<and> lastIndex l' = lastIndex (rn_log rn)"
  using Log_GetTerm_spec [OF node_ok_log [OF assms], of i] node_read [OF assms] by auto

lemma sendAppendEntries_req_refines:
  assumes "nok rn" "1 \<le> go_get (nextIndex rn) p"
  shows "\<exists>rn'. sendAppendEntries_req ops rn p t commit = (rn', s_request p t commit (view rn))
    \<and> nok rn' \<and> view rn' = view rn"
proof -
  let ?ni = "go_get (nextIndex rn) p"
  obtain l' where l': "Log_GetTerm ops (rn_storage rn) (rn_log rn) (?ni - 1) = (l', term_at (lview (rn_storage rn)) (?ni - 1))"
    "log_inv (rn_storage rn) l'" "lastIndex l' = lastIndex (rn_log rn)"
    using Log_GetTerm_spec [OF node_ok_log [OF assms(1)]] by blast
  have "(if ?ni \<le> lastIndex l' then Log_GetEntries ops (rn_storage rn) l' ?ni (lastIndex l' + 1) else [])
      = log_range (lview (rn_storage rn)) ?ni (lastIndex (rn_log rn) + 1)"
    using Log_GetEntries_spec [OF l'(2) assms(2)] l'(3) by (simp add: log_range_def map_filter_simps)
  with assms(1) l' node_read [OF assms(1) l'(2,3)] show ?thesis
    by (auto simp: sendAppendEntries_req_def s_request_def Let_def Log_LastIndex_def GetPeerAddr_def)
qed

lemma checkCommit_loop_refines:
  assumes "nok rn"
  shows "nok (checkCommit_loop ops rn ns) \<and> view (checkCommit_loop ops rn ns) =
    (view rn)\<lparr>n_commit := last (commitIndex rn # filter (s_committable (view rn)) ns)\<rparr>"
  using assms
proof (induction ns arbitrary: rn)
  case (Cons k ns)
  obtain l' where l': "Log_GetTerm ops (rn_storage rn) (rn_log rn) k = (l', term_at (n_log (view rn)) k)"
    "nok (rn\<lparr>rn_log := l'\<rparr>)" "view (rn\<lparr>rn_log := l'\<rparr>) = view rn"
    using node_get_term [OF Cons.prems] by blast
  let ?rn = "rn\<lparr>rn_log := l'\<rparr>"
  have c: "s_committable ((view rn)\<lparr>n_commit := k\<rparr>) = s_committable (view rn)"
    by (simp add: s_committable_def s_replicas_def fun_eq_iff)
  have r: "replicas ?rn k = s_replicas (view rn) k" "quorumSize ?rn = quorum_of (peers rn)"
    using replicas_eq [of ?rn k abs] l'(3) by (simp_all add: quorumSize_def quorum_of_def)
  have "view (?rn\<lparr>commitIndex := k\<rparr>) = (view rn)\<lparr>n_commit := k\<rparr>" using l'(3) by simp
  with Cons.IH [of ?rn] Cons.IH [of "?rn\<lparr>commitIndex := k\<rparr>"] l' r c show ?case
    by (simp add: Let_def s_committable_def)
qed (simp add: node_view_def)

lemma checkCommit_refines:
  assumes "nok rn"
  shows "nok (checkCommit ops rn) \<and> view (checkCommit ops rn) = s_checkCommit (view rn)"
  using checkCommit_loop_refines [OF assms] assms
  by (simp add: checkCommit_def s_checkCommit_def Log_LastIndex_def)

lemma find_last_loop_spec:
  assumes "log_inv s l"
  shows "\<exists>l'. find_last_loop ops s t l is =
      (l', case filter (\<lambda>i. term_at (lview s) i = t) is of [] \<Rightarrow> 0 | i # _ \<Rightarrow> i)
      \<and> log_inv s l' \<and> lastIndex l' = lastIndex l"
  using assms
proof (induction "is" arbitrary: l)
  case (Cons i "is")
  obtain l' where "Log_GetTerm ops s l i = (l', term_at (lview s) i)" "log_inv s l'" "lastIndex l' = lastIndex l"
    using Log_GetTerm_spec [OF Cons.prems] by blast
  with Cons.IH [of l'] show ?case by (auto simp: Let_def)
qed auto

lemma backup_nextIndex_refines:
  assumes "nok rn"
  shows "nok (backup_nextIndex ops rn p resp) \<and> view (backup_nextIndex ops rn p resp) = s_backup p resp (view rn)"
proof (cases "aer_ConflictTerm resp > 0")
  case False
  with assms show ?thesis by (simp add: backup_nextIndex_def s_backup_def Let_def)
next
  case True
  let ?xs = "filter (\<lambda>i. term_at (lview (rn_storage rn)) i = aer_ConflictTerm resp) (rev [1..lastIndex (rn_log rn)])"
  obtain l' where l': "find_last_loop ops (rn_storage rn) (aer_ConflictTerm resp) (rn_log rn) (rev [1..lastIndex (rn_log rn)])
      = (l', case ?xs of [] \<Rightarrow> 0 | i # _ \<Rightarrow> i)" "log_inv (rn_storage rn) l'" "lastIndex l' = lastIndex (rn_log rn)"
    using find_last_loop_spec [OF node_ok_log [OF assms]] by blast
  have "0 < i" if "?xs = i # ys" for i ys
  proof -
    from that have "i \<in> set ?xs" by (metis list.set_intros(1))
    then show ?thesis by simp
  qed
  with True l'(1) node_read [OF assms l'(2,3)] show ?thesis
    by (auto simp: backup_nextIndex_def s_backup_def Let_def Log_LastIndex_def split: list.splits)
qed

lemma sendAppendEntries_resp_refines:
  assumes "nok rn" "rng (aer_Term resp)"
  shows "nok (sendAppendEntries_resp ops rn p t prev k resp)
    \<and> view (sendAppendEntries_resp ops rn p t prev k resp) = s_appendResp p t prev k resp (view rn)"
proof -
  let ?m = "prev + int k"
  let ?nx = "(nextIndex rn)(p \<mapsto> ?m + 1)"
  show ?thesis
  proof (cases "?m > go_get (matchIndex rn) p")
    case True
    with checkCommit_refines [of "rn\<lparr>matchIndex := (matchIndex rn)(p \<mapsto> ?m), nextIndex := ?nx\<rparr>"]
      assms stepDown_refines [OF assms] backup_nextIndex_refines [OF assms(1)] show ?thesis
      by (simp add: sendAppendEntries_resp_def s_appendResp_def Let_def)
  next
    case False
    with checkCommit_refines [of "rn\<lparr>nextIndex := ?nx\<rparr>"]
      assms stepDown_refines [OF assms] backup_nextIndex_refines [OF assms(1)] show ?thesis
      by (simp add: sendAppendEntries_resp_def s_appendResp_def Let_def)
  qed
qed

lemma Propose_refines:
  assumes "nok rn" "rng (currentTerm rn)" "rng (lastIndex (rn_log rn) + 1)"
  shows "\<exists>rn'. Propose ops rn cmd = (rn', case snd (s_Propose cmd (view rn)) of
        None \<Rightarrow> Inl (ErrNotLeaderWithHint (leaderId rn) (go_get_str (peerAddrs rn) (leaderId rn)))
      | Some it \<Rightarrow> Inr it)
    \<and> nok rn' \<and> view rn' = fst (s_Propose cmd (view rn))"
  using node_append_next [OF assms, of cmd] assms
  by (auto simp: Propose_def s_Propose_def triggerReplication_def Log_NextIndex_def)

section \<open>Applying and restarting\<close>

lemma applyLoop_collect_refines:
  assumes "nok rn" "\<And>i. i \<in> set is \<Longrightarrow> lview (rn_storage rn) i \<noteq> None"
  shows "\<exists>rn'. applyLoop_collect ops rn is = (rn', map (\<lambda>i. apply_msg (the (lview (rn_storage rn) i))) is)
    \<and> nok rn' \<and> view rn' = (view rn)\<lparr>n_applied := last (lastApplied rn # is)\<rparr>"
  using assms
proof (induction "is" arbitrary: rn)
  case Nil
  then show ?case by (simp add: node_view_def)
next
  case (Cons i "is")
  let ?rn = "rn\<lparr>lastApplied := i\<rparr>"
  obtain l' where l': "Log_GetEntry ops (rn_storage rn) (rn_log rn) i = (l', lview (rn_storage rn) i)"
    "log_inv (rn_storage rn) l'" "lastIndex l' = lastIndex (rn_log rn)"
    using Log_GetEntry_spec [OF node_ok_log [OF Cons.prems(1)]] by blast
  have r: "nok (?rn\<lparr>rn_log := l'\<rparr>)" "view (?rn\<lparr>rn_log := l'\<rparr>) = (view rn)\<lparr>n_applied := i\<rparr>"
    using node_read [of inv abs can_append ?rn l'] l' Cons.prems(1) by auto
  from Cons.prems(2) [of i] obtain e where "lview (rn_storage rn) i = Some e" by auto
  with Cons.IH [of "?rn\<lparr>rn_log := l'\<rparr>"] Cons.prems(2) r l'(1) show ?case by (auto simp: Let_def)
qed

lemma applyLoop_pass_refines:
  assumes "nok rn" "0 \<le> lastApplied rn" "commitIndex rn \<le> lastIndex (rn_log rn)"
  shows "\<exists>rn'. applyLoop_pass ops rn = (rn', map apply_msg (s_applied (view rn))) \<and> nok rn' \<and> view rn' = s_apply (view rn)"
proof -
  let ?is = "[lastApplied rn + 1..commitIndex rn]"
  have some: "lview (rn_storage rn) i \<noteq> None" if "i \<in> set ?is" for i
    using that assms interval_map_None [of 1 "lastIndex (rn_log rn)" "lview (rn_storage rn)" i]
    by (auto simp: node_ok_def node_log_ok_def)
  then have "s_applied (view rn) = map (\<lambda>i. the (lview (rn_storage rn) i)) ?is"
    unfolding s_applied_def log_range_def map_filter_the by (subst filter_True) auto
  moreover have "last (lastApplied rn # ?is) = max (lastApplied rn) (commitIndex rn)"
  proof (cases "lastApplied rn < commitIndex rn")
    case True
    then have "?is = [lastApplied rn + 1..commitIndex rn - 1] @ [commitIndex rn]" by (simp add: upto_rec2)
    with True show ?thesis by simp
  qed simp
  ultimately show ?thesis using applyLoop_collect_refines [OF assms(1), of ?is] some
    by (auto simp: applyLoop_pass_def s_apply_def comp_def)
qed

text \<open>A restart on the same storage finds the persistent state and nothing else.\<close>

lemma NewRaftNode_restart:
  assumes "nok rn" "rn_id rn \<noteq> []"
    and cfg: "cfg_ID cfg = rn_id rn" "cfg_Peers cfg = peers rn" "cfg_PeerAddrs cfg = peerAddrs rn"
      "cfg_Storage cfg = Some (rn_storage rn)" "cfg_Transport cfg \<noteq> None"
  shows "\<exists>rn'. NewRaftNode ops cfg = Inr rn' \<and> nok rn' \<and> view rn' = s_restart (view rn)"
proof -
  let ?s = "rn_storage rn" and ?n = "lastIndex (rn_log rn)"
  have s: "inv ?s" "interval_map 1 ?n (lview ?s)" "a_snap (abs ?s) = None"
    "a_state (abs ?s) = \<lparr>ps_CurrentTerm = currentTerm rn, ps_VotedFor = votedFor rn\<rparr>"
    using assms(1) by (auto simp: node_ok_def node_log_ok_def log_ok_def)
  have "?n = 0" if "lview ?s = Map.empty" using s(2) that by (auto simp: interval_map_def)
  then have "lview ?s = Map.empty \<longrightarrow> can_append ?s 1"
    using assms(1) by (auto simp: node_ok_def node_log_ok_def log_ok_def)
  from NewLog_spec [OF s(1-3) this] have nl: "log_inv ?s (NewLog ops ?s)" "lastIndex (NewLog ops ?s) = ?n" by auto
  have gl: "\<exists>t. op_GetLastLogIndexAndTerm ops ?s = Inr (?n, t)"
  proof (cases "?n = 0")
    case True
    then show ?thesis using s get_last_empty [of ?s] by (auto simp: interval_map_def)
  next
    case False
    then obtain e where "lview ?s ?n = Some e" using s(2) interval_map_Some [OF s(2), of ?n] by (auto simp: interval_map_def)
    then show ?thesis using get_last_nonempty [OF s(1,2)] by auto
  qed
  have same: "log_inv ?s ((NewLog ops ?s)\<lparr>lastIndex := ?n\<rparr>)" using nl by (simp add: log_ok_def)
  from gl assms(2) cfg load_state [OF s(1)] s nl same show ?thesis
    by (auto simp: NewRaftNode_def restoreState_def Let_def node_ok_def node_log_ok_def node_view_def s_restart_def)
qed

end

end
