(* ===== verification/Raft_Cluster.thy ===== *)
theory Raft_Cluster
  imports Raft_Refine
begin

text \<open>
  A cluster of nodes that run the goroutines of \<^verbatim>\<open>internal/raft\<close> against a network. The
  atomic steps are the critical sections of \<^verbatim>\<open>RaftNode.mu\<close>; between two of them any other
  goroutine of any node may run. The same transition system is instantiated with the handlers of the
  implementation (\<open>impl_ops\<close>) and with the functions of \<open>Raft_Spec\<close> (\<open>spec_ops\<close>).

  The network may lose, delay, reorder and duplicate: a request or a response stays available once
  it was sent. A message for a peer reaches that peer and no other node, which is what
  \<^verbatim>\<open>peerAddrs\<close> is for. The scheduling of the timers and of the leader loop is
  over-approximated: a node may start an election, and a leader may send a round of heartbeats, at
  any moment. A restart may happen between any two critical sections and keeps the storage only.
\<close>

section \<open>What a node can do\<close>

record 'n node_ops =
  o_peers :: "'n \<Rightarrow> node_id list"
  o_begin :: "'n \<Rightarrow> 'n \<times> (int64 \<times> int64 \<times> int64) option"
  o_votereq :: "'n \<Rightarrow> node_id \<Rightarrow> int64 \<times> int64 \<times> int64 \<Rightarrow> RequestVoteRequest option"
  o_vote :: "'n \<Rightarrow> RequestVoteRequest \<Rightarrow> 'n \<times> RequestVoteResponse"
  o_voteresp :: "'n \<Rightarrow> int64 \<Rightarrow> int \<Rightarrow> RequestVoteResponse \<Rightarrow> 'n \<times> int"
  o_finish :: "'n \<Rightarrow> int64 \<Rightarrow> int \<Rightarrow> 'n"
  o_beat :: "'n \<Rightarrow> (int64 \<times> int64 \<times> node_id list) option"
  o_request :: "'n \<Rightarrow> node_id \<Rightarrow> int64 \<Rightarrow> int64 \<Rightarrow> 'n \<times> AppendEntriesRequest option"
  o_append :: "'n \<Rightarrow> AppendEntriesRequest \<Rightarrow> 'n \<times> AppendEntriesResponse"
  o_appendresp :: "'n \<Rightarrow> node_id \<Rightarrow> int64 \<Rightarrow> int64 \<Rightarrow> nat \<Rightarrow> AppendEntriesResponse \<Rightarrow> 'n"
  o_propose :: "'n \<Rightarrow> bytes \<Rightarrow> 'n"
  o_apply :: "'n \<Rightarrow> 'n \<times> ApplyMsg list"
  o_restart :: "'n \<Rightarrow> 'n option"

text \<open>The configuration a process is restarted with: the same one, on the storage it left behind.\<close>

definition restart_config :: "'s RaftNode \<Rightarrow> 's RaftConfig" where
  "restart_config rn = \<lparr>cfg_ID = rn_id rn, cfg_Peers = peers rn, cfg_PeerAddrs = peerAddrs rn,
     cfg_Storage = Some (rn_storage rn), cfg_Transport = Some (), cfg_ApplyCh = Some 100,
     cfg_ElectionTimeoutMin = electionTimeoutMin rn, cfg_ElectionTimeoutMax = electionTimeoutMax rn,
     cfg_HeartbeatInterval = heartbeatInterval rn\<rparr>"

definition impl_ops :: "'s storage_ops \<Rightarrow> 's RaftNode node_ops" where
  "impl_ops ops = \<lparr>o_peers = peers, o_begin = startElection_begin ops, o_votereq = sendRequestVote_req,
     o_vote = HandleRequestVote ops, o_voteresp = sendRequestVote_resp ops,
     o_finish = startElection_finish ops, o_beat = sendHeartbeats,
     o_request = sendAppendEntries_req ops, o_append = HandleAppendEntries ops,
     o_appendresp = sendAppendEntries_resp ops, o_propose = (\<lambda>rn cmd. fst (Propose ops rn cmd)),
     o_apply = applyLoop_pass ops,
     o_restart = (\<lambda>rn. case NewRaftNode ops (restart_config rn) of Inl _ \<Rightarrow> None | Inr rn' \<Rightarrow> Some rn')\<rparr>"

definition s_votereq :: "spec_node \<Rightarrow> node_id \<Rightarrow> int64 \<times> int64 \<times> int64 \<Rightarrow> RequestVoteRequest option" where
  "s_votereq n p captured = (case captured of (t, li, lt) \<Rightarrow>
     if go_get_str (n_addrs n) p = [] then None
     else Some \<lparr>rv_Term = t, rv_CandidateId = n_id n, rv_LastLogIndex = li, rv_LastLogTerm = lt\<rparr>)"

definition spec_ops :: "spec_node node_ops" where
  "spec_ops = \<lparr>o_peers = n_peers,
     o_begin = (\<lambda>n. (s_startElection n, Some (n_term n + 1, n_last n, last_term n))),
     o_votereq = s_votereq,
     o_vote = (\<lambda>n req. s_HandleRequestVote req n), o_voteresp = (\<lambda>n t v r. s_voteResp t v r n),
     o_finish = (\<lambda>n t v. s_finish t v n),
     o_beat = (\<lambda>n. if n_role n \<noteq> Leader then None else Some (n_term n, n_commit n, n_peers n)),
     o_request = (\<lambda>n p t c. (n, s_request p t c n)), o_append = (\<lambda>n req. s_HandleAppendEntries req n),
     o_appendresp = (\<lambda>n p t prev k r. s_appendResp p t prev k r n),
     o_propose = (\<lambda>n cmd. fst (s_Propose cmd n)),
     o_apply = (\<lambda>n. (s_apply n, map apply_msg (s_applied n))),
     o_restart = (\<lambda>n. Some (s_restart n))\<rparr>"

section \<open>The cluster and its steps\<close>

text \<open>
  \<open>elections C i t\<close> is what the goroutines of the election of node \<open>i\<close> in term \<open>t\<close> share: the
  captured last index and term, the vote counter and the peers that have not answered.
  \<open>beats\<close> holds the pending calls of \<^verbatim>\<open>sendAppendEntries\<close>. \<open>applied\<close> is what a node has
  sent on \<^verbatim>\<open>applyCh\<close> since it started, \<open>delivered\<close> what any node ever sent.
\<close>

record session =
  ses_li :: int64
  ses_lt :: int64
  ses_votes :: int
  ses_waiting :: "node_id list"

record 'n cluster =
  nodes :: "node_id \<Rightarrow> 'n"
  elections :: "node_id \<Rightarrow> int64 \<rightharpoonup> session"
  rvreqs :: "(node_id \<times> RequestVoteRequest) set"
  rvresps :: "(node_id \<times> RequestVoteRequest \<times> RequestVoteResponse) set"
  beats :: "(node_id \<times> node_id \<times> int64 \<times> int64) set"
  aereqs :: "(node_id \<times> AppendEntriesRequest) set"
  aeresps :: "(node_id \<times> AppendEntriesRequest \<times> AppendEntriesResponse) set"
  applied :: "node_id \<Rightarrow> ApplyMsg list"
  delivered :: "(node_id \<times> ApplyMsg) set"

definition set_node :: "node_id \<Rightarrow> 'n \<Rightarrow> 'n cluster \<Rightarrow> 'n cluster" where
  "set_node i n C = C\<lparr>nodes := (nodes C)(i := n)\<rparr>"

definition set_session :: "node_id \<Rightarrow> int64 \<Rightarrow> session \<Rightarrow> 'n cluster \<Rightarrow> 'n cluster" where
  "set_session i t ses C = C\<lparr>elections := (elections C)(i := (elections C i)(t \<mapsto> ses))\<rparr>"

text \<open>The requests of an election: one goroutine per peer, none for a peer without an address.\<close>

definition vote_requests ::
    "'n node_ops \<Rightarrow> 'n \<Rightarrow> int64 \<times> int64 \<times> int64 \<Rightarrow> node_id list \<Rightarrow> (node_id \<times> RequestVoteRequest) list" where
  "vote_requests N n cap ps = List.map_filter (\<lambda>p. map_option (Pair p) (o_votereq N n p cap)) ps"

lemma set_vote_requests [simp]:
  "set (vote_requests N n cap ps) = {(p, req) | p req. p \<in> set ps \<and> o_votereq N n p cap = Some req}"
  by (force simp: vote_requests_def map_filter_the split: option.splits)

datatype event =
    ElectionTimeout node_id
  | DeliverVoteRequest node_id RequestVoteRequest
  | ReceiveVote node_id RequestVoteRequest RequestVoteResponse
  | FinishElection node_id int64
  | Heartbeat node_id
  | SendAppend node_id node_id int64 int64
  | DeliverAppend node_id AppendEntriesRequest
  | ReceiveAppend node_id AppendEntriesRequest AppendEntriesResponse
  | ClientPropose node_id bytes
  | ApplyCommitted node_id
  | Restart node_id

fun exec :: "'n node_ops \<Rightarrow> node_id set \<Rightarrow> event \<Rightarrow> 'n cluster \<Rightarrow> 'n cluster option" where
  "exec N S (ElectionTimeout i) C =
     (if i \<notin> S then None
      else case o_begin N (nodes C i) of
        (n', None) \<Rightarrow> Some (set_node i n' C)
      | (n', Some (t, li, lt)) \<Rightarrow>
          Some (set_node i n' (set_session i t
            \<lparr>ses_li = li, ses_lt = lt, ses_votes = 1, ses_waiting = o_peers N (nodes C i)\<rparr>
            (C\<lparr>rvreqs := rvreqs C \<union> set (vote_requests N n' (t, li, lt) (o_peers N (nodes C i)))\<rparr>))))"
| "exec N S (DeliverVoteRequest p req) C =
     (if (p, req) \<notin> rvreqs C then None
      else case o_vote N (nodes C p) req of
        (n', resp) \<Rightarrow> Some (set_node p n' (C\<lparr>rvresps := insert (p, req, resp) (rvresps C)\<rparr>)))"
| "exec N S (ReceiveVote p req resp) C =
     (if (p, req, resp) \<notin> rvresps C then None
      else case elections C (rv_CandidateId req) (rv_Term req) of
        None \<Rightarrow> None
      | Some ses \<Rightarrow>
          if p \<notin> set (ses_waiting ses) then None
          else case o_voteresp N (nodes C (rv_CandidateId req)) (rv_Term req) (ses_votes ses) resp of
            (n', v') \<Rightarrow> Some (set_node (rv_CandidateId req) n' (set_session (rv_CandidateId req) (rv_Term req)
               (ses\<lparr>ses_votes := v', ses_waiting := remove1 p (ses_waiting ses)\<rparr>) C)))"
| "exec N S (FinishElection i t) C =
     (case elections C i t of
        None \<Rightarrow> None
      | Some ses \<Rightarrow> Some (set_node i (o_finish N (nodes C i) t (ses_votes ses)) C))"
| "exec N S (Heartbeat i) C =
     (if i \<notin> S then None
      else case o_beat N (nodes C i) of
        None \<Rightarrow> None
      | Some (t, c, ps) \<Rightarrow> Some (C\<lparr>beats := beats C \<union> (\<lambda>p. (i, p, t, c)) ` set ps\<rparr>))"
| "exec N S (SendAppend i p t c) C =
     (if (i, p, t, c) \<notin> beats C then None
      else case o_request N (nodes C i) p t c of
        (n', None) \<Rightarrow> Some (set_node i n' C)
      | (n', Some req) \<Rightarrow> Some (set_node i n' (C\<lparr>aereqs := insert (p, req) (aereqs C)\<rparr>)))"
| "exec N S (DeliverAppend p req) C =
     (if (p, req) \<notin> aereqs C then None
      else case o_append N (nodes C p) req of
        (n', resp) \<Rightarrow> Some (set_node p n' (C\<lparr>aeresps := insert (p, req, resp) (aeresps C)\<rparr>)))"
| "exec N S (ReceiveAppend p req resp) C =
     (if (p, req, resp) \<notin> aeresps C then None
      else Some (set_node (ae_LeaderId req)
        (o_appendresp N (nodes C (ae_LeaderId req)) p (ae_Term req) (ae_PrevLogIndex req)
           (length (ae_Entries req)) resp) C))"
| "exec N S (ClientPropose i cmd) C =
     (if i \<notin> S then None else Some (set_node i (o_propose N (nodes C i) cmd) C))"
| "exec N S (ApplyCommitted i) C =
     (if i \<notin> S then None
      else case o_apply N (nodes C i) of
        (n', msgs) \<Rightarrow> Some (set_node i n' (C\<lparr>applied := (applied C)(i := applied C i @ msgs),
           delivered := delivered C \<union> Pair i ` set msgs\<rparr>)))"
| "exec N S (Restart i) C =
     (if i \<notin> S then None
      else case o_restart N (nodes C i) of
        None \<Rightarrow> None
      | Some n' \<Rightarrow> Some (set_node i n' (C\<lparr>applied := (applied C)(i := [])\<rparr>)))"

fun run :: "'n node_ops \<Rightarrow> node_id set \<Rightarrow> event list \<Rightarrow> 'n cluster \<Rightarrow> 'n cluster option" where
  "run N S [] C = Some C"
| "run N S (ev # evs) C = (case exec N S ev C of None \<Rightarrow> None | Some C' \<Rightarrow> run N S evs C')"

lemma run_append: "run N S (xs @ ys) C = (case run N S xs C of None \<Rightarrow> None | Some C' \<Rightarrow> run N S ys C')"
  by (induction xs arbitrary: C) (auto split: option.splits)

definition idle_cluster :: "(node_id \<Rightarrow> 'n) \<Rightarrow> 'n cluster" where
  "idle_cluster f = \<lparr>nodes = f, elections = (\<lambda>_. Map.empty), rvreqs = {}, rvresps = {}, beats = {},
     aereqs = {}, aeresps = {}, applied = (\<lambda>_. []), delivered = {}\<rparr>"

lemma set_node_sel [simp]:
  "nodes (set_node i n C) = (nodes C)(i := n)" "elections (set_node i n C) = elections C"
  "rvreqs (set_node i n C) = rvreqs C" "rvresps (set_node i n C) = rvresps C"
  "beats (set_node i n C) = beats C" "aereqs (set_node i n C) = aereqs C"
  "aeresps (set_node i n C) = aeresps C" "applied (set_node i n C) = applied C"
  "delivered (set_node i n C) = delivered C"
  by (simp_all add: set_node_def)

lemma set_session_sel [simp]:
  "nodes (set_session i t ses C) = nodes C"
  "elections (set_session i t ses C) = (elections C)(i := (elections C i)(t \<mapsto> ses))"
  "rvreqs (set_session i t ses C) = rvreqs C" "rvresps (set_session i t ses C) = rvresps C"
  "beats (set_session i t ses C) = beats C" "aereqs (set_session i t ses C) = aereqs C"
  "aeresps (set_session i t ses C) = aeresps C" "applied (set_session i t ses C) = applied C"
  "delivered (set_session i t ses C) = delivered C"
  by (simp_all add: set_session_def)

end
