(* ===== verification/Raft_Votes.thy ===== *)
theory Raft_Votes
  imports Raft_Cluster
begin

text \<open>
  Elections in a cluster of specification nodes: every vote is unique in its term, a session never
  counts a vote twice, and so a term has at most one leader.
\<close>

section \<open>How one node may change\<close>

text \<open>
  A change that neither forgets a vote nor creates a candidate or a leader. All steps but the start
  of an election and its success are of this kind.
\<close>

definition vote_mono :: "spec_node \<Rightarrow> spec_node \<Rightarrow> bool" where
  "vote_mono n n' \<longleftrightarrow> n_term n < n_term n' \<or>
     n_term n = n_term n' \<and> (n_vote n' = n_vote n \<or> n_vote n = [])"

definition same_config :: "spec_node \<Rightarrow> spec_node \<Rightarrow> bool" where
  "same_config n n' \<longleftrightarrow> n_id n' = n_id n \<and> n_peers n' = n_peers n \<and> n_addrs n' = n_addrs n"

definition quiet :: "spec_node \<Rightarrow> spec_node \<Rightarrow> bool" where
  "quiet n n' \<longleftrightarrow> vote_mono n n' \<and> same_config n n'
     \<and> (n_role n' = Candidate \<longrightarrow> n_role n = Candidate \<and> n_term n' = n_term n
          \<and> n_log n' = n_log n \<and> n_last n' = n_last n)
     \<and> (n_role n' = Leader \<longrightarrow> n_role n = Leader \<and> n_term n' = n_term n)"

lemmas quiet_defs = quiet_def vote_mono_def same_config_def

lemma quiet_refl [simp]: "quiet n n"
  by (simp add: quiet_defs)

lemma quiet_stepDown: "n_term n < t \<Longrightarrow> quiet n (s_stepDown t n)"
  by (simp add: quiet_defs s_stepDown_def)

lemma quiet_observe: "quiet n (s_observe t n)"
  by (simp add: s_observe_def quiet_stepDown)

lemma quiet_HandleRequestVote: "quiet n (fst (s_HandleRequestVote req n))"
  by (cases "n_term n < rv_Term req")
    (simp_all add: s_HandleRequestVote_def Let_def quiet_defs s_observe_def s_stepDown_def, metis)

text \<open>Merging entries touches the log only.\<close>

lemma s_merge_frame [simp]:
  "n_id (s_merge es n) = n_id n" "n_peers (s_merge es n) = n_peers n"
  "n_addrs (s_merge es n) = n_addrs n" "n_term (s_merge es n) = n_term n"
  "n_vote (s_merge es n) = n_vote n" "n_role (s_merge es n) = n_role n"
  "n_leader (s_merge es n) = n_leader n" "n_commit (s_merge es n) = n_commit n"
  "n_applied (s_merge es n) = n_applied n" "n_next (s_merge es n) = n_next n"
  "n_match (s_merge es n) = n_match n"
  by (induction es n rule: s_merge.induct; auto split: option.splits)+

lemma s_advance_frame [simp]:
  "n_id (s_advance c n) = n_id n" "n_peers (s_advance c n) = n_peers n"
  "n_addrs (s_advance c n) = n_addrs n" "n_term (s_advance c n) = n_term n"
  "n_vote (s_advance c n) = n_vote n" "n_role (s_advance c n) = n_role n"
  "n_log (s_advance c n) = n_log n" "n_last (s_advance c n) = n_last n"
  "n_applied (s_advance c n) = n_applied n" "n_next (s_advance c n) = n_next n"
  "n_match (s_advance c n) = n_match n" "n_leader (s_advance c n) = n_leader n"
  by (simp_all add: s_advance_def)

lemma HandleAppendEntries_role: "n_role (fst (s_HandleAppendEntries req n)) = Candidate \<Longrightarrow>
    fst (s_HandleAppendEntries req n) = n"
  by (auto simp: s_HandleAppendEntries_def Let_def split: option.splits if_splits)

lemma quiet_HandleAppendEntries: "quiet n (fst (s_HandleAppendEntries req n))"
proof (cases "n_role (fst (s_HandleAppendEntries req n)) = Candidate")
  case True
  from HandleAppendEntries_role [OF this] show ?thesis by simp
next
  case False
  then show ?thesis
    by (auto simp: s_HandleAppendEntries_def Let_def quiet_defs s_observe_def s_stepDown_def split: option.splits)
qed

lemma quiet_checkCommit: "quiet n (s_checkCommit n)"
  by (simp add: s_checkCommit_def quiet_defs)

lemma quiet_appendResp: "quiet n (s_appendResp p t prev k resp n)"
  by (simp add: s_appendResp_def Let_def s_checkCommit_def s_backup_def quiet_stepDown) (simp add: quiet_defs)

lemma quiet_Propose: "quiet n (fst (s_Propose cmd n))"
  by (simp add: s_Propose_def s_append_def quiet_defs)

lemma quiet_apply: "quiet n (s_apply n)"
  by (simp add: s_apply_def quiet_defs)

lemma quiet_restart: "quiet n (s_restart n)"
  by (simp add: s_restart_def quiet_defs)

lemma becomeLeader_sel [simp]:
  "n_role (s_becomeLeader n) = Leader" "n_term (s_becomeLeader n) = n_term n"
  "n_vote (s_becomeLeader n) = n_vote n" "n_id (s_becomeLeader n) = n_id n"
  "n_peers (s_becomeLeader n) = n_peers n" "n_addrs (s_becomeLeader n) = n_addrs n"
  "n_last (s_becomeLeader n) = n_last n + 1" "n_commit (s_becomeLeader n) = n_commit n"
  "n_applied (s_becomeLeader n) = n_applied n"
  by (simp_all add: s_becomeLeader_def s_append_def)

lemma becomeLeader_log:
  "n_log (s_becomeLeader n) =
     (n_log n)(n_last n + 1 \<mapsto> \<lparr>le_Term = n_term n, le_Index = n_last n + 1, le_Command = []\<rparr>)"
  by (simp add: s_becomeLeader_def s_append_def)

lemma becomeLeader_config: "same_config n (s_becomeLeader n)"
  by (simp add: same_config_def)

text \<open>The response of a vote handler: granted exactly when the vote is recorded.\<close>

lemma HandleRequestVote_granted:
  assumes "rvr_VoteGranted (snd (s_HandleRequestVote req n))"
  shows "n_term (fst (s_HandleRequestVote req n)) = rv_Term req"
    "n_vote (fst (s_HandleRequestVote req n)) = rv_CandidateId req"
    "n_term n \<le> rv_Term req"
    "n_term n = rv_Term req \<Longrightarrow> n_vote n = [] \<or> n_vote n = rv_CandidateId req"
    "up_to_date (rv_LastLogTerm req) (rv_LastLogIndex req) (last_term n) (n_last n)"
  using assms
  by (auto simp: s_HandleRequestVote_def Let_def s_observe_def s_stepDown_def split: if_splits)

section \<open>The steps of a cluster of specification nodes\<close>

abbreviation spec_exec :: "node_id set \<Rightarrow> event \<Rightarrow> spec_node cluster \<Rightarrow> spec_node cluster option" where
  "spec_exec \<equiv> exec spec_ops"

lemma set_node_upd:
  "(set_node i n C)\<lparr>rvresps := x\<rparr> = set_node i n (C\<lparr>rvresps := x\<rparr>)"
  "(set_node i n C)\<lparr>aeresps := y\<rparr> = set_node i n (C\<lparr>aeresps := y\<rparr>)"
  by (simp_all add: set_node_def)

text \<open>
  The kinds of steps: a quiet change of one node with nothing new on the vote side, a vote that is
  cast, an election that starts, a counted vote, and a victory.
\<close>

lemma spec_exec_cases:
  assumes "exec spec_ops S ev C = Some C'"
  obtains
    (election) i where "ev = ElectionTimeout i" "i \<in> S"
      "C' = set_node i (s_startElection (nodes C i)) (set_session i (n_term (nodes C i) + 1)
          \<lparr>ses_li = n_last (nodes C i), ses_lt = last_term (nodes C i), ses_votes = 1, ses_waiting = n_peers (nodes C i)\<rparr>
          (C\<lparr>rvreqs := rvreqs C \<union> {(p, req) | p req. p \<in> set (n_peers (nodes C i))
             \<and> s_votereq (s_startElection (nodes C i)) p (n_term (nodes C i) + 1, n_last (nodes C i), last_term (nodes C i)) = Some req}\<rparr>))"
  | (vote) p req where "ev = DeliverVoteRequest p req" "(p, req) \<in> rvreqs C"
      "C' = set_node p (fst (s_HandleRequestVote req (nodes C p)))
        (C\<lparr>rvresps := insert (p, req, snd (s_HandleRequestVote req (nodes C p))) (rvresps C)\<rparr>)"
  | (counted) p req resp i t ses where "ev = ReceiveVote p req resp" "(p, req, resp) \<in> rvresps C"
      "i = rv_CandidateId req" "t = rv_Term req"
      "elections C i t = Some ses" "p \<in> set (ses_waiting ses)"
      "C' = set_node i (fst (s_voteResp t (ses_votes ses) resp (nodes C i))) (set_session i t
         (ses\<lparr>ses_votes := snd (s_voteResp t (ses_votes ses) resp (nodes C i)), ses_waiting := remove1 p (ses_waiting ses)\<rparr>) C)"
  | (finish) i t ses where "ev = FinishElection i t" "elections C i t = Some ses"
      "C' = set_node i (s_finish t (ses_votes ses) (nodes C i)) C"
  | (beat) i where "ev = Heartbeat i" "i \<in> S" "n_role (nodes C i) = Leader"
      "C' = C\<lparr>beats := beats C \<union> (\<lambda>p. (i, p, n_term (nodes C i), n_commit (nodes C i))) ` set (n_peers (nodes C i))\<rparr>"
  | (idle) i p t c where "ev = SendAppend i p t c" "C' = C"
  | (send) i p t c req where "ev = SendAppend i p t c" "(i, p, t, c) \<in> beats C"
      "s_request p t c (nodes C i) = Some req" "C' = C\<lparr>aereqs := insert (p, req) (aereqs C)\<rparr>"
  | (append) p req where "ev = DeliverAppend p req" "(p, req) \<in> aereqs C"
      "C' = set_node p (fst (s_HandleAppendEntries req (nodes C p)))
        (C\<lparr>aeresps := insert (p, req, snd (s_HandleAppendEntries req (nodes C p))) (aeresps C)\<rparr>)"
  | (ack) p req resp where "ev = ReceiveAppend p req resp" "(p, req, resp) \<in> aeresps C"
      "C' = set_node (ae_LeaderId req) (s_appendResp p (ae_Term req) (ae_PrevLogIndex req)
         (length (ae_Entries req)) resp (nodes C (ae_LeaderId req))) C"
  | (propose) i cmd where "ev = ClientPropose i cmd" "i \<in> S"
      "C' = set_node i (fst (s_Propose cmd (nodes C i))) C"
  | (deliver) i where "ev = ApplyCommitted i" "i \<in> S"
      "C' = set_node i (s_apply (nodes C i)) (C\<lparr>applied := (applied C)(i := applied C i @ map apply_msg (s_applied (nodes C i))),
           delivered := delivered C \<union> Pair i ` set (map apply_msg (s_applied (nodes C i)))\<rparr>)"
  | (restart) i where "ev = Restart i" "i \<in> S"
      "C' = set_node i (s_restart (nodes C i)) (C\<lparr>applied := (applied C)(i := [])\<rparr>)"
proof (cases ev)
  case (ElectionTimeout i)
  then show ?thesis using assms election by (auto simp: spec_ops_def split: if_splits)
next
  case (DeliverVoteRequest p req)
  then show ?thesis using assms vote [of p req]
    by (cases "s_HandleRequestVote req (nodes C p)") (auto simp: spec_ops_def split: if_splits)
next
  case (ReceiveVote p req resp)
  then obtain ses where "elections C (rv_CandidateId req) (rv_Term req) = Some ses"
    using assms by (auto split: if_splits option.splits)
  then show ?thesis using assms ReceiveVote counted [of p req resp "rv_CandidateId req" "rv_Term req" ses]
    by (cases "s_voteResp (rv_Term req) (ses_votes ses) resp (nodes C (rv_CandidateId req))")
      (auto simp: spec_ops_def split: if_splits)
next
  case (FinishElection i t)
  then show ?thesis using assms finish by (auto simp: spec_ops_def split: option.splits)
next
  case (Heartbeat i)
  then show ?thesis using assms beat by (auto simp: spec_ops_def split: if_splits)
next
  case (SendAppend i p t c)
  have "set_node i (nodes C i) D = D" if "nodes D = nodes C" for D
    using that by (simp add: set_node_def flip: that)
  then show ?thesis using assms SendAppend idle send
    by (auto simp: spec_ops_def split: if_splits option.splits)
next
  case (DeliverAppend p req)
  then show ?thesis using assms append [of p req]
    by (cases "s_HandleAppendEntries req (nodes C p)") (auto simp: spec_ops_def split: if_splits)
next
  case (ReceiveAppend p req resp)
  then show ?thesis using assms ack by (auto simp: spec_ops_def split: if_splits)
next
  case (ClientPropose i cmd)
  then show ?thesis using assms propose by (auto simp: spec_ops_def split: if_splits)
next
  case (ApplyCommitted i)
  then show ?thesis using assms deliver by (auto simp: spec_ops_def split: if_splits)
next
  case (Restart i)
  then show ?thesis using assms restart by (auto simp: spec_ops_def split: if_splits)
qed

section \<open>Votes\<close>

definition voted :: "'n cluster \<Rightarrow> node_id \<Rightarrow> int64 \<Rightarrow> node_id \<Rightarrow> bool" where
  "voted C v t c \<longleftrightarrow>
     (\<exists>req resp. (v, req, resp) \<in> rvresps C \<and> rvr_VoteGranted resp \<and> rv_Term req = t \<and> rv_CandidateId req = c)
     \<or> v = c \<and> elections C c t \<noteq> None"

definition won :: "node_id set \<Rightarrow> 'n cluster \<Rightarrow> int64 \<Rightarrow> node_id \<Rightarrow> bool" where
  "won S C t i \<longleftrightarrow> (\<exists>G. G \<subseteq> S \<and> card S div 2 < card G \<and> (\<forall>v\<in>G. voted C v t i))"

definition config_inv :: "node_id set \<Rightarrow> spec_node cluster \<Rightarrow> bool" where
  "config_inv S C \<longleftrightarrow> finite S \<and> [] \<notin> S \<and>
     (\<forall>i\<in>S. n_id (nodes C i) = i \<and> distinct (n_peers (nodes C i)) \<and> set (n_peers (nodes C i)) = S - {i})"

definition vote_inv :: "node_id set \<Rightarrow> spec_node cluster \<Rightarrow> bool" where
  "vote_inv S C \<longleftrightarrow> (\<forall>v t c. voted C v t c \<longrightarrow> v \<in> S \<and> c \<in> S \<and> t \<le> n_term (nodes C v)
       \<and> (t = n_term (nodes C v) \<longrightarrow> n_vote (nodes C v) = c))
     \<and> (\<forall>v t c c'. voted C v t c \<longrightarrow> voted C v t c' \<longrightarrow> c = c')"

text \<open>A session counts distinct voters, none of which is still waited for.\<close>

definition session_ok :: "node_id set \<Rightarrow> 'n cluster \<Rightarrow> node_id \<Rightarrow> int64 \<Rightarrow> session \<Rightarrow> bool" where
  "session_ok S C i t ses \<longleftrightarrow> distinct (ses_waiting ses) \<and> set (ses_waiting ses) \<subseteq> S - {i} \<and>
     (\<exists>G. G \<subseteq> S \<and> G \<inter> set (ses_waiting ses) = {} \<and> ses_votes ses \<le> int (card G) \<and> (\<forall>v\<in>G. voted C v t i))"

definition session_inv :: "node_id set \<Rightarrow> 'n cluster \<Rightarrow> bool" where
  "session_inv S C \<longleftrightarrow> (\<forall>i t ses. elections C i t = Some ses \<longrightarrow> session_ok S C i t ses)"

definition request_inv :: "node_id set \<Rightarrow> 'n cluster \<Rightarrow> bool" where
  "request_inv S C \<longleftrightarrow>
     (\<forall>p req. (p, req) \<in> rvreqs C \<longrightarrow> p \<in> S \<and> p \<noteq> rv_CandidateId req \<and>
          (\<exists>ses. elections C (rv_CandidateId req) (rv_Term req) = Some ses
             \<and> ses_li ses = rv_LastLogIndex req \<and> ses_lt ses = rv_LastLogTerm req))
     \<and> (\<forall>p req resp. (p, req, resp) \<in> rvresps C \<longrightarrow> (p, req) \<in> rvreqs C)"

text \<open>A candidate's log is the one it asked votes for, and a leader has won its term.\<close>

definition cand_ok :: "spec_node cluster \<Rightarrow> node_id \<Rightarrow> spec_node \<Rightarrow> bool" where
  "cand_ok C i n \<longleftrightarrow> (n_role n = Candidate \<longrightarrow> (\<exists>ses. elections C i (n_term n) = Some ses
          \<and> ses_li ses = n_last n \<and> ses_lt ses = last_term n))"

definition role_inv :: "node_id set \<Rightarrow> spec_node cluster \<Rightarrow> bool" where
  "role_inv S C \<longleftrightarrow> (\<forall>i\<in>S. cand_ok C i (nodes C i)
     \<and> (n_role (nodes C i) = Leader \<longrightarrow> won S C (n_term (nodes C i)) i))"

definition election_inv :: "node_id set \<Rightarrow> spec_node cluster \<Rightarrow> bool" where
  "election_inv S C \<longleftrightarrow> config_inv S C \<and> vote_inv S C \<and> session_inv S C \<and> request_inv S C \<and> role_inv S C"

lemma config_invD:
  assumes "config_inv S C" "i \<in> S"
  shows "n_id (nodes C i) = i" "distinct (n_peers (nodes C i))" "set (n_peers (nodes C i)) = S - {i}"
    "finite S" "i \<noteq> []"
  using assms by (auto simp: config_inv_def)

lemma vote_invD:
  assumes "vote_inv S C" "voted C v t c"
  shows "v \<in> S" "c \<in> S" "t \<le> n_term (nodes C v)" "t = n_term (nodes C v) \<Longrightarrow> n_vote (nodes C v) = c"
    "voted C v t c' \<Longrightarrow> c = c'"
  using assms unfolding vote_inv_def by blast+

lemma request_invD:
  assumes "request_inv S C" "(p, req) \<in> rvreqs C"
  obtains ses where "p \<in> S" "p \<noteq> rv_CandidateId req" "elections C (rv_CandidateId req) (rv_Term req) = Some ses"
    "ses_li ses = rv_LastLogIndex req" "ses_lt ses = rv_LastLogTerm req"
  using assms unfolding request_inv_def by blast

lemma vote_invI:
  assumes "\<And>v t c. voted C v t c \<Longrightarrow> v \<in> S \<and> c \<in> S \<and> t \<le> n_term (nodes C v)
       \<and> (t = n_term (nodes C v) \<longrightarrow> n_vote (nodes C v) = c)"
    "\<And>v t c c'. voted C v t c \<Longrightarrow> voted C v t c' \<Longrightarrow> c = c'"
  shows "vote_inv S C"
  using assms unfolding vote_inv_def by blast

lemma quorum_of_card:
  assumes "config_inv S C" "i \<in> S"
  shows "quorum_of (n_peers (nodes C i)) = int (card S div 2) + 1"
proof -
  have "length (n_peers (nodes C i)) = card (S - {i})"
    using config_invD [OF assms] distinct_card by metis
  moreover have "card S > 0" using assms by (auto simp: config_inv_def card_gt_0_iff)
  ultimately have "int (length (n_peers (nodes C i))) + 1 = int (card S)"
    using config_invD(4) [OF assms] assms(2) by (simp add: card_Diff_singleton)
  then show ?thesis by (simp add: quorum_of_def zdiv_int)
qed

theorem won_unique:
  assumes "config_inv S C" "vote_inv S C" "won S C t i" "won S C t j"
  shows "i = j"
proof -
  obtain G H where "G \<subseteq> S" "card S div 2 < card G" "\<forall>v\<in>G. voted C v t i"
    "H \<subseteq> S" "card S div 2 < card H" "\<forall>v\<in>H. voted C v t j"
    using assms(3,4) by (auto simp: won_def)
  moreover from this have "\<exists>v. v \<in> G \<and> v \<in> H"
    using majorities_meet [of S G H] assms(1) by (simp add: config_inv_def)
  ultimately show ?thesis using vote_invD(5) [OF assms(2)] by blast
qed

section \<open>Preservation\<close>

lemma voted_mono:
  assumes "voted C v t c" "rvresps C \<subseteq> rvresps C'" "\<And>i t. elections C i t \<noteq> None \<Longrightarrow> elections C' i t \<noteq> None"
  shows "voted C' v t c"
  using assms unfolding voted_def by blast

lemma won_mono:
  assumes "won S C t i" "\<And>v. voted C v t i \<Longrightarrow> voted C' v t i"
  shows "won S C' t i"
  using assms unfolding won_def by blast

text \<open>A step with nothing new on the vote side and a quiet change of node \<open>i\<close>.\<close>

lemma voted_cong:
  assumes "elections C' = elections C" "rvresps C' = rvresps C"
  shows "voted C' = voted C"
  using assms by (simp add: voted_def fun_eq_iff)

lemma won_cong: "voted C' = voted C \<Longrightarrow> won S C' = won S C"
  by (simp add: won_def fun_eq_iff)

lemma session_ok_cong: "voted C' = voted C \<Longrightarrow> session_ok S C' = session_ok S C"
  by (simp add: session_ok_def fun_eq_iff)

lemma vote_mono_keep:
  assumes "vote_mono n n'" "t \<le> n_term n" "t = n_term n \<longrightarrow> n_vote n = c" "c \<noteq> []"
  shows "t \<le> n_term n' \<and> (t = n_term n' \<longrightarrow> n_vote n' = c)"
  using assms unfolding vote_mono_def by force

lemma vote_inv_keep:
  assumes "vote_inv S C" "[] \<notin> S" "vote_mono (nodes C i) n'" "voted C w t c"
  shows "w \<in> S \<and> c \<in> S \<and> t \<le> n_term (((nodes C)(i := n')) w)
    \<and> (t = n_term (((nodes C)(i := n')) w) \<longrightarrow> n_vote (((nodes C)(i := n')) w) = c)"
proof -
  have "w \<in> S" "c \<in> S" "c \<noteq> []" "t \<le> n_term (nodes C w)" "t = n_term (nodes C w) \<longrightarrow> n_vote (nodes C w) = c"
    using vote_invD(1-4) [OF assms(1,4)] assms(2) by auto
  with vote_mono_keep [OF assms(3), of t c] show ?thesis by auto
qed

lemma election_change:
  assumes "election_inv S C" "vote_mono (nodes C i) n'" "same_config (nodes C i) n'"
    and cand: "n_role n' = Candidate \<Longrightarrow> n_role (nodes C i) = Candidate \<and> n_term n' = n_term (nodes C i)
          \<and> n_log n' = n_log (nodes C i) \<and> n_last n' = n_last (nodes C i)"
    and lead: "i \<in> S \<Longrightarrow> n_role n' = Leader \<Longrightarrow> won S C (n_term n') i"
    and eq: "nodes C' = (nodes C)(i := n')" "elections C' = elections C" "rvresps C' = rvresps C" "rvreqs C' = rvreqs C"
  shows "election_inv S C'"
proof -
  have v: "voted C' = voted C" using voted_cong eq by blast
  have vi: "vote_inv S C" and ne: "[] \<notin> S" using assms(1) by (simp_all add: election_inv_def config_inv_def)
  have "config_inv S C'" using assms(1,3) eq(1) by (auto simp: election_inv_def config_inv_def same_config_def)
  moreover have "vote_inv S C'"
  proof (rule vote_invI)
    fix w t c
    assume "voted C' w t c"
    with vote_inv_keep [OF vi ne assms(2)] eq(1) v
    show "w \<in> S \<and> c \<in> S \<and> t \<le> n_term (nodes C' w)
        \<and> (t = n_term (nodes C' w) \<longrightarrow> n_vote (nodes C' w) = c)" by simp
  qed (use vote_invD(5) [OF vi] v in simp)
  moreover have "session_inv S C'" "request_inv S C'"
    using assms(1) by (simp_all add: election_inv_def session_inv_def request_inv_def session_ok_cong [OF v] eq)
  moreover have "role_inv S C'"
    unfolding role_inv_def
  proof
    fix j
    assume j: "j \<in> S"
    then have "cand_ok C j (nodes C j)" "n_role (nodes C j) = Leader \<longrightarrow> won S C (n_term (nodes C j)) j"
      using assms(1) by (auto simp: election_inv_def role_inv_def)
    then show "cand_ok C' j (nodes C' j) \<and> (n_role (nodes C' j) = Leader \<longrightarrow> won S C' (n_term (nodes C' j)) j)"
      using cand lead j unfolding eq(1) won_cong [OF v]
      by (cases "j = i") (auto simp: cand_ok_def eq(2) last_term_def)
  qed
  ultimately show ?thesis by (simp add: election_inv_def)
qed

lemma election_quiet:
  assumes "election_inv S C" "quiet (nodes C i) n'" "nodes C' = (nodes C)(i := n')"
    "elections C' = elections C" "rvresps C' = rvresps C" "rvreqs C' = rvreqs C"
  shows "election_inv S C'"
  using assms(2) by (intro election_change [OF assms(1) _ _ _ _ assms(3-6)])
    (use assms(1) in \<open>auto simp: quiet_def election_inv_def role_inv_def\<close>)

lemma election_win:
  assumes "election_inv S C" "won S C (n_term (nodes C i)) i"
  shows "election_inv S (set_node i (s_becomeLeader (nodes C i)) C)"
  by (rule election_change [OF assms(1), of i "s_becomeLeader (nodes C i)"])
    (use assms(2) in \<open>auto simp: vote_mono_def same_config_def\<close>)

text \<open>The counter of a session and its waiting peers change.\<close>

lemma election_session:
  assumes inv: "election_inv S C" and ses: "elections C i t = Some ses"
    and ses': "ses_li ses' = ses_li ses" "ses_lt ses' = ses_lt ses" "session_ok S C i t ses'"
  shows "election_inv S (set_session i t ses' C)"
proof -
  let ?C = "set_session i t ses' C"
  have v: "voted ?C = voted C" using ses by (auto simp: voted_def fun_eq_iff)
  have "config_inv S ?C" "vote_inv S ?C"
    using inv by (simp_all add: election_inv_def config_inv_def vote_inv_def v)
  moreover have "session_inv S ?C"
    using inv ses'(3) by (auto simp: election_inv_def session_inv_def session_ok_cong [OF v])
  moreover have "request_inv S ?C"
    using inv ses ses'(1,2) unfolding election_inv_def request_inv_def by (auto; fastforce)
  moreover have "role_inv S ?C"
    using inv ses ses'(1,2) by (auto simp: election_inv_def role_inv_def won_cong [OF v] cand_ok_def)
  ultimately show ?thesis by (simp add: election_inv_def)
qed

lemma session_ok_drop:
  assumes "session_ok S C i t ses"
  shows "session_ok S C i t (ses\<lparr>ses_waiting := remove1 p (ses_waiting ses)\<rparr>)"
  using assms set_remove1_subset [of p "ses_waiting ses"] unfolding session_ok_def
  by (simp add: distinct_remove1) blast

lemma session_ok_count:
  assumes ok: "session_ok S C i t ses" and p: "p \<in> set (ses_waiting ses)" "voted C p t i" and "finite S"
  shows "session_ok S C i t (ses\<lparr>ses_votes := ses_votes ses + 1, ses_waiting := remove1 p (ses_waiting ses)\<rparr>)"
proof -
  obtain G where G: "G \<subseteq> S" "G \<inter> set (ses_waiting ses) = {}" "ses_votes ses \<le> int (card G)" "\<forall>v\<in>G. voted C v t i"
    using ok by (auto simp: session_ok_def)
  have "p \<notin> G" using G(2) p(1) by blast
  with G assms(4) have "card (insert p G) = Suc (card G)" by (simp add: finite_subset)
  with G p ok show ?thesis unfolding session_ok_def
    by (intro conjI exI [of _ "insert p G"]) auto
qed

lemma session_won:
  assumes "config_inv S C" "i \<in> S" "session_ok S C i t ses" "quorum_of (n_peers (nodes C i)) \<le> ses_votes ses"
  shows "won S C t i"
  using assms(3,4) quorum_of_card [OF assms(1,2)] by (fastforce simp: session_ok_def won_def)

text \<open>A response is sent after the vote was recorded.\<close>

lemma election_response:
  assumes inv: "election_inv S C" and req: "(p, req) \<in> rvreqs C"
    and grant: "rvr_VoteGranted resp \<Longrightarrow> n_term (nodes C p) = rv_Term req \<and> n_vote (nodes C p) = rv_CandidateId req"
  shows "election_inv S (C\<lparr>rvresps := insert (p, req, resp) (rvresps C)\<rparr>)"
proof -
  let ?C = "C\<lparr>rvresps := insert (p, req, resp) (rvresps C)\<rparr>"
  let ?new = "\<lambda>w t c. rvr_VoteGranted resp \<and> w = p \<and> t = rv_Term req \<and> c = rv_CandidateId req"
  have v: "voted ?C w t c \<longleftrightarrow> voted C w t c \<or> ?new w t c" for w t c
    by (auto simp: voted_def)
  have vi: "vote_inv S C" using inv by (simp add: election_inv_def)
  have "voted C (rv_CandidateId req) (rv_Term req) (rv_CandidateId req)"
    using inv req unfolding election_inv_def request_inv_def voted_def by blast
  then have new: "?new w t c \<Longrightarrow> w \<in> S \<and> c \<in> S \<and> t = n_term (nodes C w) \<and> n_vote (nodes C w) = c" for w t c
    using grant vote_invD(1) [OF vi] inv req by (auto simp: election_inv_def request_inv_def)
  have "vote_inv S ?C"
  proof (rule vote_invI)
    fix w t c
    assume "voted ?C w t c"
    then show "w \<in> S \<and> c \<in> S \<and> t \<le> n_term (nodes ?C w) \<and> (t = n_term (nodes ?C w) \<longrightarrow> n_vote (nodes ?C w) = c)"
      using v new vote_invD(1-4) [OF vi] by (metis cluster.select_convs(1) cluster.surjective cluster.update_convs(4) order_refl)
  next
    fix w t c c'
    assume "voted ?C w t c" "voted ?C w t c'"
    then show "c = c'" using v new vote_invD(4,5) [OF vi] by metis
  qed
  moreover have "config_inv S ?C" using inv by (simp add: election_inv_def config_inv_def)
  moreover have "session_inv S ?C"
    using inv v unfolding election_inv_def session_inv_def session_ok_def by (simp, meson)
  moreover have "request_inv S ?C" using inv req by (auto simp: election_inv_def request_inv_def)
  moreover have "role_inv S ?C"
    using inv won_mono [of S C _ _ ?C] v by (auto simp: election_inv_def role_inv_def cand_ok_def)
  ultimately show ?thesis by (simp add: election_inv_def)
qed

text \<open>A new election: a fresh term, the node's own vote, and the requests.\<close>

lemma election_start:
  assumes inv: "election_inv S C" and i: "i \<in> S"
    and ses: "ses_li ses = n_last (nodes C i)" "ses_lt ses = last_term (nodes C i)"
      "ses_votes ses = 1" "ses_waiting ses = n_peers (nodes C i)"
    and C': "nodes C' = (nodes C)(i := s_startElection (nodes C i))"
      "elections C' = (elections C)(i := (elections C i)(n_term (nodes C i) + 1 \<mapsto> ses))"
      "rvresps C' = rvresps C"
      "\<And>p req. (p, req) \<in> rvreqs C' \<Longrightarrow> (p, req) \<in> rvreqs C \<or> p \<in> S - {i} \<and> rv_CandidateId req = i
         \<and> rv_Term req = n_term (nodes C i) + 1 \<and> rv_LastLogIndex req = ses_li ses \<and> rv_LastLogTerm req = ses_lt ses"
      "rvreqs C \<subseteq> rvreqs C'"
  shows "election_inv S C'"
proof -
  let ?t = "n_term (nodes C i) + 1"
  have parts: "config_inv S C" "vote_inv S C" "session_inv S C" "request_inv S C" "role_inv S C"
    using inv by (simp_all add: election_inv_def)
  note cfg = config_invD [OF parts(1) i]
  have oldv: "\<not> voted C i ?t c" for c using vote_invD(3) [OF parts(2), of i ?t c] by auto
  then have old: "elections C i ?t = None" by (simp add: voted_def)
  have v: "voted C' w t c \<longleftrightarrow> voted C w t c \<or> w = i \<and> c = i \<and> t = ?t" for w t c
    using C'(2,3) by (auto simp: voted_def)
  have "config_inv S C'" using parts(1) C'(1) by (auto simp: config_inv_def s_startElection_def)
  moreover have "vote_inv S C'"
  proof (rule vote_invI)
    fix w t c
    assume a: "voted C' w t c"
    have vm: "vote_mono (nodes C i) (s_startElection (nodes C i))" by (simp add: vote_mono_def s_startElection_def)
    have "[] \<notin> S" using parts(1) by (simp add: config_inv_def)
    from a vote_inv_keep [OF parts(2) this vm] show "w \<in> S \<and> c \<in> S \<and> t \<le> n_term (nodes C' w)
        \<and> (t = n_term (nodes C' w) \<longrightarrow> n_vote (nodes C' w) = c)"
      using v i cfg(1) C'(1) by (cases "voted C w t c") (auto simp: s_startElection_def)
  next
    fix w t c c'
    assume "voted C' w t c" "voted C' w t c'"
    then show "c = c'" using v oldv vote_invD(5) [OF parts(2)] by metis
  qed
  moreover have "session_inv S C'"
  proof -
    have "session_ok S C' i ?t ses"
      unfolding session_ok_def ses using cfg v i by (intro conjI exI [of _ "{i}"]) simp_all
    moreover have "session_ok S C' j t x" if "session_ok S C j t x" for j t x
      using that v unfolding session_ok_def by meson
    ultimately show ?thesis using parts(3) C'(2) by (auto simp: session_inv_def)
  qed
  moreover have "request_inv S C'"
  proof -
    have keep: "elections C' j t = Some x" if "elections C j t = Some x" for j t x
      using that old C'(2) by auto
    have "p \<in> S \<and> p \<noteq> rv_CandidateId req \<and> (\<exists>x. elections C' (rv_CandidateId req) (rv_Term req) = Some x
        \<and> ses_li x = rv_LastLogIndex req \<and> ses_lt x = rv_LastLogTerm req)" if "(p, req) \<in> rvreqs C'" for p req
      using C'(4) [OF that]
    proof
      assume "(p, req) \<in> rvreqs C"
      from request_invD [OF parts(4) this] keep show ?thesis by metis
    next
      assume "p \<in> S - {i} \<and> rv_CandidateId req = i
         \<and> rv_Term req = ?t \<and> rv_LastLogIndex req = ses_li ses \<and> rv_LastLogTerm req = ses_lt ses"
      with C'(2) show ?thesis by simp
    qed
    moreover have "(p, req) \<in> rvreqs C'" if "(p, req, resp) \<in> rvresps C'" for p req resp
      using that parts(4) C'(3,5) unfolding request_inv_def by blast
    ultimately show ?thesis by (simp add: request_inv_def)
  qed
  moreover have "role_inv S C'"
  proof -
    have "won S C' t j" if "won S C t j" for t j using that v by (blast intro: won_mono)
    moreover have "cand_ok C' j n" if "cand_ok C j n" for j n
      using that old C'(2) by (auto simp: cand_ok_def)
    moreover have "cand_ok C' i (s_startElection (nodes C i))"
      using C'(2) ses by (simp add: cand_ok_def s_startElection_def last_term_def)
    ultimately show ?thesis using parts(5) C'(1) by (auto simp: role_inv_def s_startElection_def)
  qed
  ultimately show ?thesis by (simp add: election_inv_def)
qed

lemma election_count_session:
  assumes inv: "election_inv S C" and ses: "elections C i t = Some ses" and p: "p \<in> set (ses_waiting ses)"
    and granted: "rvr_VoteGranted resp \<Longrightarrow> voted C p t i"
    and r: "r = s_voteResp t (ses_votes ses) resp (nodes C i)"
    and ses': "ses' = ses\<lparr>ses_votes := snd r, ses_waiting := remove1 p (ses_waiting ses)\<rparr>"
  shows "session_ok S C i t ses'" "election_inv S (set_session i t ses' C)"
proof -
  have parts: "config_inv S C" "session_inv S C" using inv by (simp_all add: election_inv_def)
  have ok: "session_ok S C i t ses" using parts(2) ses by (simp add: session_inv_def)
  show ok': "session_ok S C i t ses'"
  proof (cases "snd r = ses_votes ses")
    case True
    then show ?thesis using session_ok_drop [OF ok, of p] ses' by simp
  next
    case False
    then have "snd r = ses_votes ses + 1" "voted C p t i"
      using granted r by (auto simp: s_voteResp_def split: if_splits)
    then show ?thesis using session_ok_count [OF ok p] parts(1) ses' by (simp add: config_inv_def)
  qed
  show "election_inv S (set_session i t ses' C)" using election_session [OF inv ses _ _ ok'] ses' by simp
qed

lemma election_counted:
  assumes inv: "election_inv S C" and ses: "elections C i t = Some ses" and p: "p \<in> set (ses_waiting ses)"
    and granted: "rvr_VoteGranted resp \<Longrightarrow> voted C p t i"
  shows "election_inv S (set_node i (fst (s_voteResp t (ses_votes ses) resp (nodes C i))) (set_session i t
     (ses\<lparr>ses_votes := snd (s_voteResp t (ses_votes ses) resp (nodes C i)), ses_waiting := remove1 p (ses_waiting ses)\<rparr>) C))"
proof -
  let ?n = "nodes C i"
  let ?r = "s_voteResp t (ses_votes ses) resp ?n"
  let ?ses = "ses\<lparr>ses_votes := snd ?r, ses_waiting := remove1 p (ses_waiting ses)\<rparr>"
  let ?D = "set_session i t ?ses C"
  have parts: "config_inv S C" "vote_inv S C" using inv by (simp_all add: election_inv_def)
  have iS: "i \<in> S" using ses vote_invD(1) [OF parts(2), of i t i] by (simp add: voted_def)
  have D: "session_ok S C i t ?ses" "election_inv S ?D"
    using election_count_session [where resp = resp, OF inv ses p] granted by auto
  show ?thesis
  proof (cases "n_role ?n = Candidate \<and> n_term ?n = t \<and> \<not> rvr_Term resp > n_term ?n \<and> rvr_VoteGranted resp
      \<and> ses_votes ses + 1 \<ge> quorum_of (n_peers ?n)")
    case True
    then have r: "fst ?r = s_becomeLeader ?n" "snd ?r = ses_votes ses + 1" by (simp_all add: s_voteResp_def)
    have "won S C t i" using session_won [OF parts(1) iS D(1)] r(2) True by simp
    then have "won S ?D t i" using ses won_mono [of S C t i ?D] by (simp add: voted_def)
    then have "election_inv S (set_node i (s_becomeLeader (nodes ?D i)) ?D)"
      using election_win [OF D(2), of i] True by simp
    then show ?thesis using r(1) by simp
  next
    case False
    then have "quiet ?n (fst ?r)" by (auto simp: s_voteResp_def quiet_stepDown)
    then show ?thesis using election_quiet [OF D(2), of i "fst ?r"] by simp
  qed
qed

theorem election_inv_step:
  assumes inv: "election_inv S C" and step: "exec spec_ops S ev C = Some C'"
  shows "election_inv S C'"
  using step
proof (cases rule: spec_exec_cases)
  case (election i)
  have cfg: "n_id (nodes C i) = i" "set (n_peers (nodes C i)) = S - {i}"
    using config_invD [of S C i] inv election(2) by (auto simp: election_inv_def)
  show ?thesis
    by (rule election_start [OF inv election(2), of "\<lparr>ses_li = n_last (nodes C i), ses_lt = last_term (nodes C i),
        ses_votes = 1, ses_waiting = n_peers (nodes C i)\<rparr>"])
      (auto simp: election(3) cfg s_votereq_def s_startElection_def split: if_splits)
next
  case (vote p req)
  let ?n' = "fst (s_HandleRequestVote req (nodes C p))"
  have "election_inv S (set_node p ?n' C)"
    by (rule election_quiet [OF inv, of p ?n']) (simp_all add: quiet_HandleRequestVote)
  from election_response [OF this, of p req "snd (s_HandleRequestVote req (nodes C p))"] vote show ?thesis
    using HandleRequestVote_granted(1,2) [of req "nodes C p"] by (simp add: set_node_upd)
next
  case (counted p req resp i t ses)
  from counted(2-4) have "rvr_VoteGranted resp \<Longrightarrow> voted C p t i" by (auto simp: voted_def)
  from election_counted [OF inv counted(5,6) this] counted(7) show ?thesis by simp
next
  case (finish i t ses)
  show ?thesis
  proof (cases "n_role (nodes C i) = Candidate \<and> n_term (nodes C i) = t \<and> ses_votes ses \<ge> quorum_of (n_peers (nodes C i))")
    case True
    have "config_inv S C" "i \<in> S" "session_ok S C i t ses"
      using inv finish(2) vote_invD(1) [of S C i t i] by (auto simp: election_inv_def session_inv_def voted_def)
    from session_won [OF this] True have "won S C (n_term (nodes C i)) i" by simp
    from election_win [OF inv this] True finish(3) show ?thesis by (simp add: s_finish_def)
  next
    case False
    then have "s_finish t (ses_votes ses) (nodes C i) = nodes C i" by (auto simp: s_finish_def)
    then show ?thesis using election_quiet [OF inv, of i "nodes C i" C'] finish(3) by simp
  qed
next
  case (beat i)
  then show ?thesis using election_quiet [OF inv, of i "nodes C i" C'] by simp
next
  case (send i p t c req)
  then show ?thesis using election_quiet [OF inv, of i "nodes C i" C'] by simp
next
  case (append p req)
  then show ?thesis using election_quiet [OF inv quiet_HandleAppendEntries [of "nodes C p" req], of C'] by simp
next
  case (ack p req resp)
  then show ?thesis using election_quiet [OF inv quiet_appendResp, of C' "ae_LeaderId req"] by simp
next
  case (propose i cmd)
  then show ?thesis using election_quiet [OF inv quiet_Propose [of "nodes C i" cmd], of C'] by simp
next
  case (deliver i)
  then show ?thesis using election_quiet [OF inv quiet_apply [of "nodes C i"], of C'] by simp
next
  case (restart i)
  then show ?thesis using election_quiet [OF inv quiet_restart [of "nodes C i"], of C'] by simp
qed (use inv in simp)

theorem election_safety:
  assumes "election_inv S C" "i \<in> S" "j \<in> S" "n_role (nodes C i) = Leader" "n_role (nodes C j) = Leader"
    "n_term (nodes C i) = n_term (nodes C j)"
  shows "i = j"
proof -
  have "won S C (n_term (nodes C i)) i" "won S C (n_term (nodes C j)) j"
    using assms by (auto simp: election_inv_def role_inv_def)
  with assms(6) won_unique [of S C] assms(1) show ?thesis by (simp add: election_inv_def)
qed

end
