(* ===== verification/Raft_Histories.thy ===== *)
theory Raft_Histories
  imports Raft_Votes
begin

text \<open>
  Log matching. A history \<open>H\<close> gives, for every term, the log its leader has built so far. The
  invariant \<open>log_inv\<close> says that every log is made of prefixes of histories: an entry of term \<open>t\<close>
  at index \<open>k\<close> forces the log to agree with \<open>H t\<close> up to \<open>k\<close>. AppendEntries requests carry
  segments of the history of their term.
\<close>

section \<open>Agreement of logs\<close>

type_synonym hist = "int64 \<Rightarrow> int64 \<rightharpoonup> LogEntry"

definition agree :: "(int64 \<rightharpoonup> LogEntry) \<Rightarrow> (int64 \<rightharpoonup> LogEntry) \<Rightarrow> int64 \<Rightarrow> bool" where
  "agree m m' k \<longleftrightarrow> (\<forall>i\<le>k. m i = m' i)"

lemma agree_refl [simp]: "agree m m k"
  by (simp add: agree_def)

lemma agree_sym: "agree m m' k \<Longrightarrow> agree m' m k"
  by (simp add: agree_def)

lemma agree_trans: "agree m m' k \<Longrightarrow> agree m' m'' k \<Longrightarrow> agree m m'' k"
  by (simp add: agree_def)

lemma agree_le: "agree m m' k \<Longrightarrow> k' \<le> k \<Longrightarrow> agree m m' k'"
  by (simp add: agree_def)

lemma agreeD: "agree m m' k \<Longrightarrow> i \<le> k \<Longrightarrow> m i = m' i"
  by (simp add: agree_def)

lemma agree_restrict: "k \<le> j \<Longrightarrow> agree (m |` {..j}) m k"
  by (simp add: agree_def restrict_map_def)

definition matches :: "hist \<Rightarrow> (int64 \<rightharpoonup> LogEntry) \<Rightarrow> bool" where
  "matches H m \<longleftrightarrow> (\<forall>k e. m k = Some e \<longrightarrow> agree m (H (le_Term e)) k)"

lemma matchesD: "matches H m \<Longrightarrow> m k = Some e \<Longrightarrow> agree m (H (le_Term e)) k"
  by (simp add: matches_def)

text \<open>Two logs made of histories agree up to any index where their terms are equal.\<close>

lemma matches_agree:
  assumes "matches H m" "matches H m'" "m k = Some e" "m' k = Some e'" "le_Term e = le_Term e'"
  shows "agree m m' k"
  using matchesD [OF assms(1,3)] matchesD [OF assms(2,4)] assms(5) agree_sym agree_trans by metis

lemma matches_restrict: "matches H m \<Longrightarrow> matches H (m |` {..j})"
  by (auto simp: matches_def agree_def restrict_map_def split: if_splits)

text \<open>The shape of a log whose entries carry terms of at most \<open>t\<close>.\<close>

definition hist_ok :: "int64 \<Rightarrow> (int64 \<rightharpoonup> LogEntry) \<Rightarrow> int64 \<Rightarrow> bool" where
  "hist_ok t m l \<longleftrightarrow> interval_map 1 l m \<and> (\<forall>k e. m k = Some e \<longrightarrow> le_Index e = k \<and> 1 \<le> le_Term e \<and> le_Term e \<le> t)"

lemma hist_okD:
  assumes "hist_ok t m l"
  shows "interval_map 1 l m" "m k = Some e \<Longrightarrow> le_Index e = k" "m k = Some e \<Longrightarrow> 1 \<le> le_Term e"
    "m k = Some e \<Longrightarrow> le_Term e \<le> t" "m k = None \<longleftrightarrow> k < 1 \<or> l < k" "0 \<le> l"
  using assms interval_map_None [of 1 l m k] by (auto simp: hist_ok_def interval_map_def)

lemma hist_ok_mono: "hist_ok t m l \<Longrightarrow> t \<le> t' \<Longrightarrow> hist_ok t' m l"
  unfolding hist_ok_def by force

lemma hist_ok_spec_ok: "hist_ok t (n_log n) (n_last n) \<Longrightarrow> spec_ok n"
  by (auto simp: hist_ok_def spec_ok_def)

lemma hist_ok_snoc:
  assumes "hist_ok t m l" "1 \<le> t"
  shows "hist_ok t (m(l + 1 \<mapsto> \<lparr>le_Term = t, le_Index = l + 1, le_Command = c\<rparr>)) (l + 1)"
  using interval_map_upd [OF hist_okD(1) [OF assms(1)], of "l + 1"] hist_okD(6) [OF assms(1)] assms
  by (auto simp: hist_ok_def)

lemma hist_ok_restrict: "hist_ok t m l \<Longrightarrow> 0 \<le> j \<Longrightarrow> j \<le> l \<Longrightarrow> hist_ok t (m |` {..j}) j"
  using interval_map_upto [of 1 l m j] by (auto simp: hist_ok_def restrict_map_def)

lemma term_at_pos: "hist_ok t m l \<Longrightarrow> term_at m k = u \<Longrightarrow> u \<noteq> 0 \<Longrightarrow> \<exists>e. m k = Some e \<and> le_Term e = u"
  by (auto simp: term_at_def split: option.splits)

section \<open>What merging the entries of a request does\<close>

lemma follow_nonneg: "follow p es \<Longrightarrow> e \<in> set es \<Longrightarrow> p < le_Index e \<and> le_Index e \<le> p + int (length es)"
  by (induction es arbitrary: p) (fastforce)+

lemma agree_snoc: "agree m h p \<Longrightarrow> m (p + 1) = h (p + 1) \<Longrightarrow> agree m h (p + 1)"
  unfolding agree_def by (metis zle_add1_eq_le order_le_less)

lemma interval_restrict_eq:
  assumes "interval_map 1 l m" "l \<le> p" "agree m h p"
  shows "m = h |` {..p}"
proof
  fix i
  show "m i = (h |` {..p}) i"
    using assms interval_map_None [OF assms(1), of i] by (cases "i \<le> p") (auto simp: agree_def restrict_map_def)
qed

lemma s_merge_restrict:
  assumes "n_log n = h |` {..p}" "n_last n = p" "follow p es" "\<forall>e\<in>set es. h (le_Index e) = Some e" "0 \<le> p"
  shows "n_log (s_merge es n) = h |` {..p + int (length es)} \<and> n_last (s_merge es n) = p + int (length es)"
  using assms
proof (induction es arbitrary: n p)
  case (Cons e es)
  let ?n = "n\<lparr>n_log := (n_log n)(le_Index e \<mapsto> e), n_last := max (n_last n) (le_Index e)\<rparr>"
  have "h (p + 1) = Some e" using Cons.prems(3,4) by simp
  then have "(h |` {..p})(p + 1 \<mapsto> e) = h |` {..p + 1}"
    by (auto simp: fun_eq_iff restrict_map_def)
  then have "n_log ?n = h |` {..p + 1}" using Cons.prems by simp
  moreover have "n_log n (le_Index e) = None" using Cons.prems by (simp add: restrict_map_def)
  ultimately show ?case using Cons.IH [of ?n "p + 1"] Cons.prems by (simp add: algebra_simps)
qed simp

lemma s_merge_result:
  assumes "interval_map 1 (n_last n) (n_log n)" "follow p es" "\<forall>e\<in>set es. h (le_Index e) = Some e"
    "agree (n_log n) h p" "0 \<le> p" "p \<le> n_last n"
    "\<And>k e e'. n_log n k = Some e \<Longrightarrow> h k = Some e' \<Longrightarrow> le_Term e = le_Term e' \<Longrightarrow> agree (n_log n) h k"
  shows "n_log (s_merge es n) = n_log n \<and> n_last (s_merge es n) = n_last n
      \<and> agree (n_log n) h (p + int (length es)) \<and> p + int (length es) \<le> n_last n
    \<or> n_log (s_merge es n) = h |` {..p + int (length es)} \<and> n_last (s_merge es n) = p + int (length es)
      \<and> \<not> agree (n_log n) h (p + int (length es))"
  using assms(2-6)
proof (induction es arbitrary: p)
  case (Cons e es)
  let ?m = "p + 1 + int (length es)"
  have e: "le_Index e = p + 1" "h (p + 1) = Some e" "follow (p + 1) es" "0 \<le> p + 1"
    using Cons.prems by auto
  have m: "p + int (length (e # es)) = ?m" by simp
  show ?case
  proof (cases "n_log n (p + 1)")
    case None
    then have "n_last n = p" using interval_map_None [OF assms(1), of "p + 1"] Cons.prems(4,5) by auto
    then have "n_log n = h |` {..p}" using interval_restrict_eq [OF assms(1) _ Cons.prems(3)] by simp
    from s_merge_restrict [OF this \<open>n_last n = p\<close> Cons.prems(1,2,4)]
    have "n_log (s_merge (e # es) n) = h |` {..?m}" "n_last (s_merge (e # es) n) = ?m"
      unfolding m by blast+
    moreover have "\<not> agree (n_log n) h ?m" using agreeD [of "n_log n" h ?m "p + 1"] None e(2) by auto
    ultimately show ?thesis unfolding m by blast
  next
    case (Some ex)
    then have p1: "p + 1 \<le> n_last n" using interval_map_None [OF assms(1), of "p + 1"] by fastforce
    show ?thesis
    proof (cases "le_Term ex = le_Term e")
      case True
      then have "agree (n_log n) h (p + 1)" using assms(7) Some e(2) by simp
      with Cons.IH [OF e(3) _ _ e(4) p1] Cons.prems(2) Some True e(1) show ?thesis
        by (simp add: algebra_simps)
    next
      case False
      let ?n = "n\<lparr>n_log := (n_log n |` {..p})(p + 1 \<mapsto> e), n_last := p + 1\<rparr>"
      have "n_log ?n = h |` {..p + 1}"
        using Cons.prems(3) e(2) by (auto simp: fun_eq_iff restrict_map_def agree_def)
      then have "n_log (s_merge es ?n) = h |` {..?m}" "n_last (s_merge es ?n) = ?m"
        using s_merge_restrict [of ?n h "p + 1" es] e(3,4) Cons.prems(2) by auto
      moreover have "s_merge (e # es) n = s_merge es ?n" using Some False e(1) by simp
      moreover have "\<not> agree (n_log n) h ?m"
        using agreeD [of "n_log n" h ?m "p + 1"] Some e(2) False by auto
      ultimately show ?thesis unfolding m by metis
    qed
  qed
qed simp

section \<open>The invariant\<close>

definition lead_ok :: "node_id set \<Rightarrow> hist \<Rightarrow> node_id \<Rightarrow> spec_node \<Rightarrow> bool" where
  "lead_ok S H i n \<longleftrightarrow> (n_role n = Leader \<longrightarrow> 1 \<le> n_term n \<and> H (n_term n) = n_log n \<and> n_log n \<noteq> Map.empty
     \<and> (\<forall>p\<in>S - {i}. 1 \<le> go_get (n_next n) p \<and> go_get (n_next n) p \<le> n_last n + 1))"

definition log_node_ok :: "node_id set \<Rightarrow> hist \<Rightarrow> node_id \<Rightarrow> spec_node \<Rightarrow> bool" where
  "log_node_ok S H i n \<longleftrightarrow> 0 \<le> n_term n \<and> hist_ok (n_term n) (n_log n) (n_last n)
     \<and> matches H (n_log n) \<and> lead_ok S H i n"

text \<open>A term with a history has been won by a node that is no longer a candidate in it.\<close>

definition led :: "node_id set \<Rightarrow> spec_node cluster \<Rightarrow> int64 \<Rightarrow> bool" where
  "led S C t \<longleftrightarrow> (\<exists>j\<in>S. won S C t j \<and> t \<le> n_term (nodes C j)
     \<and> (n_term (nodes C j) = t \<longrightarrow> n_role (nodes C j) \<noteq> Candidate))"

definition hist_part :: "node_id set \<Rightarrow> spec_node cluster \<Rightarrow> hist \<Rightarrow> bool" where
  "hist_part S C H \<longleftrightarrow> (\<forall>t. (\<exists>l. hist_ok t (H t) l) \<and> matches H (H t) \<and> (H t \<noteq> Map.empty \<longrightarrow> led S C t))"

abbreviation ae_es :: "AppendEntriesRequest \<Rightarrow> LogEntry list" where
  "ae_es req \<equiv> convertProtoToLogEntries (ae_Entries req)"

definition ae_upto :: "AppendEntriesRequest \<Rightarrow> int64" where
  "ae_upto req = ae_PrevLogIndex req + int (length (ae_Entries req))"

definition ae_ok :: "node_id set \<Rightarrow> spec_node cluster \<Rightarrow> hist \<Rightarrow> node_id \<Rightarrow> AppendEntriesRequest \<Rightarrow> bool" where
  "ae_ok S C H p req \<longleftrightarrow> p \<in> S \<and> ae_LeaderId req \<in> S \<and> p \<noteq> ae_LeaderId req
     \<and> won S C (ae_Term req) (ae_LeaderId req) \<and> ae_wf req
     \<and> (ae_PrevLogIndex req = 0 \<or> (\<exists>e. H (ae_Term req) (ae_PrevLogIndex req) = Some e \<and> le_Term e = ae_PrevLogTerm req))
     \<and> (\<forall>e\<in>set (ae_es req). H (ae_Term req) (le_Index e) = Some e)"

definition resp_ok :: "AppendEntriesRequest \<Rightarrow> AppendEntriesResponse \<Rightarrow> bool" where
  "resp_ok req resp \<longleftrightarrow> (\<not> aer_Success resp \<longrightarrow> aer_Term resp \<le> ae_Term req \<longrightarrow>
     1 \<le> aer_ConflictIndex resp \<and> aer_ConflictIndex resp \<le> ae_PrevLogIndex req)"

definition msg_part :: "node_id set \<Rightarrow> spec_node cluster \<Rightarrow> hist \<Rightarrow> bool" where
  "msg_part S C H \<longleftrightarrow>
     (\<forall>i t ses. elections C i t = Some ses \<longrightarrow> 1 \<le> t \<and> ses_lt ses < t)
     \<and> (\<forall>i p t c. (i, p, t, c) \<in> beats C \<longrightarrow> i \<in> S \<and> p \<in> S \<and> p \<noteq> i)
     \<and> (\<forall>p req. (p, req) \<in> aereqs C \<longrightarrow> ae_ok S C H p req)
     \<and> (\<forall>p req resp. (p, req, resp) \<in> aeresps C \<longrightarrow> (p, req) \<in> aereqs C \<and> resp_ok req resp)"

definition log_inv :: "node_id set \<Rightarrow> spec_node cluster \<Rightarrow> hist \<Rightarrow> bool" where
  "log_inv S C H \<longleftrightarrow> (\<forall>i\<in>S. log_node_ok S H i (nodes C i)) \<and> hist_part S C H \<and> msg_part S C H"

lemma log_invD:
  assumes "log_inv S C H" "i \<in> S"
  shows "0 \<le> n_term (nodes C i)" "hist_ok (n_term (nodes C i)) (n_log (nodes C i)) (n_last (nodes C i))"
    "matches H (n_log (nodes C i))" "lead_ok S H i (nodes C i)"
  using assms by (auto simp: log_inv_def log_node_ok_def)

lemma log_inv_hist:
  assumes "log_inv S C H"
  shows "\<exists>l. hist_ok t (H t) l" "matches H (H t)" "H t \<noteq> Map.empty \<Longrightarrow> led S C t"
  using assms by (auto simp: log_inv_def hist_part_def)

lemma log_inv_req:
  assumes "log_inv S C H"
  shows "(p, req) \<in> aereqs C \<Longrightarrow> ae_ok S C H p req"
    "(p, req, resp) \<in> aeresps C \<Longrightarrow> (p, req) \<in> aereqs C"
    "(p, req, resp) \<in> aeresps C \<Longrightarrow> resp_ok req resp"
    "(i, p, t, c) \<in> beats C \<Longrightarrow> i \<in> S \<and> p \<in> S \<and> p \<noteq> i"
    "elections C i u = Some ses \<Longrightarrow> 1 \<le> u \<and> ses_lt ses < u"
  using assms unfolding log_inv_def msg_part_def by blast+

lemma led_mono:
  assumes "led S C t" "\<And>t j. won S C t j \<Longrightarrow> won S C' t j" "\<And>j. n_term (nodes C j) \<le> n_term (nodes C' j)"
    "\<And>j. n_role (nodes C' j) = Candidate \<Longrightarrow> n_role (nodes C j) = Candidate \<or> n_term (nodes C j) < n_term (nodes C' j)"
  shows "led S C' t"
proof -
  obtain j where j: "j \<in> S" "won S C t j" "t \<le> n_term (nodes C j)"
    "n_term (nodes C j) = t \<longrightarrow> n_role (nodes C j) \<noteq> Candidate"
    using assms(1) by (auto simp: led_def)
  have "n_role (nodes C' j) \<noteq> Candidate" if "n_term (nodes C' j) = t"
    using that j(3,4) assms(3) [of j] assms(4) [of j] by fastforce
  with j assms(2,3) show ?thesis unfolding led_def by (metis order_trans)
qed

section \<open>What the handler of AppendEntries does to the log\<close>

definition hist_le :: "hist \<Rightarrow> hist \<Rightarrow> bool" where
  "hist_le H H' \<longleftrightarrow> (\<forall>t. H t \<subseteq>\<^sub>m H' t)"

lemma hist_leD: "hist_le H H' \<Longrightarrow> H t k = Some e \<Longrightarrow> H' t k = Some e"
  unfolding hist_le_def map_le_def by (metis domI)

lemma hist_le_refl [simp]: "hist_le H H"
  by (simp add: hist_le_def)

lemma ae_ok_mono:
  assumes "ae_ok S C H p req" "\<And>t j. won S C t j \<Longrightarrow> won S C' t j" "hist_le H H'"
  shows "ae_ok S C' H' p req"
  using assms(1,2) hist_leD [OF assms(3)] unfolding ae_ok_def by metis

lemma first_of_term_bounds:
  assumes "m k = Some e" "le_Term e = t" "1 \<le> k" "k \<le> l"
  shows "1 \<le> first_of_term m l t" "first_of_term m l t \<le> k"
proof -
  let ?P = "\<lambda>i. \<exists>e. m i = Some e \<and> le_Term e = t"
  let ?xs = "filter ?P [1..l]"
  have k: "k \<in> set ?xs" using assms by auto
  then obtain x xs where x: "?xs = x # xs" by (cases ?xs) auto
  have "sorted ?xs" by (simp add: sorted_wrt_filter)
  with x k have "x \<le> k" by auto
  moreover from x have "x \<in> set ?xs" by (metis list.set_intros(1))
  then have "1 \<le> x" by simp
  ultimately show "1 \<le> first_of_term m l t" "first_of_term m l t \<le> k" using x by (simp_all add: first_of_term_def)
qed

lemma s_check_prev_cong:
  "n_log n' = n_log n \<Longrightarrow> n_last n' = n_last n \<Longrightarrow> s_check_prev req n' = s_check_prev req n"
  by (simp add: s_check_prev_def cong: option.case_cong if_cong)

text \<open>The three ways the handler ends; \<open>touched\<close> relates the node before and after the term check.\<close>

definition touched :: "spec_node \<Rightarrow> spec_node \<Rightarrow> bool" where
  "touched n n2 \<longleftrightarrow> n_log n2 = n_log n \<and> n_last n2 = n_last n \<and> n_commit n2 = n_commit n \<and> n_applied n2 = n_applied n"

lemma append_cases:
  assumes r: "s_HandleAppendEntries req n = (n', resp)"
  obtains
    (stale) "ae_Term req < n_term n" "n' = n" "\<not> aer_Success resp" "aer_Term resp = n_term n"
  | (conflict) n2 ci ct where "\<not> ae_Term req < n_term n" "s_check_prev req n = Some (ci, ct)" "n' = n2"
      "\<not> aer_Success resp" "aer_ConflictIndex resp = ci" "touched n n2" "n_term n2 = ae_Term req"
  | (ok) n2 where "\<not> ae_Term req < n_term n" "s_check_prev req n = None"
      "n' = s_advance (ae_LeaderCommit req) (s_merge (ae_es req) n2)" "aer_Success resp" "touched n n2" "n_term n2 = ae_Term req"
proof (cases "ae_Term req < n_term n")
  case True
  with r have "n' = n" "\<not> aer_Success resp" "aer_Term resp = n_term n"
    by (auto simp: s_HandleAppendEntries_def Let_def)
  with True show ?thesis by (rule stale)
next
  case False
  define n1 where "n1 = s_observe (ae_Term req) n"
  define n2 where "n2 = n1\<lparr>n_role := (if n_role n1 = Candidate then Follower else n_role n1), n_leader := ae_LeaderId req\<rparr>"
  have n2: "touched n n2" "n_term n2 = ae_Term req"
    using False by (auto simp: touched_def n2_def n1_def s_observe_def s_stepDown_def)
  then have c: "s_check_prev req n2 = s_check_prev req n" by (auto simp: touched_def intro: s_check_prev_cong)
  let ?fail = "\<lparr>aer_Term = n_term n, aer_Success = False, aer_MatchIndex = 0, aer_ConflictIndex = 0, aer_ConflictTerm = 0\<rparr>"
  let ?n3 = "s_advance (ae_LeaderCommit req) (s_merge (ae_es req) n2)"
  have eq: "(n', resp) = (case s_check_prev req n of
      Some (ci, ct) \<Rightarrow> (n2, ?fail\<lparr>aer_Term := ae_Term req, aer_ConflictIndex := ci, aer_ConflictTerm := ct\<rparr>)
    | None \<Rightarrow> (?n3, ?fail\<lparr>aer_Term := ae_Term req, aer_Success := True, aer_MatchIndex := n_last ?n3\<rparr>))"
    unfolding r [symmetric] c [symmetric] s_HandleAppendEntries_def Let_def n2_def n1_def
    by (simp only: False if_False)
  show ?thesis
  proof (cases "s_check_prev req n")
    case None
    with eq False ok [of n2] n2 show ?thesis by simp
  next
    case (Some cc)
    with eq False conflict [of "fst cc" "snd cc" n2] n2 show ?thesis by (cases cc) simp
  qed
qed

text \<open>
  The entries of the request become part of the log: the log is left alone when it has them
  already, and is cut to the history of the request's term otherwise.
\<close>

lemma append_effect:
  assumes inv: "log_inv S C H" and p: "p \<in> S" and req: "ae_ok S C H p req"
    and n: "n = nodes C p" and r: "s_HandleAppendEntries req n = (n', resp)"
  shows "n_log n' = n_log n \<and> n_last n' = n_last n
      \<or> n_term n' = ae_Term req \<and> n_log n' = H (ae_Term req) |` {..ae_upto req} \<and> n_last n' = ae_upto req
        \<and> \<not> agree (n_log n) (H (ae_Term req)) (ae_upto req)"
    "aer_Success resp \<Longrightarrow> n_term n \<le> ae_Term req \<and> n_term n' = ae_Term req
        \<and> agree (n_log n') (H (ae_Term req)) (ae_upto req) \<and> ae_upto req \<le> n_last n'
        \<and> n_commit n' = (if ae_LeaderCommit req > n_commit n then min (ae_LeaderCommit req) (n_last n') else n_commit n)"
    "\<not> aer_Success resp \<Longrightarrow> n_log n' = n_log n \<and> n_last n' = n_last n \<and> n_commit n' = n_commit n"
    "resp_ok req resp" "n_applied n' = n_applied n"
proof -
  note ok = log_invD [OF inv p, folded n]
  let ?h = "H (ae_Term req)" and ?p = "ae_PrevLogIndex req"
  have req': "ae_wf req" "?p = 0 \<or> (\<exists>e. ?h ?p = Some e \<and> le_Term e = ae_PrevLogTerm req)"
    "\<forall>e\<in>set (ae_es req). ?h (le_Index e) = Some e" using req by (auto simp: ae_ok_def)
  have p0: "0 \<le> ?p" "follow ?p (ae_es req)" using req'(1) by (auto simp: ae_wf_def)
  from r consider (stale) "ae_Term req < n_term n" "n' = n" "\<not> aer_Success resp" "aer_Term resp = n_term n"
    | (conflict) n2 ci ct where "\<not> ae_Term req < n_term n" "s_check_prev req n = Some (ci, ct)" "n' = n2"
        "\<not> aer_Success resp" "aer_ConflictIndex resp = ci" "touched n n2" "n_term n2 = ae_Term req"
    | (ok) n2 where "\<not> ae_Term req < n_term n" "s_check_prev req n = None"
        "n' = s_advance (ae_LeaderCommit req) (s_merge (ae_es req) n2)" "aer_Success resp" "touched n n2" "n_term n2 = ae_Term req"
    by (rule append_cases)
  then have "(n_log n' = n_log n \<and> n_last n' = n_last n
      \<or> n_term n' = ae_Term req \<and> n_log n' = ?h |` {..ae_upto req} \<and> n_last n' = ae_upto req
        \<and> \<not> agree (n_log n) ?h (ae_upto req))
    \<and> (aer_Success resp \<longrightarrow> n_term n \<le> ae_Term req \<and> n_term n' = ae_Term req
        \<and> agree (n_log n') ?h (ae_upto req) \<and> ae_upto req \<le> n_last n'
        \<and> n_commit n' = (if ae_LeaderCommit req > n_commit n then min (ae_LeaderCommit req) (n_last n') else n_commit n))
    \<and> (\<not> aer_Success resp \<longrightarrow> n_log n' = n_log n \<and> n_last n' = n_last n \<and> n_commit n' = n_commit n)
    \<and> resp_ok req resp \<and> n_applied n' = n_applied n"
  proof cases
    case stale
    then show ?thesis by (simp add: resp_ok_def)
  next
    case conflict
    have "1 \<le> ci \<and> ci \<le> ?p"
    proof (cases "n_log n ?p")
      case None
      with conflict(2) have "ci = n_last n + 1" "0 < ?p" by (auto simp: s_check_prev_def split: if_splits)
      with None hist_okD(5,6) [OF ok(2)] show ?thesis by force
    next
      case (Some e)
      with conflict(2) have "ci = first_of_term (n_log n) (n_last n) (le_Term e)" "0 < ?p"
        by (auto simp: s_check_prev_def split: if_splits)
      moreover have "?p \<le> n_last n" using Some hist_okD(5) [OF ok(2), of ?p] by force
      ultimately show ?thesis using first_of_term_bounds [of "n_log n" ?p e "le_Term e" "n_last n"] Some by simp
    qed
    with conflict show ?thesis by (simp add: resp_ok_def touched_def)
  next
    case ok': (ok n2)
    have n2: "n_log n2 = n_log n" "n_last n2 = n_last n" "n_commit n2 = n_commit n" "n_applied n2 = n_applied n"
      using ok'(5) by (simp_all add: touched_def)
    have "?p \<le> n_last n \<and> agree (n_log n) ?h ?p"
    proof (cases "?p = 0")
      case True
      obtain l where l: "hist_ok (ae_Term req) ?h l" using log_inv_hist(1) [OF inv] by blast
      have "n_log n i = None" "?h i = None" if "i \<le> 0" for i
        using that hist_okD(5) [OF ok(2), of i] hist_okD(5) [OF l, of i] by auto
      then show ?thesis using True hist_okD(6) [OF ok(2)] by (simp add: agree_def)
    next
      case False
      with ok'(2) p0 obtain e where e: "n_log n ?p = Some e" "le_Term e = ae_PrevLogTerm req"
        by (auto simp: s_check_prev_def split: if_splits option.splits)
      with False req'(2) matches_agree [OF ok(3) log_inv_hist(2) [OF inv] e(1)] hist_okD(5) [OF ok(2), of ?p]
      show ?thesis by force
    qed
    then have m: "n_log (s_merge (ae_es req) n2) = n_log n2 \<and> n_last (s_merge (ae_es req) n2) = n_last n2
        \<and> agree (n_log n2) ?h (ae_upto req) \<and> ae_upto req \<le> n_last n2
      \<or> n_log (s_merge (ae_es req) n2) = ?h |` {..ae_upto req} \<and> n_last (s_merge (ae_es req) n2) = ae_upto req
        \<and> \<not> agree (n_log n2) ?h (ae_upto req)"
      using s_merge_result [of n2 ?p "ae_es req" ?h] p0 req'(3) n2(1,2) hist_okD(1) [OF ok(2)]
        matches_agree [OF ok(3) log_inv_hist(2) [OF inv]] by (simp add: ae_upto_def)
    have c: "n_commit n' = (if ae_LeaderCommit req > n_commit n then min (ae_LeaderCommit req) (n_last n') else n_commit n)"
      using ok'(3) n2(3) by (simp add: s_advance_def)
    from m have "agree (n_log n') ?h (ae_upto req) \<and> ae_upto req \<le> n_last n'"
      using ok'(3) agree_restrict [of "ae_upto req" "ae_upto req" ?h] by auto
    with m c ok' n2 show ?thesis by (auto simp: resp_ok_def)
  qed
  then show "n_log n' = n_log n \<and> n_last n' = n_last n
      \<or> n_term n' = ae_Term req \<and> n_log n' = ?h |` {..ae_upto req} \<and> n_last n' = ae_upto req
        \<and> \<not> agree (n_log n) ?h (ae_upto req)"
    "aer_Success resp \<Longrightarrow> n_term n \<le> ae_Term req \<and> n_term n' = ae_Term req
        \<and> agree (n_log n') ?h (ae_upto req) \<and> ae_upto req \<le> n_last n'
        \<and> n_commit n' = (if ae_LeaderCommit req > n_commit n then min (ae_LeaderCommit req) (n_last n') else n_commit n)"
    "\<not> aer_Success resp \<Longrightarrow> n_log n' = n_log n \<and> n_last n' = n_last n \<and> n_commit n' = n_commit n"
    "resp_ok req resp" "n_applied n' = n_applied n" by blast+
qed

section \<open>Preservation\<close>

lemma log_invI:
  assumes "\<And>j. j \<in> S \<Longrightarrow> log_node_ok S H j (nodes C j)" "hist_part S C H" "msg_part S C H"
  shows "log_inv S C H"
  using assms by (simp add: log_inv_def)

text \<open>A step that changes one node and leaves the histories alone.\<close>

lemma log_change:
  assumes inv: "log_inv S C H" and nodes: "nodes C' = (nodes C)(i := n')"
    and n': "i \<in> S \<Longrightarrow> log_node_ok S H i n'" "n_term (nodes C i) \<le> n_term n'"
      "n_role n' = Candidate \<Longrightarrow> n_role (nodes C i) = Candidate \<or> n_term (nodes C i) < n_term n'"
    and won: "\<And>t j. won S C t j \<Longrightarrow> won S C' t j" and msg: "msg_part S C' H"
  shows "log_inv S C' H"
proof (rule log_invI)
  show "log_node_ok S H j (nodes C' j)" if "j \<in> S" for j
    using that inv n'(1) by (cases "j = i") (auto simp: nodes log_inv_def)
  have "led S C' t" if "led S C t" for t
    by (rule led_mono [OF that won]) (use n'(2,3) nodes in \<open>auto split: if_splits\<close>)
  then show "hist_part S C' H" using inv by (auto simp: log_inv_def hist_part_def)
qed (rule msg)

lemma msg_part_cong:
  assumes "msg_part S C H" "elections C' = elections C" "beats C' = beats C" "aereqs C' = aereqs C" "aeresps C' = aeresps C"
    "\<And>t j. won S C t j \<Longrightarrow> won S C' t j" "hist_le H H'"
  shows "msg_part S C' H'"
  using assms(1) ae_ok_mono [OF _ assms(6,7)] unfolding msg_part_def assms(2-5) by metis

text \<open>A change that keeps the log.\<close>

lemma log_node_keep:
  assumes "log_node_ok S H i n" "n_log n' = n_log n" "n_last n' = n_last n" "n_term n \<le> n_term n'" "lead_ok S H i n'"
  shows "log_node_ok S H i n'"
  using assms hist_ok_mono [of "n_term n" "n_log n" "n_last n" "n_term n'"] by (simp add: log_node_ok_def)

lemma lead_ok_keep:
  assumes "lead_ok S H i n" "quiet n n'" "n_log n' = n_log n" "n_last n' = n_last n" "n_role n' = Leader \<Longrightarrow> n_next n' = n_next n"
  shows "lead_ok S H i n'"
  using assms by (auto simp: lead_ok_def quiet_def)

lemma quiet_term: "quiet n n' \<Longrightarrow> n_term n \<le> n_term n'"
  by (auto simp: quiet_defs)

lemma log_quiet:
  assumes inv: "log_inv S C H" and nodes: "nodes C' = (nodes C)(i := n')" and q: "quiet (nodes C i) n'"
    and keep: "n_log n' = n_log (nodes C i)" "n_last n' = n_last (nodes C i)" "i \<in> S \<Longrightarrow> lead_ok S H i n'"
    and won: "\<And>t j. won S C t j \<Longrightarrow> won S C' t j" and msg: "msg_part S C' H"
  shows "log_inv S C' H"
proof (rule log_change [OF inv nodes _ _ _ won msg])
  show "log_node_ok S H i n'" if "i \<in> S"
    using log_node_keep [of S H i "nodes C i" n'] inv keep quiet_term [OF q] that by (simp add: log_inv_def)
qed (use q quiet_term [OF q] in \<open>auto simp: quiet_def\<close>)

text \<open>The leader of a term extends its log, and the history of the term with it.\<close>

lemma matches_ext:
  assumes "matches H m" "\<And>k e. H t k = Some e \<Longrightarrow> agree (H t) h k"
  shows "matches (H(t := h)) m"
  unfolding matches_def
proof (intro allI impI)
  fix k e
  assume k: "m k = Some e"
  note a = matchesD [OF assms(1) k]
  show "agree m ((H(t := h)) (le_Term e)) k"
  proof (cases "le_Term e = t")
    case True
    then have "H t k = Some e" using a k agreeD [OF a, of k] by simp
    from agree_trans [OF _ assms(2) [OF this]] a True show ?thesis by simp
  qed (use a in simp)
qed

lemma log_extend:
  assumes inv: "log_inv S C H" and i: "i \<in> S" and n: "n = nodes C i" "t = n_term n" "1 \<le> t"
    and old: "H t = n_log n \<or> H t = Map.empty"
    and n': "n_log n' = (n_log n)(n_last n + 1 \<mapsto> \<lparr>le_Term = t, le_Index = n_last n + 1, le_Command = cmd\<rparr>)"
      "n_last n' = n_last n + 1" "n_term n' = t" "n_role n' = Leader"
      "\<forall>p\<in>S - {i}. 1 \<le> go_get (n_next n') p \<and> go_get (n_next n') p \<le> n_last n' + 1"
    and other: "\<And>j. j \<in> S \<Longrightarrow> j \<noteq> i \<Longrightarrow> n_role (nodes C j) = Leader \<Longrightarrow> n_term (nodes C j) \<noteq> t"
    and C': "nodes C' = (nodes C)(i := n')" "elections C' = elections C" "beats C' = beats C"
      "aereqs C' = aereqs C" "aeresps C' = aeresps C"
    and won: "\<And>t j. won S C t j \<Longrightarrow> won S C' t j" "won S C' t i"
  shows "log_inv S C' (H(t := n_log n'))" "hist_le H (H(t := n_log n'))"
    "\<And>k e. H t k = Some e \<Longrightarrow> agree (H t) (n_log n') k"
proof -
  let ?H = "H(t := n_log n')"
  note ok = log_invD [OF inv i, folded n(1), folded n(2)]
  have new: "n_log n (n_last n + 1) = None" using hist_okD(5) [OF ok(2)] by simp
  have same: "agree (n_log n) (n_log n') k" if "n_log n k = Some e" for k e
    using that hist_okD(5) [OF ok(2), of k] n'(1) by (auto simp: agree_def)
  then show ext: "agree (H t) (n_log n') k" if "H t k = Some e" for k e using that old by auto
  show le: "hist_le H ?H" using old new n'(1) by (auto simp: hist_le_def map_le_def)
  have m: "matches ?H m" if "matches H m" for m using matches_ext [OF that ext] .
  have ok': "hist_ok t (n_log n') (n_last n')"
    using hist_ok_snoc [OF ok(2) n(3)] n'(1,2) by simp
  have mn: "matches ?H (n_log n')"
    unfolding matches_def
  proof (intro allI impI)
    fix k e
    assume k: "n_log n' k = Some e"
    show "agree (n_log n') (?H (le_Term e)) k"
    proof (cases "k = n_last n + 1")
      case True
      with k n'(1) show ?thesis by auto
    next
      case False
      with k n'(1) have k': "n_log n k = Some e" by simp
      from agree_trans [OF agree_sym [OF same [OF k']] matchesD [OF m [OF ok(3)] k']] show ?thesis .
    qed
  qed
  show "log_inv S C' ?H"
  proof (rule log_invI)
    fix j
    assume j: "j \<in> S"
    show "log_node_ok S ?H j (nodes C' j)"
    proof (cases "j = i")
      case True
      with n' n(3) ok' mn C'(1) show ?thesis by (simp add: log_node_ok_def lead_ok_def)
    next
      case False
      with log_invD [OF inv j] m other [OF j False] C'(1) show ?thesis
        by (auto simp: log_node_ok_def lead_ok_def)
    qed
  next
    have "led S C' u" if "led S C u" for u
      by (rule led_mono [OF that won(1)]) (use n'(3,4) C'(1) n in auto)
    moreover have "led S C' t" using won(2) i n'(3,4) C'(1) by (auto simp: led_def)
    ultimately show "hist_part S C' ?H"
      using inv ok' m mn unfolding hist_part_def log_inv_def by auto
  next
    show "msg_part S C' ?H" using inv msg_part_cong [OF _ C'(2-5) won(1) le] by (simp add: log_inv_def)
  qed
qed

section \<open>The steps\<close>

text \<open>Requests carry a segment of the leader's log that ends at its last entry.\<close>

lemma log_range_hist:
  assumes "hist_ok t m l" "1 \<le> a" "a \<le> l + 1"
  shows "follow (a - 1) (log_range m a (l + 1))" "a - 1 + int (length (log_range m a (l + 1))) = l"
    "\<And>e. e \<in> set (log_range m a (l + 1)) \<Longrightarrow> m (le_Index e) = Some e"
proof -
  have some: "m i \<noteq> None" if "i \<in> set [a..l]" for i using that assms hist_okD(5) [OF assms(1), of i] by auto
  then have r: "log_range m a (l + 1) = map (the \<circ> m) [a..l]"
    unfolding log_range_def map_filter_the by (subst filter_True) auto
  then show "a - 1 + int (length (log_range m a (l + 1))) = l" using assms(3) by simp
  have idx: "le_Index (the (m i)) = i" "m i = Some (the (m i))" if "i \<in> set [a..l]" for i
    using some [OF that] hist_okD(2) [OF assms(1)] by auto
  then show "m (le_Index e) = Some e" if "e \<in> set (log_range m a (l + 1))" for e
    using that r by auto
  have "follow (b - 1) (map (the \<circ> m) [b..l])" if "a \<le> b" for b
    using that
  proof (induction "nat (l + 1 - b)" arbitrary: b)
    case (Suc k)
    then have "b \<le> l" by linarith
    moreover from this have "le_Index (the (m b)) = b" using idx(1) [of b] Suc.prems by simp
    ultimately show ?case using Suc.hyps(1) [of "b + 1"] Suc.hyps(2) Suc.prems by (simp add: upto_rec1)
  qed simp
  then show "follow (a - 1) (log_range m a (l + 1))" using r by simp
qed

lemma s_request_ok:
  assumes inv: "log_inv S C H" and i: "i \<in> S" "n_id (nodes C i) = i" and p: "p \<in> S" "p \<noteq> i"
    and w: "won S C (n_term (nodes C i)) i"
    and req: "s_request p t c (nodes C i) = Some req"
  shows "ae_ok S C H p req" "ae_upto req = n_last (nodes C i)" "ae_LeaderCommit req = c" "ae_Term req = t"
    "n_role (nodes C i) = Leader" "n_term (nodes C i) = t" "ae_LeaderId req = i"
proof -
  let ?n = "nodes C i"
  note ok = log_invD [OF inv i(1)]
  let ?ni = "go_get (n_next ?n) p"
  from req have r: "n_role ?n = Leader" "n_term ?n = t"
    "req = \<lparr>ae_Term = t, ae_LeaderId = i, ae_PrevLogIndex = ?ni - 1, ae_PrevLogTerm = term_at (n_log ?n) (?ni - 1),
       ae_Entries = convertLogEntriesToProto (log_range (n_log ?n) ?ni (n_last ?n + 1)), ae_LeaderCommit = c\<rparr>"
    using i(2) by (auto simp: s_request_def Let_def split: if_splits)
  have l: "H t = n_log ?n" "1 \<le> ?ni" "?ni \<le> n_last ?n + 1" using ok(4) r p by (auto simp: lead_ok_def)
  note rg = log_range_hist [OF ok(2) l(2,3)]
  have "?ni - 1 = 0 \<or> (\<exists>e. n_log ?n (?ni - 1) = Some e \<and> le_Term e = term_at (n_log ?n) (?ni - 1))"
  proof (cases "?ni = 1")
    case False
    then obtain e where "n_log ?n (?ni - 1) = Some e"
      using l hist_okD(5) [OF ok(2), of "?ni - 1"] by (cases "n_log ?n (?ni - 1)") auto
    then show ?thesis by simp
  qed simp
  with rg l i p w r show "ae_ok S C H p req" by (simp add: ae_ok_def ae_wf_def)
  show "ae_upto req = n_last ?n" using rg(2) r(3) by (simp add: ae_upto_def)
  show "ae_LeaderCommit req = c" "ae_Term req = t" "n_role ?n = Leader" "n_term ?n = t" "ae_LeaderId req = i"
    using r by simp_all
qed

lemma ae_upto_bounds:
  assumes "ae_ok S C H p req" "hist_ok (ae_Term req) (H (ae_Term req)) l"
  shows "0 \<le> ae_upto req" "ae_upto req \<le> l"
    "0 \<le> ae_PrevLogIndex req" "ae_PrevLogIndex req \<le> l"
proof -
  let ?h = "H (ae_Term req)" and ?p = "ae_PrevLogIndex req"
  have a: "0 \<le> ?p" "follow ?p (ae_es req)" "?p = 0 \<or> (\<exists>e. ?h ?p = Some e \<and> le_Term e = ae_PrevLogTerm req)"
    "\<forall>e\<in>set (ae_es req). ?h (le_Index e) = Some e"
    using assms(1) by (auto simp: ae_ok_def ae_wf_def)
  have le: "k \<le> l" if "?h k = Some e" for k e using that hist_okD(5) [OF assms(2), of k] by auto
  show "0 \<le> ?p" using a(1) .
  show pl: "?p \<le> l" using a(3) le hist_okD(6) [OF assms(2)] by auto
  have "q + int (length es) \<le> l" if "follow q es" "\<forall>e\<in>set es. ?h (le_Index e) = Some e" "q \<le> l" for q es
    using that
  proof (induction es arbitrary: q)
    case (Cons e es)
    then have "q + 1 \<le> l" using le by auto
    with Cons show ?case by (simp add: algebra_simps) (metis add.commute add.left_commute)
  qed simp
  from this [OF a(2,4) pl] show "ae_upto req \<le> l" by (simp add: ae_upto_def)
  show "0 \<le> ae_upto req" using a(1) by (simp add: ae_upto_def)
qed

lemma s_backup_frame [simp]:
  "n_log (s_backup p resp n) = n_log n" "n_last (s_backup p resp n) = n_last n"
  "n_term (s_backup p resp n) = n_term n" "n_role (s_backup p resp n) = n_role n"
  "n_commit (s_backup p resp n) = n_commit n" "n_match (s_backup p resp n) = n_match n"
  "n_applied (s_backup p resp n) = n_applied n"
  by (simp_all add: s_backup_def Let_def)

lemma s_checkCommit_frame [simp]:
  "n_log (s_checkCommit n) = n_log n" "n_last (s_checkCommit n) = n_last n"
  "n_term (s_checkCommit n) = n_term n" "n_role (s_checkCommit n) = n_role n"
  "n_next (s_checkCommit n) = n_next n" "n_match (s_checkCommit n) = n_match n"
  "n_applied (s_checkCommit n) = n_applied n"
  by (simp_all add: s_checkCommit_def)

lemma s_appendResp_log [simp]:
  "n_log (s_appendResp p t prev k resp n) = n_log n" "n_last (s_appendResp p t prev k resp n) = n_last n"
  "n_applied (s_appendResp p t prev k resp n) = n_applied n"
  by (simp_all add: s_appendResp_def Let_def s_stepDown_def)

text \<open>After a rejection the leader probes at an index it has.\<close>

lemma s_backup_bounds:
  assumes "1 \<le> aer_ConflictIndex resp" "aer_ConflictIndex resp \<le> n_last n"
    "1 \<le> go_get (n_next n) q" "go_get (n_next n) q \<le> n_last n + 1"
  shows "1 \<le> go_get (n_next (s_backup p resp n)) q" "go_get (n_next (s_backup p resp n)) q \<le> n_last n + 1"
proof -
  let ?xs = "filter (\<lambda>i. term_at (n_log n) i = aer_ConflictTerm resp) (rev [1..n_last n])"
  let ?ni = "case ?xs of [] \<Rightarrow> aer_ConflictIndex resp | i # _ \<Rightarrow> i + 1"
  have "1 \<le> ?ni \<and> ?ni \<le> n_last n + 1"
  proof (cases ?xs)
    case (Cons i ys)
    then have "i \<in> set ?xs" by (metis list.set_intros(1))
    then have "1 \<le> i \<and> i \<le> n_last n" by simp
    with Cons show ?thesis by simp
  qed (use assms in simp)
  moreover have "go_get (n_next (s_backup p resp n)) q = go_get (n_next n) q
      \<or> go_get (n_next (s_backup p resp n)) q = ?ni \<or> go_get (n_next (s_backup p resp n)) q = aer_ConflictIndex resp"
    using assms(1) by (simp add: s_backup_def Let_def)
  ultimately show "1 \<le> go_get (n_next (s_backup p resp n)) q" "go_get (n_next (s_backup p resp n)) q \<le> n_last n + 1"
    using assms by auto
qed

lemma lead_ok_appendResp:
  assumes inv: "log_inv S C H" and i: "i \<in> S" and resp: "(p, req, resp) \<in> aeresps C" "ae_LeaderId req = i"
  shows "lead_ok S H i (s_appendResp p (ae_Term req) (ae_PrevLogIndex req) (length (ae_Entries req)) resp (nodes C i))"
    (is "lead_ok S H i ?n'")
proof (cases "n_role (nodes C i) = Leader \<and> n_term (nodes C i) = ae_Term req \<and> \<not> aer_Term resp > n_term (nodes C i)")
  case False
  then show ?thesis using log_invD(4) [OF inv i] by (auto simp: s_appendResp_def lead_ok_def s_stepDown_def)
next
  case True
  let ?n = "nodes C i"
  have l: "H (ae_Term req) = n_log ?n" "hist_ok (ae_Term req) (n_log ?n) (n_last ?n)" "1 \<le> n_term ?n"
    "\<forall>q\<in>S - {i}. 1 \<le> go_get (n_next ?n) q \<and> go_get (n_next ?n) q \<le> n_last ?n + 1" "n_log ?n \<noteq> Map.empty"
    using log_invD(2,4) [OF inv i] True by (auto simp: lead_ok_def)
  have ok: "ae_ok S C H p req" "resp_ok req resp" using log_inv_req(1-3) [OF inv] resp(1) by blast+
  note b = ae_upto_bounds [OF ok(1), unfolded l(1), OF l(2)]
  show ?thesis
  proof (cases "aer_Success resp")
    case True': True
    then show ?thesis using True l b(1,2) by (auto simp: lead_ok_def s_appendResp_def Let_def ae_upto_def)
  next
    case False
    with ok(2) True have "1 \<le> aer_ConflictIndex resp" "aer_ConflictIndex resp \<le> n_last ?n"
      using b(4) by (auto simp: resp_ok_def)
    with s_backup_bounds [of resp ?n _ p] True False l show ?thesis by (simp add: lead_ok_def s_appendResp_def)
  qed
qed

text \<open>Steps whose node change is quiet and keeps the log.\<close>

lemma won_keep:
  assumes "rvresps C \<subseteq> rvresps C'" "\<And>i t. elections C i t \<noteq> None \<Longrightarrow> elections C' i t \<noteq> None" "won S C t j"
  shows "won S C' t j"
  using won_mono [OF assms(3)] voted_mono [OF _ assms(1,2)] by blast

lemma log_start:
  assumes inv: "log_inv S C H" and el: "election_inv S C" and i: "i \<in> S"
    and n': "n' = s_startElection (nodes C i)"
    and C': "nodes C' = (nodes C)(i := n')"
      "elections C' = (elections C)(i := (elections C i)(n_term (nodes C i) + 1 \<mapsto> ses))" "ses_lt ses = last_term (nodes C i)"
      "rvresps C' = rvresps C" "beats C' = beats C" "aereqs C' = aereqs C" "aeresps C' = aeresps C"
  shows "log_inv S C' H"
proof -
  note ok = log_invD [OF inv i]
  have won: "won S C' t j" if "won S C t j" for t j
    by (rule won_keep [OF _ _ that]) (use C' in auto)
  have ae: "ae_ok S C' H p req" if "(p, req) \<in> aereqs C" for p req
    using ae_ok_mono [OF log_inv_req(1) [OF inv that] won hist_le_refl] .
  have lt: "last_term (nodes C i) \<le> n_term (nodes C i)"
    using ok(1) hist_okD(4) [OF ok(2)] by (auto simp: last_term_def term_at_def split: option.splits)
  have msg: "msg_part S C' H"
    using log_inv_req(2-5) [OF inv] ae lt ok(1) C'(2,3) unfolding msg_part_def C'(5-7)
    by (auto split: if_splits)
  show ?thesis
  proof (rule log_change [OF inv C'(1) _ _ _ won msg])
    show "log_node_ok S H i n'"
      using log_node_keep [of S H i "nodes C i" n'] inv i n'
      by (simp add: log_inv_def s_startElection_def lead_ok_def)
  qed (simp_all add: n' s_startElection_def)
qed

lemma log_win:
  assumes inv: "log_inv S C H" and el: "election_inv S C" and i: "i \<in> S"
    and cand: "n_role (nodes C i) = Candidate" and w: "won S C (n_term (nodes C i)) i"
    and C': "nodes C' = (nodes C)(i := s_becomeLeader (nodes C i))"
      "elections C' = elections C" "beats C' = beats C" "aereqs C' = aereqs C" "aeresps C' = aeresps C" "rvresps C' = rvresps C"
  shows "H (n_term (nodes C i)) = Map.empty"
    "log_inv S C' (H(n_term (nodes C i) := n_log (s_becomeLeader (nodes C i))))"
    "hist_le H (H(n_term (nodes C i) := n_log (s_becomeLeader (nodes C i))))"
proof -
  let ?n = "nodes C i"
  note ok = log_invD [OF inv i]
  have parts: "config_inv S C" "vote_inv S C" "role_inv S C" using el by (simp_all add: election_inv_def)
  obtain ses where ses: "elections C i (n_term ?n) = Some ses"
    using parts(3) i cand by (auto simp: role_inv_def cand_ok_def)
  have t: "1 \<le> n_term ?n" using log_inv_req(5) [OF inv ses] by simp
  show e: "H (n_term ?n) = Map.empty"
  proof (rule ccontr)
    assume "H (n_term ?n) \<noteq> Map.empty"
    from log_inv_hist(3) [OF inv this] obtain j where "won S C (n_term ?n) j"
      "n_term (nodes C j) = n_term ?n \<longrightarrow> n_role (nodes C j) \<noteq> Candidate" by (auto simp: led_def)
    with won_unique [OF parts(1,2) w] cand show False by auto
  qed
  have other: "n_term (nodes C j) \<noteq> n_term ?n" if "j \<in> S" "j \<noteq> i" "n_role (nodes C j) = Leader" for j
    using that parts won_unique [OF parts(1,2) w, of j] by (auto simp: role_inv_def)
  have won: "won S C' t j" if "won S C t j" for t j
    by (rule won_keep [OF _ _ that]) (use C' in auto)
  have nxt: "1 \<le> go_get (n_next (s_becomeLeader ?n)) p \<and> go_get (n_next (s_becomeLeader ?n)) p \<le> n_last (s_becomeLeader ?n) + 1"
    if "p \<in> S - {i}" for p
    using that config_invD(3) [OF parts(1) i] hist_okD(6) [OF ok(2)]
    by (simp add: s_becomeLeader_def s_append_def go_get_def)
  show "log_inv S C' (H(n_term ?n := n_log (s_becomeLeader ?n)))" "hist_le H (H(n_term ?n := n_log (s_becomeLeader ?n)))"
    by (rule log_extend [OF inv i refl refl t _ becomeLeader_log _ _ _ _ _ C'(1-5) won won [OF w]];
        use e other nxt in auto)+
qed

lemma log_propose:
  assumes inv: "log_inv S C H" and el: "election_inv S C" and i: "i \<in> S" and lead: "n_role (nodes C i) = Leader"
    and C': "nodes C' = (nodes C)(i := s_append cmd (nodes C i))"
      "elections C' = elections C" "beats C' = beats C" "aereqs C' = aereqs C" "aeresps C' = aeresps C" "rvresps C' = rvresps C"
  shows "log_inv S C' (H(n_term (nodes C i) := n_log (s_append cmd (nodes C i))))"
    "hist_le H (H(n_term (nodes C i) := n_log (s_append cmd (nodes C i))))"
    "\<And>k e. H (n_term (nodes C i)) k = Some e \<Longrightarrow> agree (H (n_term (nodes C i))) (n_log (s_append cmd (nodes C i))) k"
proof -
  let ?n = "nodes C i"
  have l: "1 \<le> n_term ?n" "H (n_term ?n) = n_log ?n"
    "\<forall>p\<in>S - {i}. 1 \<le> go_get (n_next ?n) p \<and> go_get (n_next ?n) p \<le> n_last ?n + 1"
    using log_invD(4) [OF inv i] lead by (auto simp: lead_ok_def)
  have w: "won S C (n_term ?n) i" using el i lead by (auto simp: election_inv_def role_inv_def)
  have won: "won S C' t j" if "won S C t j" for t j
    by (rule won_keep [OF _ _ that]) (use C' in auto)
  have other: "n_term (nodes C j) \<noteq> n_term ?n" if "j \<in> S" "j \<noteq> i" "n_role (nodes C j) = Leader" for j
    using election_safety [OF el i that(1) lead that(3)] that(2) by auto
  have app: "n_log (s_append cmd ?n) = (n_log ?n)(n_last ?n + 1 \<mapsto> \<lparr>le_Term = n_term ?n, le_Index = n_last ?n + 1, le_Command = cmd\<rparr>)"
    by (simp add: s_append_def)
  note ext = log_extend [OF inv i refl refl l(1) disjI1 [OF l(2)] app _ _ _ _ _ C'(1-5) won won [OF w]]
  show "log_inv S C' (H(n_term ?n := n_log (s_append cmd ?n)))" "hist_le H (H(n_term ?n := n_log (s_append cmd ?n)))"
    "\<And>k e. H (n_term ?n) k = Some e \<Longrightarrow> agree (H (n_term ?n)) (n_log (s_append cmd ?n)) k"
    by (rule ext; use l lead other in \<open>force simp: s_append_def\<close>)+
qed

text \<open>A leader ignores the requests of other leaders: theirs is an older term.\<close>

lemma append_leader:
  assumes el: "election_inv S C" and inv: "log_inv S C H" and req: "(p, req) \<in> aereqs C"
    and lead: "n_role (fst (s_HandleAppendEntries req (nodes C p))) = Leader"
  shows "ae_Term req < n_term (nodes C p)" "fst (s_HandleAppendEntries req (nodes C p)) = nodes C p"
proof -
  let ?n = "nodes C p"
  have ok: "p \<in> S" "p \<noteq> ae_LeaderId req" "won S C (ae_Term req) (ae_LeaderId req)"
    using log_inv_req(1) [OF inv req] by (auto simp: ae_ok_def)
  have q: "n_role ?n = Leader" "n_term (fst (s_HandleAppendEntries req ?n)) = n_term ?n"
    using quiet_HandleAppendEntries [of ?n req] lead by (auto simp: quiet_def)
  have parts: "config_inv S C" "vote_inv S C" "role_inv S C" using el by (simp_all add: election_inv_def)
  have "won S C (n_term ?n) p" using parts(3) ok(1) q(1) by (auto simp: role_inv_def)
  with won_unique [OF parts(1,2) ok(3), of p] ok(2) have "ae_Term req \<noteq> n_term ?n" by auto
  moreover obtain n' resp where r: "s_HandleAppendEntries req ?n = (n', resp)" by (cases "s_HandleAppendEntries req ?n")
  ultimately show "ae_Term req < n_term ?n" "fst (s_HandleAppendEntries req ?n) = ?n"
    using q by (cases rule: append_cases [OF r]; auto simp: r)+
qed

lemma log_append:
  assumes el: "election_inv S C" and inv: "log_inv S C H" and req: "(p, req) \<in> aereqs C"
    and C': "C' = set_node p (fst (s_HandleAppendEntries req (nodes C p)))
        (C\<lparr>aeresps := insert (p, req, snd (s_HandleAppendEntries req (nodes C p))) (aeresps C)\<rparr>)"
  shows "log_inv S C' H"
proof -
  let ?n = "nodes C p" and ?h = "H (ae_Term req)"
  obtain n' resp where r: "s_HandleAppendEntries req ?n = (n', resp)" by (cases "s_HandleAppendEntries req ?n")
  have ok: "ae_ok S C H p req" using log_inv_req(1) [OF inv req] .
  then have p: "p \<in> S" by (simp add: ae_ok_def)
  note eff = append_effect [OF inv p ok refl r]
  note nd = log_invD [OF inv p]
  have q: "quiet ?n n'" using quiet_HandleAppendEntries [of ?n req] r by simp
  have won: "won S C' t j" if "won S C t j" for t j
    by (rule won_keep [OF _ _ that]) (simp_all add: C')
  have lead: "lead_ok S H p n'"
    using append_leader(2) [OF el inv req] nd(4) r by (cases "n_role n' = Leader") (auto simp: lead_ok_def)
  have "log_node_ok S H p n'"
    using eff(1)
  proof
    assume "n_log n' = n_log ?n \<and> n_last n' = n_last ?n"
    then show ?thesis using log_node_keep [of S H p ?n n'] inv p lead quiet_term [OF q] by (simp add: log_inv_def)
  next
    assume a: "n_term n' = ae_Term req \<and> n_log n' = ?h |` {..ae_upto req} \<and> n_last n' = ae_upto req
        \<and> \<not> agree (n_log ?n) ?h (ae_upto req)"
    obtain l where l: "hist_ok (ae_Term req) ?h l" using log_inv_hist(1) [OF inv] by blast
    from hist_ok_restrict [OF l ae_upto_bounds(1,2) [OF ok l]] matches_restrict [OF log_inv_hist(2) [OF inv]]
      nd(1) quiet_term [OF q] lead a show ?thesis by (auto simp: log_node_ok_def)
  qed
  moreover have "msg_part S C' H"
    using log_inv_req [OF inv] ae_ok_mono [OF _ won hist_le_refl] eff(4) r req unfolding msg_part_def C'
    by (simp add: C') blast
  ultimately show ?thesis
    using q quiet_term [OF q] r by (intro log_change [OF inv, of C' p n']) (auto simp: C' quiet_def won_def voted_def)
qed

text \<open>All other steps keep every log and every history.\<close>

definition plain_step :: "node_id set \<Rightarrow> spec_node cluster \<Rightarrow> spec_node cluster \<Rightarrow> node_id \<Rightarrow> spec_node \<Rightarrow> bool" where
  "plain_step S C C' i n' \<longleftrightarrow> nodes C' = (nodes C)(i := n') \<and> quiet (nodes C i) n'
     \<and> n_log n' = n_log (nodes C i) \<and> n_last n' = n_last (nodes C i)
     \<and> rvresps C \<subseteq> rvresps C' \<and> aeresps C' = aeresps C \<and> aereqs C \<subseteq> aereqs C'
     \<and> (\<forall>j t. map_option (\<lambda>s. (ses_li s, ses_lt s)) (elections C' j t) = map_option (\<lambda>s. (ses_li s, ses_lt s)) (elections C j t))"

lemma plain_stepD:
  assumes "plain_step S C C' i n'"
  shows "nodes C' = (nodes C)(i := n')" "quiet (nodes C i) n'" "n_log n' = n_log (nodes C i)"
    "n_last n' = n_last (nodes C i)" "rvresps C \<subseteq> rvresps C'" "aeresps C' = aeresps C" "aereqs C \<subseteq> aereqs C'"
    "map_option (\<lambda>s. (ses_li s, ses_lt s)) (elections C' j t) = map_option (\<lambda>s. (ses_li s, ses_lt s)) (elections C j t)"
  using assms by (simp_all add: plain_step_def)

lemma plain_elections:
  assumes "plain_step S C C' i n'"
  shows "elections C' j t = None \<longleftrightarrow> elections C j t = None"
    "elections C' j t = Some s \<Longrightarrow> \<exists>s0. elections C j t = Some s0 \<and> ses_li s0 = ses_li s \<and> ses_lt s0 = ses_lt s"
  using plain_stepD(8) [OF assms, of j t] by (cases "elections C' j t"; cases "elections C j t"; simp)+

lemma msg_partI:
  assumes "\<And>i t ses. elections C i t = Some ses \<Longrightarrow> 1 \<le> t \<and> ses_lt ses < t"
    "\<And>i p t c. (i, p, t, c) \<in> beats C \<Longrightarrow> i \<in> S \<and> p \<in> S \<and> p \<noteq> i"
    "\<And>p req. (p, req) \<in> aereqs C \<Longrightarrow> ae_ok S C H p req"
    "\<And>p req resp. (p, req, resp) \<in> aeresps C \<Longrightarrow> (p, req) \<in> aereqs C \<and> resp_ok req resp"
  shows "msg_part S C H"
  using assms unfolding msg_part_def by blast

lemma log_plain:
  assumes inv: "log_inv S C H" and st: "plain_step S C C' i n'" and lead: "i \<in> S \<Longrightarrow> lead_ok S H i n'"
    and req: "\<And>p req. (p, req) \<in> aereqs C' \<Longrightarrow> (p, req) \<in> aereqs C \<or> ae_ok S C H p req"
    and beats: "\<And>j p t c. (j, p, t, c) \<in> beats C' \<Longrightarrow> (j, p, t, c) \<in> beats C \<or> j \<in> S \<and> p \<in> S \<and> p \<noteq> j"
  shows "log_inv S C' H"
proof -
  note d = plain_stepD [OF st]
  have won: "won S C' t j" if "won S C t j" for t j
    by (rule won_keep [OF d(5) _ that]) (simp add: plain_elections(1) [OF st])
  have "msg_part S C' H"
  proof (rule msg_partI)
    show "1 \<le> t \<and> ses_lt s < t" if "elections C' j t = Some s" for j t s
      using plain_elections(2) [OF st that] log_inv_req(5) [OF inv] by metis
    show "j \<in> S \<and> p \<in> S \<and> p \<noteq> j" if "(j, p, t, c) \<in> beats C'" for j p t c
      using beats [OF that] log_inv_req(4) [OF inv] by blast
    show "ae_ok S C' H p req" if "(p, req) \<in> aereqs C'" for p req
      using req [OF that] log_inv_req(1) [OF inv] ae_ok_mono [OF _ won hist_le_refl] by blast
    show "(p, req) \<in> aereqs C' \<and> resp_ok req resp" if "(p, req, resp) \<in> aeresps C'" for p req resp
      using that log_inv_req(2,3) [OF inv] d(6,7) by blast
  qed
  from log_quiet [OF inv d(1-4) lead won this] show ?thesis .
qed

end
