(* ===== verification/Raft_Completeness.thy ===== *)
theory Raft_Completeness
  imports Raft_Histories
begin

text \<open>
  Leader completeness. An entry is acknowledged by a node when the node has accepted it from the
  leader of its term, or is that leader. The invariants say what becomes of an acknowledged entry:
  the node keeps it unless a later leader lacks it, a voter passes the constraint on to the candidate
  it votes for, and a leader has it unless an earlier leader already lacked it. An entry of the
  leader's term acknowledged by a majority is then part of every later history.
\<close>

section \<open>Growth of histories\<close>

definition hist_grow :: "hist \<Rightarrow> hist \<Rightarrow> bool" where
  "hist_grow H H' \<longleftrightarrow> hist_le H H' \<and>
     (\<forall>t k e. H t \<noteq> Map.empty \<longrightarrow> H t k = None \<longrightarrow> H' t k = Some e \<longrightarrow> le_Term e = t)"

lemma hist_grow_refl [simp]: "hist_grow H H"
  by (simp add: hist_grow_def)

lemma hist_grow_le: "hist_grow H H' \<Longrightarrow> hist_le H H'"
  by (simp add: hist_grow_def)

text \<open>All histories of a family have the shape of a log.\<close>

definition hists_ok :: "hist \<Rightarrow> bool" where
  "hists_ok H \<longleftrightarrow> (\<forall>t. (\<exists>l. hist_ok t (H t) l) \<and> matches H (H t))"

lemma log_inv_hists: "log_inv S C H \<Longrightarrow> hists_ok H"
  using log_inv_hist by (auto simp: hists_ok_def)

lemma hists_okD:
  assumes "hists_ok H" "H t k = Some e"
  shows "1 \<le> k" "le_Term e \<le> t" "1 \<le> le_Term e" "le_Index e = k" "\<And>i. 1 \<le> i \<Longrightarrow> i \<le> k \<Longrightarrow> H t i \<noteq> None"
proof -
  obtain l where l: "hist_ok t (H t) l" using assms(1) by (auto simp: hists_ok_def)
  have "\<not> (k < 1 \<or> l < k)" using hist_okD(5) [OF l, of k] assms(2) by simp
  then show "1 \<le> k" "\<And>i. 1 \<le> i \<Longrightarrow> i \<le> k \<Longrightarrow> H t i \<noteq> None" using hist_okD(5) [OF l] by auto
  show "le_Term e \<le> t" "1 \<le> le_Term e" "le_Index e = k" using hist_okD(2-4) [OF l assms(2)] by auto
qed

lemma hists_ok_low: "hists_ok H \<Longrightarrow> i < 1 \<Longrightarrow> H t i = None"
  using hists_okD(1) [of H t i] by (cases "H t i") auto

lemma matches_mono_terms:
  assumes "hists_ok H" "matches H m" "m k = Some e" "m k' = Some e'" "k \<le> k'"
  shows "le_Term e \<le> le_Term e'"
proof -
  have "H (le_Term e') k = Some e" using agreeD [OF matchesD [OF assms(2,4)] assms(5)] assms(3) by simp
  then show ?thesis using hists_okD(2) [OF assms(1)] by blast
qed

lemma hist_le_same:
  assumes "hist_le H H'" "hists_ok H" "hists_ok H'" "H t k \<noteq> None" "i \<le> k"
  shows "H' t i = H t i"
proof (cases "1 \<le> i")
  case True
  then have "H t i \<noteq> None" using assms(4,5) hists_okD(5) [OF assms(2)] by blast
  then show ?thesis using hist_leD [OF assms(1)] by fastforce
next
  case False
  then show ?thesis using hists_ok_low [OF assms(2)] hists_ok_low [OF assms(3)] by simp
qed

lemma agree_grow:
  assumes "hist_le H H'" "hists_ok H" "hists_ok H'" "H t k \<noteq> None" "agree m (H t) k"
  shows "agree m (H' t) k"
  using assms(5) hist_le_same [OF assms(1-4)] by (simp add: agree_def)

lemma agree_grow2:
  assumes "hist_le H H'" "hists_ok H" "hists_ok H'" "H t k \<noteq> None" "agree (H u) (H t) k"
  shows "agree (H' u) (H' t) k"
proof -
  have "H u k \<noteq> None" using assms(4,5) by (simp add: agree_def)
  from hist_le_same [OF assms(1-3) this] agree_grow [OF assms] show ?thesis by (simp add: agree_def)
qed

text \<open>A later leader whose history lacks the entry.\<close>

definition lost :: "hist \<Rightarrow> int64 \<Rightarrow> int64 \<Rightarrow> int64 \<Rightarrow> bool" where
  "lost H t k u \<longleftrightarrow> t < u \<and> H u \<noteq> Map.empty \<and> \<not> agree (H u) (H t) k"

lemma lost_grow:
  assumes g: "hist_grow H H'" and ok: "hists_ok H" "hists_ok H'" and k: "H t k \<noteq> None" and l: "lost H t k u"
  shows "lost H' t k u"
proof -
  have le: "hist_le H H'" using g by (simp add: hist_grow_def)
  have u: "t < u" "H u \<noteq> Map.empty" "\<not> agree (H u) (H t) k" using l by (auto simp: lost_def)
  have "H' u \<noteq> Map.empty" using u(2) hist_leD [OF le] by (metis not_Some_eq)
  moreover have "\<not> agree (H' u) (H' t) k"
  proof
    assume a: "agree (H' u) (H' t) k"
    have "H u i = H t i" if "i \<le> k" for i
    proof (cases "H u i")
      case (Some e)
      then show ?thesis using hist_leD [OF le Some] agreeD [OF a that] hist_le_same [OF le ok k that] by simp
    next
      case None
      show ?thesis
      proof (cases "H t i")
        case (Some e)
        then have "H' u i = Some e" using agreeD [OF a that] hist_leD [OF le] by simp
        then have "le_Term e = u" using g None u(2) by (auto simp: hist_grow_def)
        moreover have "le_Term e \<le> t" using hists_okD(2) [OF ok(1) Some] .
        ultimately show ?thesis using u(1) by simp
      qed (simp add: None)
    qed
    then show False using u(3) by (simp add: agree_def)
  qed
  ultimately show ?thesis using u(1) by (simp add: lost_def)
qed

section \<open>Acknowledgements\<close>

definition acked :: "node_id set \<Rightarrow> spec_node cluster \<Rightarrow> hist \<Rightarrow> node_id \<Rightarrow> int64 \<Rightarrow> int64 \<Rightarrow> bool" where
  "acked S C H v t k \<longleftrightarrow> v \<in> S \<and> H t k \<noteq> None \<and>
     ((\<exists>req resp. (v, req, resp) \<in> aeresps C \<and> aer_Success resp \<and> ae_Term req = t \<and> k \<le> ae_upto req)
      \<or> won S C t v)"

definition ack_inv :: "node_id set \<Rightarrow> spec_node cluster \<Rightarrow> hist \<Rightarrow> bool" where
  "ack_inv S C H \<longleftrightarrow> (\<forall>v t k. acked S C H v t k \<longrightarrow> t \<le> n_term (nodes C v)
     \<and> (agree (n_log (nodes C v)) (H t) k \<or> (\<exists>u\<le>n_term (nodes C v). lost H t k u)))"

text \<open>The entry at index \<open>k\<close> of the history of \<open>t\<close> was created in \<open>t\<close>.\<close>

definition own :: "hist \<Rightarrow> int64 \<Rightarrow> int64 \<Rightarrow> bool" where
  "own H t k \<longleftrightarrow> (\<exists>e. H t k = Some e \<and> le_Term e = t)"

definition ballot_inv :: "node_id set \<Rightarrow> spec_node cluster \<Rightarrow> hist \<Rightarrow> bool" where
  "ballot_inv S C H \<longleftrightarrow> (\<forall>v u c ses t k. voted C v u c \<longrightarrow> elections C c u = Some ses \<longrightarrow> H u = Map.empty \<longrightarrow>
     t < u \<longrightarrow> acked S C H v t k \<longrightarrow> own H t k \<longrightarrow>
     (\<exists>w<u. lost H t k w) \<or> t < ses_lt ses \<or> ses_lt ses = t \<and> k \<le> ses_li ses)"

definition elector :: "node_id set \<Rightarrow> spec_node cluster \<Rightarrow> hist \<Rightarrow> int64 \<Rightarrow> node_id \<Rightarrow> bool" where
  "elector S C H u v \<longleftrightarrow> u \<le> n_term (nodes C v) \<and>
     (\<forall>t<u. \<forall>k. acked S C H v t k \<longrightarrow> own H t k \<longrightarrow> (\<exists>w<u. lost H t k w) \<or> agree (H u) (H t) k)"

definition leader_inv :: "node_id set \<Rightarrow> spec_node cluster \<Rightarrow> hist \<Rightarrow> bool" where
  "leader_inv S C H \<longleftrightarrow> (\<forall>u. H u \<noteq> Map.empty \<longrightarrow>
     (\<exists>G. G \<subseteq> S \<and> card S div 2 < card G \<and> (\<forall>v\<in>G. elector S C H u v)))"

definition completeness_inv :: "node_id set \<Rightarrow> spec_node cluster \<Rightarrow> hist \<Rightarrow> bool" where
  "completeness_inv S C H \<longleftrightarrow> ack_inv S C H \<and> ballot_inv S C H \<and> leader_inv S C H"

definition committed :: "node_id set \<Rightarrow> spec_node cluster \<Rightarrow> hist \<Rightarrow> int64 \<Rightarrow> int64 \<Rightarrow> bool" where
  "committed S C H t k \<longleftrightarrow> own H t k \<and>
     (\<exists>Q. Q \<subseteq> S \<and> card S div 2 < card Q \<and> (\<forall>v\<in>Q. acked S C H v t k))"

theorem leader_completeness:
  assumes inv: "leader_inv S C H" and fin: "finite S" and com: "committed S C H t k"
    and u: "t < u" "H u \<noteq> Map.empty"
  shows "agree (H u) (H t) k"
  using u
proof (induction "nat (u - t)" arbitrary: u rule: less_induct)
  case less
  obtain Q where Q: "Q \<subseteq> S" "card S div 2 < card Q" "\<forall>v\<in>Q. acked S C H v t k" and own: "own H t k"
    using com by (auto simp: committed_def)
  obtain G where G: "G \<subseteq> S" "card S div 2 < card G" "\<forall>v\<in>G. elector S C H u v"
    using inv less.prems(2) by (auto simp: leader_inv_def)
  obtain v where "v \<in> G" "v \<in> Q" using majorities_meet [OF fin G(1) Q(1) G(2) Q(2)] by blast
  with G(3) Q(3) own less.prems(1) have "(\<exists>w<u. lost H t k w) \<or> agree (H u) (H t) k"
    unfolding elector_def by blast
  then show ?case
  proof
    assume "\<exists>w<u. lost H t k w"
    then obtain w where "w < u" "t < w" "H w \<noteq> Map.empty" "\<not> agree (H w) (H t) k" by (auto simp: lost_def)
    with less.hyps [of w] less.prems(1) show ?thesis by simp
  qed
qed

section \<open>Preservation\<close>

lemma completeness_invI:
  assumes "\<And>v t k. acked S C H v t k \<Longrightarrow> t \<le> n_term (nodes C v)
     \<and> (agree (n_log (nodes C v)) (H t) k \<or> (\<exists>u\<le>n_term (nodes C v). lost H t k u))"
    "\<And>v u c ses t k. voted C v u c \<Longrightarrow> elections C c u = Some ses \<Longrightarrow> H u = Map.empty \<Longrightarrow>
     t < u \<Longrightarrow> acked S C H v t k \<Longrightarrow> own H t k \<Longrightarrow>
     (\<exists>w<u. lost H t k w) \<or> t < ses_lt ses \<or> ses_lt ses = t \<and> k \<le> ses_li ses"
    "\<And>u. H u \<noteq> Map.empty \<Longrightarrow> \<exists>G. G \<subseteq> S \<and> card S div 2 < card G \<and> (\<forall>v\<in>G. elector S C H u v)"
  shows "completeness_inv S C H"
  unfolding completeness_inv_def ack_inv_def ballot_inv_def leader_inv_def using assms by blast

lemma completeness_invD:
  assumes "completeness_inv S C H"
  shows "acked S C H v t k \<Longrightarrow> t \<le> n_term (nodes C v)
     \<and> (agree (n_log (nodes C v)) (H t) k \<or> (\<exists>u\<le>n_term (nodes C v). lost H t k u))"
    "voted C v u c \<Longrightarrow> elections C c u = Some ses \<Longrightarrow> H u = Map.empty \<Longrightarrow>
     t < u \<Longrightarrow> acked S C H v t k \<Longrightarrow> own H t k \<Longrightarrow>
     (\<exists>w<u. lost H t k w) \<or> t < ses_lt ses \<or> ses_lt ses = t \<and> k \<le> ses_li ses"
    "H u \<noteq> Map.empty \<Longrightarrow> \<exists>G. G \<subseteq> S \<and> card S div 2 < card G \<and> (\<forall>v\<in>G. elector S C H u v)"
  using assms unfolding completeness_inv_def ack_inv_def ballot_inv_def leader_inv_def by blast+

text \<open>The winner of a term that has a history is fixed.\<close>

lemma won_hist:
  assumes "log_inv S C H" "election_inv S C'" "\<And>t j. won S C t j \<Longrightarrow> won S C' t j"
    "H t k \<noteq> None" "won S C' t v"
  shows "won S C t v"
proof -
  have "H t \<noteq> Map.empty" using assms(4) by auto
  from log_inv_hist(3) [OF assms(1) this] obtain j where "won S C t j" by (auto simp: led_def)
  with won_unique [of S C' t v j] assms(2,3,5) show ?thesis by (simp add: election_inv_def)
qed

text \<open>A vote for a log at least as complete as the voter's passes on the voter's acknowledgements.\<close>

lemma fresh_vote:
  assumes inv: "log_inv S C H" and ci: "completeness_inv S C H" and ack: "acked S C H v t k" and own: "own H t k"
    and u: "n_term (nodes C v) \<le> u" "H u = Map.empty" "up_to_date lt li (last_term (nodes C v)) (n_last (nodes C v))"
  shows "(\<exists>w<u. lost H t k w) \<or> t < lt \<or> lt = t \<and> k \<le> li"
proof -
  let ?n = "nodes C v"
  have v: "v \<in> S" using ack by (simp add: acked_def)
  have "agree (n_log ?n) (H t) k \<or> (\<exists>w\<le>n_term ?n. lost H t k w)" using completeness_invD(1) [OF ci ack] by simp
  then show ?thesis
  proof
    assume "\<exists>w\<le>n_term ?n. lost H t k w"
    then obtain w where w: "w \<le> n_term ?n" "lost H t k w" by blast
    then have "w < u" using u(1,2) by (cases "w = u") (auto simp: lost_def)
    with w show ?thesis by blast
  next
    assume a: "agree (n_log ?n) (H t) k"
    note ok = log_invD [OF inv v]
    obtain e where e: "n_log ?n k = Some e" "le_Term e = t"
      using own agreeD [OF a, of k] by (auto simp: own_def)
    then have k: "1 \<le> k" "k \<le> n_last ?n" using hist_okD(5) [OF ok(2), of k] by auto
    then obtain e' where e': "n_log ?n (n_last ?n) = Some e'"
      using hist_okD(5) [OF ok(2), of "n_last ?n"] by (cases "n_log ?n (n_last ?n)") auto
    have "t \<le> last_term ?n"
      using matches_mono_terms [OF log_inv_hists [OF inv] ok(3) e(1) e' k(2)] e(2) e' by (simp add: last_term_def)
    with u(3) k(2) show ?thesis by (auto simp: up_to_date_def)
  qed
qed

text \<open>Steps that keep all logs and histories; \<open>votes\<close> says what a new vote may be.\<close>

lemma completeness_same:
  assumes inv: "log_inv S C H" and ci: "completeness_inv S C H" and el': "election_inv S C'"
    and nodes: "\<And>j. n_log (nodes C' j) = n_log (nodes C j)" "\<And>j. n_term (nodes C j) \<le> n_term (nodes C' j)"
    and resp: "aeresps C' = aeresps C" and won: "\<And>t j. won S C t j \<Longrightarrow> won S C' t j"
    and votes: "\<And>v u c ses. voted C' v u c \<Longrightarrow> elections C' c u = Some ses \<Longrightarrow>
      (\<exists>ses0. voted C v u c \<and> elections C c u = Some ses0 \<and> ses_li ses0 = ses_li ses \<and> ses_lt ses0 = ses_lt ses)
      \<or> n_term (nodes C v) \<le> u \<and> up_to_date (ses_lt ses) (ses_li ses) (last_term (nodes C v)) (n_last (nodes C v))"
  shows "completeness_inv S C' H"
proof -
  have ack: "acked S C' H v t k \<Longrightarrow> acked S C H v t k" for v t k
    using won_hist [OF inv el' won, of t k v] by (auto simp: acked_def resp)
  show ?thesis
  proof (rule completeness_invI)
    fix v t k
    assume "acked S C' H v t k"
    from completeness_invD(1) [OF ci ack [OF this]] nodes
    show "t \<le> n_term (nodes C' v) \<and> (agree (n_log (nodes C' v)) (H t) k \<or> (\<exists>u\<le>n_term (nodes C' v). lost H t k u))"
      by (metis order_trans)
  next
    fix v u c ses t k
    assume a: "voted C' v u c" "elections C' c u = Some ses" "H u = Map.empty" "t < u" "acked S C' H v t k" "own H t k"
    from votes [OF a(1,2)]
    show "(\<exists>w<u. lost H t k w) \<or> t < ses_lt ses \<or> ses_lt ses = t \<and> k \<le> ses_li ses"
    proof
      assume "\<exists>ses0. voted C v u c \<and> elections C c u = Some ses0 \<and> ses_li ses0 = ses_li ses \<and> ses_lt ses0 = ses_lt ses"
      then show ?thesis using completeness_invD(2) [OF ci _ _ a(3,4) ack [OF a(5)] a(6)] by metis
    next
      assume "n_term (nodes C v) \<le> u \<and> up_to_date (ses_lt ses) (ses_li ses) (last_term (nodes C v)) (n_last (nodes C v))"
      then show ?thesis using fresh_vote [OF inv ci ack [OF a(5)] a(6) _ a(3)] by blast
    qed
  next
    fix u
    assume "H u \<noteq> Map.empty"
    moreover have "elector S C' H u v" if "elector S C H u v" for v
      using that ack nodes(2) unfolding elector_def by (meson order_trans)
    ultimately show "\<exists>G. G \<subseteq> S \<and> card S div 2 < card G \<and> (\<forall>v\<in>G. elector S C' H u v)"
      using completeness_invD(3) [OF ci] by meson
  qed
qed

text \<open>Replacing a log by the prefix of a history, when they differ, keeps what they share.\<close>

lemma cut_keeps:
  assumes "agree m g k" "\<not> agree m h j" "agree h g k"
  shows "agree (h |` {..j}) g k"
proof -
  have "agree m h k" using assms(1,3) by (simp add: agree_def)
  then have "k < j" using assms(2) agree_le not_less by metis
  then show ?thesis using agree_trans [OF agree_restrict assms(3)] by simp
qed

text \<open>A follower accepts entries.\<close>

lemma completeness_append:
  assumes el: "election_inv S C" and inv: "log_inv S C H" and ci: "completeness_inv S C H" and req: "(p, req) \<in> aereqs C"
    and C': "C' = set_node p (fst (s_HandleAppendEntries req (nodes C p)))
        (C\<lparr>aeresps := insert (p, req, snd (s_HandleAppendEntries req (nodes C p))) (aeresps C)\<rparr>)"
  shows "completeness_inv S C' H"
proof -
  let ?n = "nodes C p" and ?t = "ae_Term req" and ?h = "H (ae_Term req)"
  obtain n' resp where r: "s_HandleAppendEntries req ?n = (n', resp)" by (cases "s_HandleAppendEntries req ?n")
  have ok: "ae_ok S C H p req" using log_inv_req(1) [OF inv req] .
  then have p: "p \<in> S" by (simp add: ae_ok_def)
  note eff = append_effect [OF inv p ok refl r]
  have tm: "n_term ?n \<le> n_term n'" using quiet_term [OF quiet_HandleAppendEntries [of ?n req]] r by simp
  have nodes: "nodes C' = (nodes C)(p := n')" and el': "elections C' = elections C" "rvresps C' = rvresps C"
    using C' r by simp_all
  have v: "voted C' = voted C" using voted_cong [OF el'] .
  have ack: "acked S C' H v t k \<Longrightarrow> acked S C H v t k \<or> v = p \<and> t = ?t \<and> k \<le> ae_upto req \<and> aer_Success resp" for v t k
    using C' r unfolding acked_def won_cong [OF v] by (auto simp: acked_def)
  have vi: "vote_inv S C" using el by (simp add: election_inv_def)
  show ?thesis
  proof (rule completeness_invI)
    fix v t k
    assume "acked S C' H v t k"
    from ack [OF this] show "t \<le> n_term (nodes C' v)
        \<and> (agree (n_log (nodes C' v)) (H t) k \<or> (\<exists>u\<le>n_term (nodes C' v). lost H t k u))"
    proof
      assume "v = p \<and> t = ?t \<and> k \<le> ae_upto req \<and> aer_Success resp"
      then show ?thesis using eff(2) agree_le nodes by auto
    next
      assume old: "acked S C H v t k"
      note i = completeness_invD(1) [OF ci old]
      show ?thesis
      proof (cases "v = p")
        case False
        with i nodes show ?thesis by simp
      next
        case True
        have t: "t \<le> n_term n'" using i tm True by simp
        have Ht: "H t k \<noteq> None" using old by (simp add: acked_def)
        from i True consider (agree) "agree (n_log ?n) (H t) k" | (lost) u where "u \<le> n_term ?n" "lost H t k u" by auto
        then have "agree (n_log n') (H t) k \<or> (\<exists>u\<le>n_term n'. lost H t k u)"
        proof cases
          case lost
          then show ?thesis using tm by (meson order_trans)
        next
          case agree
          from eff(1) show ?thesis
          proof
            assume "n_log n' = n_log ?n \<and> n_last n' = n_last ?n"
            then show ?thesis using agree by simp
          next
            assume n': "n_term n' = ?t \<and> n_log n' = ?h |` {..ae_upto req} \<and> n_last n' = ae_upto req
              \<and> \<not> agree (n_log ?n) ?h (ae_upto req)"
            show ?thesis
            proof (cases "agree ?h (H t) k")
              case True
              with cut_keeps [OF agree _ True] n' show ?thesis by simp
            next
              case False
              then have "t < ?t" using t n' by (cases "t = ?t") auto
              moreover have "?h \<noteq> Map.empty"
              proof
                assume e: "?h = Map.empty"
                obtain l where l: "hist_ok ?t ?h l" using log_inv_hist(1) [OF inv] by blast
                have "l = 0" using hist_okD(5) [OF l, of l] hist_okD(6) [OF l] e by auto
                then have "ae_upto req = 0" using ae_upto_bounds(1,2) [OF ok l] by simp
                moreover have "n_log ?n i = None" if "i \<le> 0" for i
                  using hist_okD(5) [OF log_invD(2) [OF inv p], of i] that by simp
                ultimately show False using n' e by (auto simp: agree_def)
              qed
              ultimately show ?thesis using False n' by (auto simp: lost_def)
            qed
          qed
        qed
        with t True nodes show ?thesis by simp
      qed
    qed
  next
    fix v u c ses t k
    assume a: "voted C' v u c" "elections C' c u = Some ses" "H u = Map.empty" "t < u" "acked S C' H v t k" "own H t k"
    then have "u \<le> n_term (nodes C v)" using vote_invD(3) [OF vi] v by simp
    with ack [OF a(5)] eff(2) a(4) have "acked S C H v t k" by auto
    then show "(\<exists>w<u. lost H t k w) \<or> t < ses_lt ses \<or> ses_lt ses = t \<and> k \<le> ses_li ses"
      using completeness_invD(2) [OF ci _ _ a(3,4) _ a(6)] a(1,2) v el' by simp
  next
    fix u
    assume "H u \<noteq> Map.empty"
    moreover have "elector S C' H u v" if "elector S C H u v" for v
    proof -
      have "acked S C H v t k" if "acked S C' H v t k" "t < u" for t k
        using ack [OF that(1)] eff(2) \<open>elector S C H u v\<close> that(2) by (auto simp: elector_def)
      with that tm nodes show ?thesis unfolding elector_def by auto
    qed
    ultimately show "\<exists>G. G \<subseteq> S \<and> card S div 2 < card G \<and> (\<forall>v\<in>G. elector S C' H u v)"
      using completeness_invD(3) [OF ci] by meson
  qed
qed

text \<open>
  A candidate whose last entry is at least as recent as an acknowledged one has it, unless an
  earlier leader lacked it.
\<close>

lemma up_to_date_has:
  assumes ok: "hists_ok H" and m: "matches H m" "hist_ok T m l" and own: "own H t k"
    and recent: "t < term_at m l \<or> term_at m l = t \<and> k \<le> l"
  shows "lost H t k (term_at m l) \<or> agree m (H t) k \<and> k \<le> l"
proof -
  define u where "u = term_at m l"
  note recent = recent [folded u_def]
  obtain e where e: "H t k = Some e" "le_Term e = t" using own by (auto simp: own_def)
  have "1 \<le> t" using hists_okD(3) [OF ok e(1)] e(2) by simp
  with recent have "u \<noteq> 0" by auto
  with term_at_pos [OF m(2) u_def [symmetric]] obtain x where x: "m l = Some x" "le_Term x = u" by blast
  have a: "agree m (H (u)) l" using matchesD [OF m(1) x(1)] x(2) by simp
  have "lost H t k u \<or> agree m (H t) k \<and> k \<le> l"
  proof (cases "u = t")
    case True
    with recent a show ?thesis using agree_le by auto
  next
    case False
    with recent have lt: "t < u" by simp
    show ?thesis
    proof (cases "agree (H (u)) (H t) k")
      case False
      moreover have "H (u) \<noteq> Map.empty" using agreeD [OF a, of l] x(1) by auto
      ultimately show ?thesis using lt by (simp add: lost_def)
    next
      case True
      have xl: "H (u) l = Some x" using agreeD [OF a, of l] x(1) by simp
      have ek: "H (u) k = Some e" using agreeD [OF True, of k] e(1) by simp
      have "matches H (H (u))" using ok by (auto simp: hists_ok_def)
      from matches_mono_terms [OF ok this xl ek] x(2) e(2) lt have "k \<le> l" by force
      with agree_trans [OF agree_le [OF a] True] show ?thesis by simp
    qed
  qed
  then show ?thesis by (simp add: u_def)
qed

lemma completeness_extend:
  assumes el: "election_inv S C" and inv: "log_inv S C H" "log_inv S C' H'" and ci: "completeness_inv S C H"
    and i: "i \<in> S" and n: "n = nodes C i" "t = n_term n" and w: "won S C t i"
    and H': "H' = H(t := n_log n')" "hist_le H H'" and old: "H t = n_log n \<or> H t = Map.empty"
    and n': "n_log n' = (n_log n)(n_last n + 1 \<mapsto> x)" "le_Term x = t" "n_term n' = t"
    and C': "nodes C' = (nodes C)(i := n')" "elections C' = elections C" "rvresps C' = rvresps C" "aeresps C' = aeresps C"
    and cand: "H t = Map.empty \<Longrightarrow> cand_ok C i n \<and> n_role n = Candidate"
  shows "completeness_inv S C' H'"
proof -
  have hok: "hists_ok H" "hists_ok H'" using log_inv_hists inv by auto
  have vi: "vote_inv S C" and cf: "config_inv S C" using el by (simp_all add: election_inv_def)
  note nd = log_invD [OF inv(1) i, folded n(1), folded n(2)]
  have v: "voted C' = voted C" using voted_cong [OF C'(2,3)] .
  have grow: "hist_grow H H'"
    unfolding hist_grow_def using H' old n'(1,2) by auto
  have Ht: "H' t \<noteq> Map.empty" using H'(1) n'(1) by auto
  have same: "agree (n_log n') (n_log n) k" if "n_log n k \<noteq> None" for k
    using that hist_okD(5) [OF nd(2), of k] n'(1) by (auto simp: agree_def)
  have ack: "acked S C H v t' k \<and> H t' k \<noteq> None \<or> v = i \<and> t' = t" if a: "acked S C' H' v t' k" for v t' k
  proof (cases "H t' k = None")
    case False
    with a show ?thesis by (simp add: acked_def C'(4) won_cong [OF v])
  next
    case True
    with a H'(1) have t': "t' = t" by (auto simp: acked_def split: if_splits)
    from a consider (msg) req resp where "(v, req, resp) \<in> aeresps C" "ae_Term req = t'" "k \<le> ae_upto req"
      | (won) "won S C t' v" by (auto simp: acked_def C'(4) won_cong [OF v])
    then show ?thesis
    proof cases
      case msg
      have ok: "ae_ok S C H v req" using log_inv_req(1,2) [OF inv(1)] msg(1) by blast
      obtain l where l: "hist_ok t' (H t') l" using log_inv_hist(1) [OF inv(1)] by blast
      have "1 \<le> k" using a hists_ok_low [OF hok(2), of k t'] by (force simp: acked_def)
      moreover have "k \<le> l" using ae_upto_bounds(2) [OF ok] l msg(2,3) by force
      ultimately show ?thesis using True hist_okD(5) [OF l, of k] by simp
    next
      case won
      then show ?thesis using won_unique [OF cf vi w] t' by simp
    qed
  qed
  have own: "own H t' k" if "own H' t' k" "H t' k \<noteq> None" for t' k
    using that hist_leD [OF H'(2)] unfolding own_def by fastforce
  note lostg = lost_grow [OF grow hok]
  show ?thesis
  proof (rule completeness_invI)
    fix v t' k
    assume a: "acked S C' H' v t' k"
    from ack [OF a] show "t' \<le> n_term (nodes C' v)
        \<and> (agree (n_log (nodes C' v)) (H' t') k \<or> (\<exists>u\<le>n_term (nodes C' v). lost H' t' k u))"
    proof
      assume "v = i \<and> t' = t"
      then show ?thesis using C'(1) n'(3) H'(1) by simp
    next
      assume b: "acked S C H v t' k \<and> H t' k \<noteq> None"
      have tm: "n_term (nodes C' v) = n_term (nodes C v)" using C'(1) n'(3) n by simp
      from completeness_invD(1) [OF ci] b have c: "t' \<le> n_term (nodes C v)"
        "agree (n_log (nodes C v)) (H t') k \<or> (\<exists>u\<le>n_term (nodes C v). lost H t' k u)" by auto
      have "agree (n_log (nodes C' v)) (H' t') k" if g: "agree (n_log (nodes C v)) (H t') k"
      proof (cases "v = i")
        case True
        then have "n_log n k \<noteq> None" using g b n(1) by (simp add: agree_def)
        with same True g n(1) have "agree (n_log n') (H t') k" using agree_trans by blast
        with agree_grow [OF H'(2) hok] b True C'(1) show ?thesis by simp
      next
        case False
        with agree_grow [OF H'(2) hok _ g] b C'(1) show ?thesis by simp
      qed
      with c lostg b tm show ?thesis by metis
    qed
  next
    fix v u c ses t' k
    assume a: "voted C' v u c" "elections C' c u = Some ses" "H' u = Map.empty" "t' < u" "acked S C' H' v t' k" "own H' t' k"
    have u: "u \<noteq> t" "H u = Map.empty" using a(3) Ht H'(1) by (auto split: if_splits)
    have "u \<le> n_term (nodes C v)" using vote_invD(3) [OF vi] a(1) v by simp
    with ack [OF a(5)] a(4) n have b: "acked S C H v t' k" "H t' k \<noteq> None" by auto
    from completeness_invD(2) [OF ci _ _ u(2) a(4) b(1) own [OF a(6) b(2)]] a(1,2) v C'(2)
    have "(\<exists>w<u. lost H t' k w) \<or> t' < ses_lt ses \<or> ses_lt ses = t' \<and> k \<le> ses_li ses" by simp
    then show "(\<exists>w<u. lost H' t' k w) \<or> t' < ses_lt ses \<or> ses_lt ses = t' \<and> k \<le> ses_li ses"
      using lostg [OF b(2)] by blast
  next
    fix u
    assume u: "H' u \<noteq> Map.empty"
    show "\<exists>G. G \<subseteq> S \<and> card S div 2 < card G \<and> (\<forall>v\<in>G. elector S C' H' u v)"
    proof (cases "H u = Map.empty")
      case False
      have "elector S C' H' u v" if e: "elector S C H u v" for v
        unfolding elector_def
      proof (intro conjI allI impI)
        show "u \<le> n_term (nodes C' v)" using e C'(1) n'(3) n by (auto simp: elector_def)
        fix t' k
        assume b: "t' < u" "acked S C' H' v t' k" "own H' t' k"
        have "acked S C H v t' k" "H t' k \<noteq> None" using ack [OF b(2)] b(1) e n by (auto simp: elector_def)
        with e b(1) own [OF b(3)] have "(\<exists>w<u. lost H t' k w) \<or> agree (H u) (H t') k" by (simp add: elector_def)
        then show "(\<exists>w<u. lost H' t' k w) \<or> agree (H' u) (H' t') k"
          using lostg [OF \<open>H t' k \<noteq> None\<close>] agree_grow2 [OF H'(2) hok \<open>H t' k \<noteq> None\<close>] by blast
      qed
      then show ?thesis using completeness_invD(3) [OF ci False] by meson
    next
      case True
      then have ut: "u = t" using u H'(1) by (auto split: if_splits)
      obtain ses where ses: "elections C i t = Some ses" "ses_li ses = n_last n" "ses_lt ses = term_at (n_log n) (n_last n)"
        using cand True ut n(2) by (auto simp: cand_ok_def last_term_def)
      have "elector S C' H' t v" if vt: "voted C v t i" for v
        unfolding elector_def
      proof (intro conjI allI impI)
        show "t \<le> n_term (nodes C' v)" using vote_invD(3) [OF vi vt] C'(1) n'(3) by simp
        fix t' k
        assume b: "t' < t" "acked S C' H' v t' k" "own H' t' k"
        have c: "acked S C H v t' k" "H t' k \<noteq> None" using ack [OF b(2)] b(1) by auto
        from completeness_invD(2) [OF ci vt ses(1) _ b(1) c(1) own [OF b(3) c(2)]] True ut ses(2,3)
        have "(\<exists>w<t. lost H t' k w) \<or> t' < term_at (n_log n) (n_last n)
            \<or> term_at (n_log n) (n_last n) = t' \<and> k \<le> n_last n" by simp
        then consider (lost) "\<exists>w<t. lost H t' k w"
          | (has) "agree (n_log n) (H t') k"
          using up_to_date_has [OF hok(1) nd(3,2) own [OF b(3) c(2)]] log_inv_req(5) [OF inv(1) ses(1)] ses(3) by auto
        then show "(\<exists>w<t. lost H' t' k w) \<or> agree (H' t) (H' t') k"
        proof cases
          case lost
          then show ?thesis using lostg [OF c(2)] by blast
        next
          case has
          then have "n_log n k \<noteq> None" using c(2) by (simp add: agree_def)
          with same has have "agree (n_log n') (H t') k" using agree_trans by blast
          with agree_grow [OF H'(2) hok c(2)] H'(1) show ?thesis by simp
        qed
      qed
      with w ut show ?thesis unfolding won_def by blast
    qed
  qed
qed

end
