(* ===== verification/Raft_Safety.thy ===== *)
theory Raft_Safety
  imports Raft_Completeness
begin

text \<open>
  Commitment and application. Every commit index a node, a pending heartbeat or a request carries is
  backed by a committed entry, and so is every message sent to the state machine. With leader
  completeness this gives state machine safety for a cluster of specification nodes.
\<close>

section \<open>The invariant\<close>

definition known :: "node_id set \<Rightarrow> spec_node cluster \<Rightarrow> hist \<Rightarrow> int64 \<Rightarrow> (int64 \<rightharpoonup> LogEntry) \<Rightarrow> int64 \<Rightarrow> bool" where
  "known S C H T m c \<longleftrightarrow> c \<le> 0 \<or> (\<exists>t k. committed S C H t k \<and> t \<le> T \<and> c \<le> k \<and> agree m (H t) c)"

definition match_ok :: "node_id set \<Rightarrow> spec_node cluster \<Rightarrow> hist \<Rightarrow> node_id \<Rightarrow> spec_node \<Rightarrow> bool" where
  "match_ok S C H i n \<longleftrightarrow> (n_role n = Leader \<longrightarrow>
     (\<forall>p\<in>S - {i}. \<forall>k. 1 \<le> k \<longrightarrow> k \<le> go_get (n_match n) p \<longrightarrow> acked S C H p (n_term n) k))"

definition commit_node :: "node_id set \<Rightarrow> spec_node cluster \<Rightarrow> hist \<Rightarrow> node_id \<Rightarrow> spec_node \<Rightarrow> bool" where
  "commit_node S C H i n \<longleftrightarrow> 0 \<le> n_applied n \<and> n_applied n \<le> n_commit n
     \<and> known S C H (n_term n) (n_log n) (n_commit n) \<and> match_ok S C H i n"

definition commit_inv :: "node_id set \<Rightarrow> spec_node cluster \<Rightarrow> hist \<Rightarrow> bool" where
  "commit_inv S C H \<longleftrightarrow> (\<forall>i\<in>S. commit_node S C H i (nodes C i))
     \<and> (\<forall>i p t c. (i, p, t, c) \<in> beats C \<longrightarrow> known S C H t (H t) c)
     \<and> (\<forall>p req. (p, req) \<in> aereqs C \<longrightarrow>
          known S C H (ae_Term req) (H (ae_Term req)) (ae_LeaderCommit req) \<and> ae_LeaderCommit req \<le> ae_upto req)"

definition output_inv :: "node_id set \<Rightarrow> spec_node cluster \<Rightarrow> hist \<Rightarrow> bool" where
  "output_inv S C H \<longleftrightarrow>
     (\<forall>i m. (i, m) \<in> delivered C \<longrightarrow> (\<exists>t k c e. committed S C H t k \<and> c \<le> k \<and> H t c = Some e \<and> m = apply_msg e))
     \<and> (\<forall>i\<in>S. map CommandIndex (applied C i) = [1..n_applied (nodes C i)])"

definition safety_inv :: "node_id set \<Rightarrow> spec_node cluster \<Rightarrow> hist \<Rightarrow> bool" where
  "safety_inv S C H \<longleftrightarrow> election_inv S C \<and> log_inv S C H \<and> completeness_inv S C H
     \<and> commit_inv S C H \<and> output_inv S C H"

lemma safety_invD:
  assumes "safety_inv S C H"
  shows "election_inv S C" "log_inv S C H" "completeness_inv S C H" "commit_inv S C H" "output_inv S C H"
    "finite S" "leader_inv S C H" "hists_ok H"
  using assms log_inv_hists
  by (auto simp: safety_inv_def election_inv_def config_inv_def completeness_inv_def)

section \<open>Consequences\<close>

lemma committed_some:
  assumes "committed S C H t k" "hists_ok H" "1 \<le> c" "c \<le> k"
  shows "H t c \<noteq> None"
  using assms hists_okD(5) [OF assms(2)] by (auto simp: committed_def own_def)

lemma known_le:
  assumes "known S C H T m c" "hists_ok H" "hist_ok T' m l"
  shows "c \<le> l"
proof (cases "1 \<le> c")
  case True
  then obtain t k where "committed S C H t k" "c \<le> k" "agree m (H t) c" using assms(1) by (auto simp: known_def)
  with committed_some [OF _ assms(2) True] have "m c \<noteq> None" using agreeD by fastforce
  with hist_okD(5) [OF assms(3), of c] show ?thesis by auto
next
  case False
  with hist_okD(6) [OF assms(3)] show ?thesis by simp
qed

text \<open>Committed entries agree, whatever the terms they were committed in.\<close>

lemma committed_agree:
  assumes inv: "safety_inv S C H" and c: "committed S C H t k" "committed S C H u j"
  shows "agree (H t) (H u) (min k j)"
proof -
  have ne: "H t \<noteq> Map.empty" "H u \<noteq> Map.empty" using c by (auto simp: committed_def own_def)
  note lc = leader_completeness [OF safety_invD(7,6) [OF inv]]
  consider "t = u" | "t < u" | "u < t" by linarith
  then show ?thesis
  proof cases
    case 2
    then show ?thesis using agree_le [OF agree_sym [OF lc [OF c(1) 2 ne(2)]], of "min k j"] by simp
  next
    case 3
    then show ?thesis using agree_le [OF lc [OF c(2) 3 ne(1)], of "min k j"] by simp
  qed simp
qed

lemma known_agree:
  assumes inv: "safety_inv S C H" and k: "known S C H T m c" "known S C H T' m' c'"
    and i: "1 \<le> i" "i \<le> c" "i \<le> c'"
  shows "m i = m' i"
proof -
  obtain t k where 1: "committed S C H t k" "c \<le> k" "agree m (H t) c" using k(1) i by (auto simp: known_def)
  obtain u j where 2: "committed S C H u j" "c' \<le> j" "agree m' (H u) c'" using k(2) i by (auto simp: known_def)
  have "H t i = H u i" using agreeD [OF committed_agree [OF inv 1(1) 2(1)], of i] 1(2) 2(2) i by simp
  then show ?thesis using agreeD [OF 1(3) i(2)] agreeD [OF 2(3) i(3)] by simp
qed

theorem commit_safety:
  assumes "safety_inv S C H" "i \<in> S" "j \<in> S" "1 \<le> k" "k \<le> n_commit (nodes C i)" "k \<le> n_commit (nodes C j)"
  shows "n_log (nodes C i) k = n_log (nodes C j) k \<and> n_log (nodes C i) k \<noteq> None"
proof -
  have k: "known S C H (n_term (nodes C i)) (n_log (nodes C i)) (n_commit (nodes C i))"
    "known S C H (n_term (nodes C j)) (n_log (nodes C j)) (n_commit (nodes C j))"
    using safety_invD(4) [OF assms(1)] assms(2,3) by (auto simp: commit_inv_def commit_node_def)
  have h: "hist_ok (n_term (nodes C i)) (n_log (nodes C i)) (n_last (nodes C i))"
    using log_invD(2) [OF safety_invD(2) [OF assms(1)] assms(2)] .
  show ?thesis using known_agree [OF assms(1) k assms(4-6)] known_le [OF k(1) safety_invD(8) [OF assms(1)] h]
    hist_okD(5) [OF h, of k] assms(4,5) by auto
qed

theorem delivered_agree:
  assumes "safety_inv S C H" "(i, m) \<in> delivered C" "(j, m') \<in> delivered C" "CommandIndex m = CommandIndex m'"
  shows "m = m'"
proof -
  obtain t k c e where 1: "committed S C H t k" "c \<le> k" "H t c = Some e" "m = apply_msg e"
    using safety_invD(5) [OF assms(1)] assms(2) unfolding output_inv_def by blast
  obtain u l d f where 2: "committed S C H u l" "d \<le> l" "H u d = Some f" "m' = apply_msg f"
    using safety_invD(5) [OF assms(1)] assms(3) unfolding output_inv_def by blast
  have "c = d" using assms(4) 1(3,4) 2(3,4) hists_okD(4) [OF safety_invD(8) [OF assms(1)]]
    by (auto simp: apply_msg_def)
  moreover have "H t c = H u c" using agreeD [OF committed_agree [OF assms(1) 1(1) 2(1)], of c] 1(2) 2(2) \<open>c = d\<close> by simp
  ultimately show ?thesis using 1(3,4) 2(3,4) by simp
qed

section \<open>Monotonicity\<close>

text \<open>What is committed stays committed.\<close>

definition later :: "node_id set \<Rightarrow> spec_node cluster \<Rightarrow> hist \<Rightarrow> spec_node cluster \<Rightarrow> hist \<Rightarrow> bool" where
  "later S C H C' H' \<longleftrightarrow> hist_le H H' \<and> hists_ok H \<and> hists_ok H' \<and> aeresps C \<subseteq> aeresps C'
     \<and> (\<forall>t j. won S C t j \<longrightarrow> won S C' t j)"

lemma laterD:
  assumes "later S C H C' H'"
  shows "hist_le H H'" "hists_ok H" "hists_ok H'" "aeresps C \<subseteq> aeresps C'" "won S C t j \<Longrightarrow> won S C' t j"
  using assms by (auto simp: later_def)

lemma acked_later:
  assumes "later S C H C' H'" "acked S C H v t k"
  shows "acked S C' H' v t k"
proof -
  have "H' t k \<noteq> None" using assms hist_leD [of H H'] by (fastforce simp: later_def acked_def)
  with assms show ?thesis unfolding later_def acked_def by blast
qed

lemma committed_later:
  assumes "later S C H C' H'" "committed S C H t k"
  shows "committed S C' H' t k"
proof -
  have "own H' t k" using assms hist_leD [of H H'] by (auto simp: later_def committed_def own_def)
  with assms(2) acked_later [OF assms(1)] show ?thesis unfolding committed_def by blast
qed

lemma known_later:
  assumes l: "later S C H C' H'" and k: "known S C H T m c" "T \<le> T'"
    and m: "\<And>t k. committed S C H t k \<Longrightarrow> t \<le> T \<Longrightarrow> c \<le> k \<Longrightarrow> 1 \<le> c \<Longrightarrow> agree m (H t) c \<Longrightarrow> agree m' (H' t) c"
  shows "known S C' H' T' m' c"
proof (cases "c \<le> 0")
  case False
  then obtain t k where "committed S C H t k" "t \<le> T" "c \<le> k" "agree m (H t) c" using k(1) by (auto simp: known_def)
  with m [of t k] False committed_later [OF l] k(2) show ?thesis unfolding known_def by force
qed (simp add: known_def)

lemma known_later_same:
  assumes l: "later S C H C' H'" and k: "known S C H T m c" "T \<le> T'" and m: "c \<le> d" "agree m' m d"
  shows "known S C' H' T' m' c"
proof (rule known_later [OF l k])
  fix t k
  assume a: "committed S C H t k" "c \<le> k" "1 \<le> c" "agree m (H t) c"
  have "H t c \<noteq> None" using committed_some [OF a(1) _ a(3,2)] l by (simp add: later_def)
  from agree_grow [OF laterD(1-3) [OF l] this agree_trans [OF agree_le [OF m(2,1)] a(4)]]
  show "agree m' (H' t) c" .
qed

lemma known_later_hist:
  assumes l: "later S C H C' H'" and k: "known S C H T (H u) c"
  shows "known S C' H' T (H' u) c"
proof (rule known_later [OF l k order_refl])
  fix t k
  assume a: "committed S C H t k" "c \<le> k" "1 \<le> c" "agree (H u) (H t) c"
  have "H t c \<noteq> None" using committed_some [OF a(1) _ a(3,2)] l by (simp add: later_def)
  from agree_grow2 [OF laterD(1-3) [OF l] this a(4)] show "agree (H' u) (H' t) c" .
qed

lemma match_ok_later: "later S C H C' H' \<Longrightarrow> match_ok S C H i n \<Longrightarrow> match_ok S C' H' i n"
  using acked_later unfolding match_ok_def by blast

lemma commit_node_later:
  assumes "later S C H C' H'" "commit_node S C H i n"
  shows "commit_node S C' H' i n"
  using assms known_later_same [OF assms(1) _ order_refl order_refl agree_refl] match_ok_later [OF assms(1)]
  by (auto simp: commit_node_def)

section \<open>Preservation\<close>

lemma commit_inv_change:
  assumes inv: "commit_inv S C H" and l: "later S C H C' H'" and nodes: "nodes C' = (nodes C)(i := n')"
    and n': "i \<in> S \<Longrightarrow> commit_node S C' H' i n'"
    and beats: "\<And>j p t c. (j, p, t, c) \<in> beats C' \<Longrightarrow> (j, p, t, c) \<in> beats C \<or> known S C H t (H t) c"
    and reqs: "\<And>p req. (p, req) \<in> aereqs C' \<Longrightarrow> (p, req) \<in> aereqs C \<or>
      known S C H (ae_Term req) (H (ae_Term req)) (ae_LeaderCommit req) \<and> ae_LeaderCommit req \<le> ae_upto req"
  shows "commit_inv S C' H'"
  unfolding commit_inv_def
proof (intro conjI ballI allI impI)
  show "commit_node S C' H' j (nodes C' j)" if "j \<in> S" for j
    using that n' nodes inv commit_node_later [OF l] by (cases "j = i") (auto simp: commit_inv_def)
  show "known S C' H' t (H' t) c" if "(j, p, t, c) \<in> beats C'" for j p t c
    using beats [OF that] inv known_later_hist [OF l] unfolding commit_inv_def by blast
  fix p req
  assume "(p, req) \<in> aereqs C'"
  from reqs [OF this] inv known_later_hist [OF l]
  show "known S C' H' (ae_Term req) (H' (ae_Term req)) (ae_LeaderCommit req)" "ae_LeaderCommit req \<le> ae_upto req"
    unfolding commit_inv_def by blast+
qed

lemma output_inv_later:
  assumes inv: "output_inv S C H" and l: "later S C H C' H'" and d: "delivered C' = delivered C" "applied C' = applied C"
    and a: "\<And>i. i \<in> S \<Longrightarrow> n_applied (nodes C' i) = n_applied (nodes C i)"
  shows "output_inv S C' H'"
  using inv committed_later [OF l] hist_leD [OF laterD(1) [OF l]] a unfolding output_inv_def d by (metis (no_types, lifting))

text \<open>Nodes that keep their log, their indices and, when they lead, what they know of their peers.\<close>

lemma commit_node_keep:
  assumes "commit_node S C H i n" "later S C H C' H'" "n_term n \<le> n_term n'" "n_log n' = n_log n"
    "n_commit n' = n_commit n" "n_applied n' = n_applied n"
    "n_role n' = Leader \<Longrightarrow> n_role n = Leader \<and> n_term n' = n_term n \<and> n_match n' = n_match n"
  shows "commit_node S C' H' i n'"
  using assms known_later_same [OF assms(2), of "n_term n" "n_log n" "n_commit n" "n_term n'" "n_commit n" "n_log n"]
    match_ok_later [OF assms(2), of i n]
  unfolding commit_node_def match_ok_def by simp

text \<open>The leader counts acknowledgements.\<close>

lemma committable_committed:
  assumes el: "election_inv S C" and inv: "log_inv S C H" and i: "i \<in> S" and n: "n_role n = Leader" "n_term n = n_term (nodes C i)"
      "n_log n = n_log (nodes C i)" "n_peers n = n_peers (nodes C i)" "n_role (nodes C i) = Leader"
    and m: "match_ok S C H i n" and k: "s_committable n k" "1 \<le> k"
  shows "committed S C H (n_term n) k"
proof -
  let ?t = "n_term n"
  have cf: "config_inv S C" using el by (simp add: election_inv_def)
  have w: "won S C ?t i" using el i n by (simp add: election_inv_def role_inv_def)
  have l: "1 \<le> ?t" "H ?t = n_log n" using log_invD(4) [OF inv i] n by (auto simp: lead_ok_def)
  have "term_at (n_log n) k = ?t" using k(1) by (simp add: s_committable_def)
  with l have own: "own H ?t k" by (auto simp: own_def term_at_def split: option.splits)
  let ?P = "filter (\<lambda>p. k \<le> go_get (n_match n) p) (n_peers n)"
  have ps: "distinct (n_peers n)" "set (n_peers n) = S - {i}" using config_invD [OF cf i] n(4) by auto
  have "i \<notin> set ?P" using ps(2) by simp
  moreover have "card (set ?P) = length ?P" using ps(1) by (intro distinct_card distinct_filter)
  ultimately have "card (insert i (set ?P)) = Suc (length ?P)" by (metis card_insert_disjoint finite_set)
  moreover have "int (card S div 2) + 1 \<le> 1 + int (length ?P)"
    using k(1) quorum_of_card [OF cf i] n(4) by (simp add: s_committable_def s_replicas_def)
  ultimately have "card S div 2 < card (insert i (set ?P))" by simp
  moreover have "acked S C H v ?t k" if "v \<in> insert i (set ?P)" for v
  proof (cases "v = i")
    case True
    with w own i show ?thesis by (auto simp: acked_def own_def)
  next
    case False
    with that ps m n(1) k(2) show ?thesis by (auto simp: match_ok_def)
  qed
  moreover have "insert i (set ?P) \<subseteq> S" using i ps by auto
  ultimately show ?thesis using own unfolding committed_def by blast
qed

lemma checkCommit_cases:
  "n_commit (s_checkCommit n) = n_commit n
   \<or> n_role n = Leader \<and> s_committable n (n_commit (s_checkCommit n)) \<and> n_commit n < n_commit (s_checkCommit n)"
proof (cases "filter (s_committable n) [n_commit n + 1..n_last n] = []")
  case False
  then have "last (filter (s_committable n) [n_commit n + 1..n_last n]) \<in> set (filter (s_committable n) [n_commit n + 1..n_last n])"
    by (rule last_in_set)
  with False show ?thesis by (auto simp: s_checkCommit_def)
qed (simp add: s_checkCommit_def)

lemma commit_node_appendResp:
  assumes inv: "safety_inv S C H" and i: "i \<in> S" and resp: "(p, req, resp) \<in> aeresps C" "ae_LeaderId req = i"
  shows "commit_node S C H i (s_appendResp p (ae_Term req) (ae_PrevLogIndex req) (length (ae_Entries req)) resp (nodes C i))"
proof -
  let ?n = "nodes C i" and ?t = "ae_Term req"
  note inv' = safety_invD [OF inv]
  have cn: "commit_node S C H i ?n" using inv'(4) i by (simp add: commit_inv_def)
  have later: "later S C H C H" using inv'(8) by (simp add: later_def)
  show ?thesis
  proof (cases "n_role ?n = Leader \<and> n_term ?n = ?t \<and> \<not> aer_Term resp > n_term ?n \<and> aer_Success resp")
    case False
    then show ?thesis
      by (intro commit_node_keep [OF cn later])
        (auto simp: s_appendResp_def s_stepDown_def Let_def)
  next
    case True
    let ?m = "ae_upto req"
    let ?n1 = "?n\<lparr>n_match := (if ?m > go_get (n_match ?n) p then (n_match ?n)(p \<mapsto> ?m) else n_match ?n),
        n_next := (n_next ?n)(p \<mapsto> ?m + 1)\<rparr>"
    have eq: "s_appendResp p ?t (ae_PrevLogIndex req) (length (ae_Entries req)) resp ?n = s_checkCommit ?n1"
      using True by (simp add: s_appendResp_def Let_def ae_upto_def)
    have ok: "ae_ok S C H p req" using log_inv_req(1,2) [OF inv'(2)] resp(1) by blast
    obtain l where l: "hist_ok ?t (H ?t) l" using log_inv_hist(1) [OF inv'(2)] by blast
    have new: "acked S C H p ?t k" if "1 \<le> k" "k \<le> ?m" for k
    proof -
      have "H ?t k \<noteq> None" using hist_okD(5) [OF l, of k] ae_upto_bounds(2) [OF ok l] that by simp
      then show ?thesis using ok resp(1) True that(2) unfolding acked_def ae_ok_def by blast
    qed
    have m1: "match_ok S C H i ?n1"
      using cn True new by (auto simp: commit_node_def match_ok_def)
    have "commit_node S C H i (s_checkCommit ?n1)"
      using checkCommit_cases [of ?n1]
    proof
      assume "n_commit (s_checkCommit ?n1) = n_commit ?n1"
      then show ?thesis using cn m1 by (simp add: commit_node_def match_ok_def)
    next
      assume c: "n_role ?n1 = Leader \<and> s_committable ?n1 (n_commit (s_checkCommit ?n1)) \<and> n_commit ?n1 < n_commit (s_checkCommit ?n1)"
      let ?c = "n_commit (s_checkCommit ?n1)"
      have "1 \<le> ?c" using c cn by (simp add: commit_node_def)
      with committable_committed [OF inv'(1,2) i _ _ _ _ _ m1] c True have "committed S C H ?t ?c" by simp
      moreover have "H ?t = n_log ?n" using log_invD(4) [OF inv'(2) i] True by (auto simp: lead_ok_def)
      ultimately have "known S C H ?t (n_log ?n) ?c" unfolding known_def by (metis agree_refl order_refl)
      then show ?thesis using cn m1 c True by (simp add: commit_node_def match_ok_def)
    qed
    then show ?thesis by (simp only: eq)
  qed
qed

text \<open>A follower that accepts entries keeps what it knows to be committed, and learns.\<close>

lemma append_nonempty:
  assumes inv: "log_inv S C H" and p: "p \<in> S" and ok: "ae_ok S C H p req"
    and d: "\<not> agree (n_log (nodes C p)) (H (ae_Term req)) (ae_upto req)"
  shows "H (ae_Term req) \<noteq> Map.empty"
proof
  assume e: "H (ae_Term req) = Map.empty"
  obtain l where l: "hist_ok (ae_Term req) (H (ae_Term req)) l" using log_inv_hist(1) [OF inv] by blast
  have "l = 0" using hist_okD(5) [OF l, of l] hist_okD(6) [OF l] e by auto
  then have "ae_upto req = 0" using ae_upto_bounds(1,2) [OF ok l] by simp
  moreover have "n_log (nodes C p) i = None" if "i \<le> 0" for i
    using hist_okD(5) [OF log_invD(2) [OF inv p], of i] that by simp
  ultimately show False using d e by (auto simp: agree_def)
qed

lemma commit_node_append:
  assumes inv: "safety_inv S C H" and req: "(p, req) \<in> aereqs C" and r: "s_HandleAppendEntries req (nodes C p) = (n', resp)"
    and l: "later S C H C' H"
  shows "commit_node S C' H p n'"
proof -
  let ?n = "nodes C p" and ?t = "ae_Term req" and ?h = "H (ae_Term req)"
  note inv' = safety_invD [OF inv]
  have ok: "ae_ok S C H p req" using log_inv_req(1) [OF inv'(2) req] .
  then have p: "p \<in> S" by (simp add: ae_ok_def)
  note eff = append_effect [OF inv'(2) p ok refl r]
  have cn: "commit_node S C H p ?n" using inv'(4) p by (simp add: commit_inv_def)
  have q: "quiet ?n n'" using quiet_HandleAppendEntries [of ?n req] r by simp
  have match: "match_ok S C' H p n'"
  proof (cases "n_role n' = Leader")
    case True
    then have "n' = ?n" using append_leader(2) [OF inv'(1,2) req] r by simp
    then show ?thesis using cn match_ok_later [OF l] by (simp add: commit_node_def)
  qed (simp add: match_ok_def)
  have old: "known S C' H (n_term n') (n_log n') (n_commit ?n)"
  proof (rule known_later [OF l _ quiet_term [OF q]])
    show "known S C H (n_term ?n) (n_log ?n) (n_commit ?n)" using cn by (simp add: commit_node_def)
    fix t k
    assume a: "committed S C H t k" "t \<le> n_term ?n" "n_commit ?n \<le> k" "agree (n_log ?n) (H t) (n_commit ?n)"
    from eff(1) show "agree (n_log n') (H t) (n_commit ?n)"
    proof
      assume "n_log n' = n_log ?n \<and> n_last n' = n_last ?n"
      with a(4) show ?thesis by simp
    next
      assume n': "n_term n' = ?t \<and> n_log n' = ?h |` {..ae_upto req} \<and> n_last n' = ae_upto req
        \<and> \<not> agree (n_log ?n) ?h (ae_upto req)"
      have "t \<le> ?t" using a(2) quiet_term [OF q] n' by simp
      then consider "t = ?t" | "t < ?t" by linarith
      then have "agree ?h (H t) (n_commit ?n)"
      proof cases
        case 2
        have "?h \<noteq> Map.empty" using append_nonempty [OF inv'(2) p ok] n' by blast
        from leader_completeness [OF inv'(7,6) a(1) 2 this] show ?thesis using agree_le a(3) by blast
      qed simp
      from cut_keeps [OF a(4) _ this] n' show ?thesis by simp
    qed
  qed
  show ?thesis
  proof (cases "aer_Success resp \<and> ae_LeaderCommit req > n_commit ?n")
    case False
    then have "n_commit n' = n_commit ?n" using eff(2,3) by (cases "aer_Success resp") auto
    with old match cn eff(5) show ?thesis by (simp add: commit_node_def)
  next
    case True
    let ?c = "ae_LeaderCommit req"
    have c: "known S C H ?t ?h ?c" "?c \<le> ae_upto req"
      using inv'(4) req unfolding commit_inv_def by blast+
    have e: "n_term n' = ?t" "agree (n_log n') ?h (ae_upto req)" "n_commit n' = ?c"
      using True eff(2) c(2) by auto
    have "known S C' H ?t (n_log n') ?c" using known_later_same [OF l c(1) order_refl c(2) e(2)] .
    with e match cn eff(5) True show ?thesis by (simp add: commit_node_def)
  qed
qed

text \<open>What a pass of the apply loop delivers.\<close>

lemma s_applied_eq:
  assumes "hist_ok T (n_log n) (n_last n)" "0 \<le> n_applied n" "n_commit n \<le> n_last n"
  shows "s_applied n = map (\<lambda>i. the (n_log n i)) [n_applied n + 1..n_commit n]"
    "map CommandIndex (map apply_msg (s_applied n)) = [n_applied n + 1..n_commit n]"
    "\<And>e. e \<in> set (s_applied n) \<Longrightarrow> n_applied n < le_Index e \<and> le_Index e \<le> n_commit n \<and> n_log n (le_Index e) = Some e"
proof -
  have some: "\<exists>e. n_log n i = Some e \<and> le_Index e = i" if "i \<in> set [n_applied n + 1..n_commit n]" for i
    using that assms hist_okD(5) [OF assms(1), of i] hist_okD(2) [OF assms(1), of i] by (cases "n_log n i") auto
  then show eq: "s_applied n = map (\<lambda>i. the (n_log n i)) [n_applied n + 1..n_commit n]"
    unfolding s_applied_def log_range_def map_filter_the by (subst filter_True) (auto, metis option.distinct(1))
  have "map (CommandIndex \<circ> apply_msg \<circ> (\<lambda>i. the (n_log n i))) [n_applied n + 1..n_commit n] = [n_applied n + 1..n_commit n]"
    by (rule map_idI) (use some in \<open>force simp: apply_msg_def\<close>)
  then show "map CommandIndex (map apply_msg (s_applied n)) = [n_applied n + 1..n_commit n]"
    unfolding eq by (simp add: comp_assoc)
  show "n_applied n < le_Index e \<and> le_Index e \<le> n_commit n \<and> n_log n (le_Index e) = Some e" if "e \<in> set (s_applied n)" for e
    using that some unfolding eq by force
qed

lemma upto_join: "0 \<le> a \<Longrightarrow> a \<le> b \<Longrightarrow> [1..a] @ [a + 1..b] = [1..b::int]"
  using upto_split2 [of 1 a b] by (cases "a = 0") simp_all

lemma output_apply:
  assumes inv: "safety_inv S C H" and i: "i \<in> S"
    and C': "C' = set_node i (s_apply (nodes C i)) (C\<lparr>applied := (applied C)(i := applied C i @ map apply_msg (s_applied (nodes C i))),
           delivered := delivered C \<union> Pair i ` set (map apply_msg (s_applied (nodes C i)))\<rparr>)"
    and l: "later S C H C' H"
  shows "output_inv S C' H"
proof -
  let ?n = "nodes C i"
  note inv' = safety_invD [OF inv]
  have cn: "commit_node S C H i ?n" using inv'(4) i by (simp add: commit_inv_def)
  then have b: "0 \<le> n_applied ?n" "n_applied ?n \<le> n_commit ?n" "known S C H (n_term ?n) (n_log ?n) (n_commit ?n)"
    by (simp_all add: commit_node_def)
  note h = log_invD(2) [OF inv'(2) i]
  note ap = s_applied_eq [OF h b(1) known_le [OF b(3) inv'(8) h]]
  have new: "\<exists>t k c e. committed S C' H t k \<and> c \<le> k \<and> H t c = Some e \<and> m = apply_msg e"
    if "m \<in> set (map apply_msg (s_applied ?n))" for m
  proof -
    obtain e where e: "e \<in> set (s_applied ?n)" "m = apply_msg e" using \<open>m \<in> _\<close> by auto
    note ix = ap(3) [OF e(1)]
    then have "\<not> n_commit ?n \<le> 0" using b by linarith
    then obtain t k where tk: "committed S C H t k" "n_commit ?n \<le> k" "agree (n_log ?n) (H t) (n_commit ?n)"
      using b(3) by (auto simp: known_def)
    have "H t (le_Index e) = Some e" using agreeD [OF tk(3), of "le_Index e"] ix by simp
    moreover have "le_Index e \<le> k" using ix tk(2) by linarith
    ultimately show ?thesis using committed_later [OF l tk(1)] e(2) by blast
  qed
  show ?thesis
    unfolding output_inv_def
  proof (intro conjI allI impI ballI)
    fix j m
    assume "(j, m) \<in> delivered C'"
    then show "\<exists>t k c e. committed S C' H t k \<and> c \<le> k \<and> H t c = Some e \<and> m = apply_msg e"
    proof (cases "(j, m) \<in> delivered C")
      case True
      then show ?thesis using inv'(5) committed_later [OF l] unfolding output_inv_def by meson
    next
      case False
      with \<open>(j, m) \<in> delivered C'\<close> C' have "m \<in> set (map apply_msg (s_applied ?n))" by auto
      from new [OF this] show ?thesis .
    qed
  next
    fix j
    assume "j \<in> S"
    then have "map CommandIndex (applied C j) = [1..n_applied (nodes C j)]" using inv'(5) by (simp add: output_inv_def)
    then show "map CommandIndex (applied C' j) = [1..n_applied (nodes C' j)]"
      using ap(2) upto_join [OF b(1,2)] b(2) C' by (cases "j = i") (simp_all add: s_apply_def)
  qed
qed

section \<open>Steps\<close>

lemma safety_plain:
  assumes inv: "safety_inv S C H" and el': "election_inv S C'" and st: "plain_step S C C' i n'"
    and lead: "i \<in> S \<Longrightarrow> lead_ok S H i n'" and cn: "i \<in> S \<Longrightarrow> commit_node S C H i n'"
    and req: "\<And>p req. (p, req) \<in> aereqs C' \<Longrightarrow> (p, req) \<in> aereqs C \<or> ae_ok S C H p req
      \<and> known S C H (ae_Term req) (H (ae_Term req)) (ae_LeaderCommit req) \<and> ae_LeaderCommit req \<le> ae_upto req"
    and beats: "\<And>j p t c. (j, p, t, c) \<in> beats C' \<Longrightarrow> (j, p, t, c) \<in> beats C \<or>
      j \<in> S \<and> p \<in> S \<and> p \<noteq> j \<and> known S C H t (H t) c"
    and votes: "\<And>v u c ses. voted C' v u c \<Longrightarrow> elections C' c u = Some ses \<Longrightarrow> voted C v u c
      \<or> n_term (nodes C v) \<le> u \<and> up_to_date (ses_lt ses) (ses_li ses) (last_term (nodes C v)) (n_last (nodes C v))"
    and out: "later S C H C' H \<Longrightarrow> output_inv S C' H"
  shows "safety_inv S C' H"
proof -
  note inv' = safety_invD [OF inv] and d = plain_stepD [OF st]
  have won: "won S C' t j" if "won S C t j" for t j
    by (rule won_keep [OF d(5) _ that]) (simp add: plain_elections(1) [OF st])
  have l: "later S C H C' H" using inv'(8) d(6) won by (simp add: later_def)
  have "log_inv S C' H" by (rule log_plain [OF inv'(2) st lead]) (use req beats in blast)+
  moreover have "completeness_inv S C' H"
  proof (rule completeness_same [OF inv'(2,3) el' _ _ d(6) won])
    show "n_log (nodes C' j) = n_log (nodes C j)" "n_term (nodes C j) \<le> n_term (nodes C' j)" for j
      using d(1,3) quiet_term [OF d(2)] by auto
    fix v u c ses
    assume a: "voted C' v u c" "elections C' c u = Some ses"
    obtain s0 where "elections C c u = Some s0" "ses_li s0 = ses_li ses" "ses_lt s0 = ses_lt ses"
      using plain_elections(2) [OF st a(2)] by blast
    with votes [OF a] show "(\<exists>ses0. voted C v u c \<and> elections C c u = Some ses0 \<and> ses_li ses0 = ses_li ses \<and> ses_lt ses0 = ses_lt ses)
      \<or> n_term (nodes C v) \<le> u \<and> up_to_date (ses_lt ses) (ses_li ses) (last_term (nodes C v)) (n_last (nodes C v))" by blast
  qed
  moreover have "commit_inv S C' H"
    by (rule commit_inv_change [OF inv'(4) l d(1)]) (use cn commit_node_later [OF l] req beats in blast)+
  ultimately show ?thesis using el' out [OF l] by (simp add: safety_inv_def)
qed

lemma safety_start:
  assumes inv: "safety_inv S C H" and el': "election_inv S C'" and i: "i \<in> S"
    and C': "nodes C' = (nodes C)(i := s_startElection (nodes C i))"
      "elections C' = (elections C)(i := (elections C i)(n_term (nodes C i) + 1 \<mapsto> ses))"
      "ses_lt ses = last_term (nodes C i)" "ses_li ses = n_last (nodes C i)"
      "rvresps C' = rvresps C" "beats C' = beats C" "aereqs C' = aereqs C" "aeresps C' = aeresps C"
      "delivered C' = delivered C" "applied C' = applied C"
  shows "safety_inv S C' H"
proof -
  note inv' = safety_invD [OF inv]
  let ?t = "n_term (nodes C i) + 1"
  have vi: "vote_inv S C" and ri: "request_inv S C" using inv'(1) by (simp_all add: election_inv_def)
  have "\<not> voted C i ?t i" using vote_invD(3) [OF vi, of i ?t i] by auto
  then have none: "elections C i ?t = None" by (simp add: voted_def)
  have won: "won S C' t j" if "won S C t j" for t j
    by (rule won_keep [OF _ _ that]) (use C' in auto)
  have l: "later S C H C' H" using inv'(8) C'(8) won by (simp add: later_def)
  have "completeness_inv S C' H"
  proof (rule completeness_same [OF inv'(2,3) el' _ _ C'(8) won])
    show "n_log (nodes C' j) = n_log (nodes C j)" "n_term (nodes C j) \<le> n_term (nodes C' j)" for j
      using C'(1) by (simp_all add: s_startElection_def)
    fix v u c s
    assume a: "voted C' v u c" "elections C' c u = Some s"
    have v: "voted C v u c \<or> v = i \<and> c = i \<and> u = ?t" using a(1) C'(2,5) by (auto simp: voted_def split: if_splits)
    show "(\<exists>s0. voted C v u c \<and> elections C c u = Some s0 \<and> ses_li s0 = ses_li s \<and> ses_lt s0 = ses_lt s)
      \<or> n_term (nodes C v) \<le> u \<and> up_to_date (ses_lt s) (ses_li s) (last_term (nodes C v)) (n_last (nodes C v))"
    proof (cases "c = i \<and> u = ?t")
      case True
      have "\<not> voted C w ?t i" for w
        using none ri unfolding voted_def request_inv_def by (metis option.distinct(1))
      with v True have "v = i" by auto
      with True a(2) C'(2-4) show ?thesis by (simp add: up_to_date_def)
    next
      case False
      then have "elections C c u = Some s" "voted C v u c" using v a(2) C'(2) by (auto split: if_splits)
      then show ?thesis by blast
    qed
  qed
  moreover have "log_inv S C' H" using log_start [OF inv'(2,1) i refl C'(1-3,5-8)] .
  moreover have "commit_inv S C' H"
  proof (rule commit_inv_change [OF inv'(4) l C'(1)])
    have "commit_node S C H i (nodes C i)" using inv'(4) i by (simp add: commit_inv_def)
    then show "commit_node S C' H i (s_startElection (nodes C i))"
      by (rule commit_node_keep [OF _ l]) (simp_all add: s_startElection_def)
  qed (use C' in auto)
  moreover have "output_inv S C' H"
    using output_inv_later [OF inv'(5) l C'(9,10)] C'(1) by (simp add: s_startElection_def)
  ultimately show ?thesis using el' by (simp add: safety_inv_def)
qed

lemma safety_append:
  assumes inv: "safety_inv S C H" and el': "election_inv S C'" and req: "(p, req) \<in> aereqs C"
    and C': "C' = set_node p (fst (s_HandleAppendEntries req (nodes C p)))
        (C\<lparr>aeresps := insert (p, req, snd (s_HandleAppendEntries req (nodes C p))) (aeresps C)\<rparr>)"
  shows "safety_inv S C' H"
proof -
  note inv' = safety_invD [OF inv]
  obtain n' resp where r: "s_HandleAppendEntries req (nodes C p) = (n', resp)" by (cases "s_HandleAppendEntries req (nodes C p)")
  have won: "won S C' t j" if "won S C t j" for t j
    by (rule won_keep [OF _ _ that]) (simp_all add: C')
  have l: "later S C H C' H" using inv'(8) won by (auto simp: later_def C')
  have ok: "ae_ok S C H p req" using log_inv_req(1) [OF inv'(2) req] .
  then have "n_applied n' = n_applied (nodes C p)"
    using append_effect(5) [OF inv'(2) _ ok refl r] by (simp add: ae_ok_def)
  then have "output_inv S C' H" using r by (intro output_inv_later [OF inv'(5) l]) (auto simp: C')
  moreover have "commit_inv S C' H"
    by (rule commit_inv_change [OF inv'(4) l, of p n'])
      (use commit_node_append [OF inv req r l] r in \<open>auto simp: C'\<close>)
  ultimately show ?thesis
    using el' log_append [OF inv'(1,2) req C'] completeness_append [OF inv'(1-3) req C'] by (simp add: safety_inv_def)
qed

text \<open>A leader appends to its log, in a term it leads already or has just won.\<close>

lemma safety_extend:
  assumes inv: "safety_inv S C H" and el': "election_inv S C'" and log': "log_inv S C' H'" and le: "hist_le H H'"
    and comp: "completeness_inv S C' H'" and i: "i \<in> S"
    and C': "nodes C' = (nodes C)(i := n')" "elections C' = elections C" "rvresps C' = rvresps C"
      "beats C' = beats C" "aereqs C' = aereqs C" "aeresps C' = aeresps C" "delivered C' = delivered C" "applied C' = applied C"
    and n': "n_term n' = n_term (nodes C i)" "n_commit n' = n_commit (nodes C i)" "n_applied n' = n_applied (nodes C i)"
      "n_log n' = (n_log (nodes C i))(n_last (nodes C i) + 1 \<mapsto> x)" "match_ok S C H i n'"
  shows "safety_inv S C' H'"
proof -
  note inv' = safety_invD [OF inv]
  let ?n = "nodes C i"
  have won: "won S C' t j" if "won S C t j" for t j
    by (rule won_keep [OF _ _ that]) (simp_all add: C')
  have l: "later S C H C' H'" using inv'(8) log_inv_hists [OF log'] le won by (simp add: later_def C')
  have cn: "commit_node S C H i ?n" using inv'(4) i by (simp add: commit_inv_def)
  have k: "known S C H (n_term ?n) (n_log ?n) (n_commit ?n)" using cn by (simp add: commit_node_def)
  have "n_commit ?n \<le> n_last ?n" using known_le [OF k inv'(8) log_invD(2) [OF inv'(2) i]] .
  moreover have "agree (n_log n') (n_log ?n) (n_last ?n)" using n'(4) by (simp add: agree_def)
  ultimately have "known S C' H' (n_term ?n) (n_log n') (n_commit ?n)"
    using known_later_same [OF l k order_refl] by blast
  then have "commit_node S C' H' i n'"
    using cn n' match_ok_later [OF l] by (simp add: commit_node_def)
  then have "commit_inv S C' H'" by (intro commit_inv_change [OF inv'(4) l C'(1)]) (auto simp: C')
  moreover have "output_inv S C' H'" using output_inv_later [OF inv'(5) l C'(7,8)] C'(1) n'(3) by simp
  ultimately show ?thesis using el' log' comp by (simp add: safety_inv_def)
qed

lemma safety_win:
  assumes inv: "safety_inv S C H" and el': "election_inv S C'" and i: "i \<in> S" and cand: "n_role (nodes C i) = Candidate"
    and C': "C' = set_node i (s_becomeLeader (nodes C i)) C"
  shows "\<exists>H'. safety_inv S C' H'"
proof -
  note inv' = safety_invD [OF inv]
  let ?n = "nodes C i"
  have "won S C' (n_term ?n) i" using el' i C' by (auto simp: election_inv_def role_inv_def)
  moreover have v: "voted C' = voted C" by (rule voted_cong) (simp_all add: C')
  ultimately have w: "won S C (n_term ?n) i" unfolding won_cong [OF v] by blast
  note lw = log_win [OF inv'(2,1) i cand w, of C']
  have lw': "H (n_term ?n) = Map.empty" "log_inv S C' (H(n_term ?n := n_log (s_becomeLeader ?n)))"
    "hist_le H (H(n_term ?n := n_log (s_becomeLeader ?n)))" using lw by (simp_all add: C')
  have "cand_ok C i ?n" using inv'(1) i by (simp add: election_inv_def role_inv_def)
  then have comp: "completeness_inv S C' (H(n_term ?n := n_log (s_becomeLeader ?n)))"
    using lw'(1) cand
    by (intro completeness_extend [OF inv'(1,2) lw'(2) inv'(3) i refl refl w refl lw'(3) _ becomeLeader_log])
      (simp_all add: C')
  have "match_ok S C H i (s_becomeLeader ?n)"
    using config_invD(3) [OF _ i, of C] inv'(1)
    by (simp add: match_ok_def election_inv_def s_becomeLeader_def s_append_def go_get_def)
  then have "safety_inv S C' (H(n_term ?n := n_log (s_becomeLeader ?n)))"
    by (intro safety_extend [OF inv el' lw'(2,3) comp i]) (simp_all add: C' becomeLeader_log)
  then show ?thesis by blast
qed

lemma safety_propose:
  assumes inv: "safety_inv S C H" and el': "election_inv S C'" and i: "i \<in> S" and lead: "n_role (nodes C i) = Leader"
    and C': "C' = set_node i (s_append cmd (nodes C i)) C"
  shows "\<exists>H'. safety_inv S C' H'"
proof -
  note inv' = safety_invD [OF inv]
  let ?n = "nodes C i" and ?H = "H(n_term (nodes C i) := n_log (s_append cmd (nodes C i)))"
  have w: "won S C (n_term ?n) i" using inv'(1) i lead by (simp add: election_inv_def role_inv_def)
  note lp = log_propose [OF inv'(2,1) i lead, of C' cmd]
  have lp': "log_inv S C' ?H" "hist_le H ?H" using lp by (simp_all add: C')
  have h: "H (n_term ?n) = n_log ?n" using log_invD(4) [OF inv'(2) i] lead by (simp add: lead_ok_def)
  have app: "n_log (s_append cmd ?n) = (n_log ?n)(n_last ?n + 1 \<mapsto> \<lparr>le_Term = n_term ?n, le_Index = n_last ?n + 1, le_Command = cmd\<rparr>)"
    "n_term (s_append cmd ?n) = n_term ?n" "n_role (s_append cmd ?n) = n_role ?n" "n_match (s_append cmd ?n) = n_match ?n"
    "n_commit (s_append cmd ?n) = n_commit ?n" "n_applied (s_append cmd ?n) = n_applied ?n"
    by (simp_all add: s_append_def)
  have "H (n_term ?n) \<noteq> Map.empty" using log_invD(4) [OF inv'(2) i] lead by (simp add: lead_ok_def)
  then have comp: "completeness_inv S C' ?H"
    by (intro completeness_extend [OF inv'(1,2) lp'(1) inv'(3) i refl refl w refl lp'(2) _ app(1)])
      (simp_all add: C' h app)
  have "match_ok S C H i ?n" using inv'(4) i by (simp add: commit_inv_def commit_node_def)
  then have "match_ok S C H i (s_append cmd ?n)" by (simp add: match_ok_def app)
  then have "safety_inv S C' ?H"
    by (intro safety_extend [OF inv el' lp' comp i]) (simp_all add: C' app)
  then show ?thesis by blast
qed

lemma request_known:
  assumes inv: "safety_inv S C H" and b: "(i, p, t, c) \<in> beats C" and req: "s_request p t c (nodes C i) = Some req"
  shows "ae_ok S C H p req \<and> known S C H (ae_Term req) (H (ae_Term req)) (ae_LeaderCommit req) \<and> ae_LeaderCommit req \<le> ae_upto req"
proof -
  note inv' = safety_invD [OF inv]
  have ip: "i \<in> S" "p \<in> S" "p \<noteq> i" using log_inv_req(4) [OF inv'(2) b] by auto
  have id: "n_id (nodes C i) = i" using config_invD(1) [OF _ ip(1)] inv'(1) by (simp add: election_inv_def)
  have lead: "n_role (nodes C i) = Leader" "n_term (nodes C i) = t"
    using req by (auto simp: s_request_def split: if_splits)
  have w: "won S C (n_term (nodes C i)) i" using inv'(1) ip(1) lead(1) by (auto simp: election_inv_def role_inv_def)
  note r = s_request_ok [OF inv'(2) ip(1) id ip(2,3) w req]
  have k: "known S C H t (H t) c" using inv'(4) b unfolding commit_inv_def by blast
  have "H t = n_log (nodes C i)" using log_invD(4) [OF inv'(2) ip(1)] lead by (auto simp: lead_ok_def)
  with known_le [OF k inv'(8)] log_invD(2) [OF inv'(2) ip(1)] r k show ?thesis by simp
qed

lemma safety_quiet:
  assumes inv: "safety_inv S C H" and el': "election_inv S C'" and st: "plain_step S C C' i n'"
    and same: "n_commit n' = n_commit (nodes C i)" "n_applied n' = n_applied (nodes C i)"
      "n_role n' = Leader \<Longrightarrow> n_match n' = n_match (nodes C i) \<and> n_next n' = n_next (nodes C i)"
    and msg: "aereqs C' = aereqs C" "beats C' = beats C" "delivered C' = delivered C" "applied C' = applied C"
    and votes: "\<And>v u c ses. voted C' v u c \<Longrightarrow> elections C' c u = Some ses \<Longrightarrow> voted C v u c
      \<or> n_term (nodes C v) \<le> u \<and> up_to_date (ses_lt ses) (ses_li ses) (last_term (nodes C v)) (n_last (nodes C v))"
  shows "safety_inv S C' H"
proof (rule safety_plain [OF inv el' st _ _ _ _ votes])
  note inv' = safety_invD [OF inv] and d = plain_stepD [OF st]
  have l0: "later S C H C H" using inv'(8) by (simp add: later_def)
  show "lead_ok S H i n'" if "i \<in> S"
    using lead_ok_keep [OF log_invD(4) [OF inv'(2) that] d(2-4)] same(3) by blast
  show "commit_node S C H i n'" if "i \<in> S"
  proof -
    have "commit_node S C H i (nodes C i)" using inv'(4) that by (simp add: commit_inv_def)
    from commit_node_keep [OF this l0 quiet_term [OF d(2)] d(3) same(1,2)] d(2) same(3) show ?thesis
      by (simp add: quiet_def)
  qed
  show "output_inv S C' H" if "later S C H C' H"
    using output_inv_later [OF inv'(5) that msg(3,4)] d(1) same(2) by simp
qed (use msg in simp_all)

lemma safety_vote:
  assumes inv: "safety_inv S C H" and el': "election_inv S C'" and req: "(p, req) \<in> rvreqs C"
    and C': "C' = set_node p (fst (s_HandleRequestVote req (nodes C p)))
        (C\<lparr>rvresps := insert (p, req, snd (s_HandleRequestVote req (nodes C p))) (rvresps C)\<rparr>)"
  shows "safety_inv S C' H"
proof (rule safety_quiet [OF inv el'])
  let ?n = "nodes C p" and ?n' = "fst (s_HandleRequestVote req (nodes C p))"
  have same: "n_log ?n' = n_log ?n" "n_last ?n' = n_last ?n" "n_commit ?n' = n_commit ?n" "n_applied ?n' = n_applied ?n"
    "n_match ?n' = n_match ?n" "n_next ?n' = n_next ?n"
    by (simp_all add: s_HandleRequestVote_def Let_def s_observe_def s_stepDown_def)
  show "plain_step S C C' p ?n'"
    using same quiet_HandleRequestVote [of ?n req] by (auto simp: plain_step_def C')
  show "n_commit ?n' = n_commit ?n" "n_applied ?n' = n_applied ?n" "n_match ?n' = n_match ?n \<and> n_next ?n' = n_next ?n"
    using same by simp_all
  fix v u c ses
  assume a: "voted C' v u c" "elections C' c u = Some ses"
  show "voted C v u c \<or> n_term (nodes C v) \<le> u \<and> up_to_date (ses_lt ses) (ses_li ses) (last_term (nodes C v)) (n_last (nodes C v))"
  proof (cases "voted C v u c")
    case False
    with a(1) C' have n: "v = p" "rv_Term req = u" "rv_CandidateId req = c" "rvr_VoteGranted (snd (s_HandleRequestVote req ?n))"
      by (auto simp: voted_def)
    have "request_inv S C" using safety_invD(1) [OF inv] by (simp add: election_inv_def)
    from request_invD [OF this req] n a(2) C' have "ses_li ses = rv_LastLogIndex req" "ses_lt ses = rv_LastLogTerm req"
      by (auto elim!: request_invD)
    with HandleRequestVote_granted(3,5) [OF n(4)] n show ?thesis by simp
  qed simp
qed (simp_all add: C')

theorem safety_step:
  assumes inv: "safety_inv S C H" and step: "exec spec_ops S ev C = Some C'"
  shows "\<exists>H'. safety_inv S C' H'"
proof -
  note inv' = safety_invD [OF inv]
  have el': "election_inv S C'" using election_inv_step [OF inv'(1) step] .
  from step show ?thesis
  proof (cases rule: spec_exec_cases)
    case (election i)
    have "safety_inv S C' H"
      by (rule safety_start [OF inv el' election(2), of "\<lparr>ses_li = n_last (nodes C i), ses_lt = last_term (nodes C i),
        ses_votes = 1, ses_waiting = n_peers (nodes C i)\<rparr>"]) (simp_all add: election(3))
    then show ?thesis by blast
  next
    case (vote p req)
    from safety_vote [OF inv el' vote(2,3)] show ?thesis by blast
  next
    case (counted p req resp i t ses)
    let ?n = "nodes C i" and ?r = "s_voteResp t (ses_votes ses) resp (nodes C i)"
    let ?D = "set_session i t (ses\<lparr>ses_votes := snd ?r, ses_waiting := remove1 p (ses_waiting ses)\<rparr>) C"
    have iS: "i \<in> S" using counted(5) vote_invD(1) [of S C i t i] inv'(1) by (simp add: voted_def election_inv_def)
    have v: "voted ?D = voted C" "voted C' = voted C" using counted(5,7) by (auto simp: voted_def fun_eq_iff)
    show ?thesis
    proof (cases "fst ?r = s_becomeLeader ?n \<and> n_role ?n = Candidate")
      case True
      have "rvr_VoteGranted resp \<Longrightarrow> voted C p t i" using counted(2-4) by (auto simp: voted_def)
      from election_count_session(2) [OF inv'(1) counted(5,6) this refl refl] have "election_inv S ?D" by simp
      moreover have "plain_step S C ?D i ?n" using counted(5) by (simp add: plain_step_def)
      ultimately have "safety_inv S ?D H" using v(1) by (intro safety_quiet [OF inv]) simp_all
      from safety_win [OF this el' iS] True counted(7) show ?thesis by simp
    next
      case False
      then have r: "fst ?r = ?n \<or> (\<exists>u. n_term ?n < u \<and> fst ?r = s_stepDown u ?n)"
        by (auto simp: s_voteResp_def)
      then have q: "quiet ?n (fst ?r)" "n_log (fst ?r) = n_log ?n" "n_last (fst ?r) = n_last ?n" "n_commit (fst ?r) = n_commit ?n"
        "n_applied (fst ?r) = n_applied ?n" "n_match (fst ?r) = n_match ?n" "n_next (fst ?r) = n_next ?n"
        by (auto simp: quiet_defs s_stepDown_def)
      then have st: "plain_step S C C' i (fst ?r)" using counted(5,7) by (simp add: plain_step_def)
      have "safety_inv S C' H" using q v(2) counted(7) by (intro safety_quiet [OF inv el' st]) simp_all
      then show ?thesis by blast
    qed
  next
    case (finish i t ses)
    have iS: "i \<in> S" using finish(2) vote_invD(1) [of S C i t i] inv'(1) by (simp add: voted_def election_inv_def)
    show ?thesis
    proof (cases "n_role (nodes C i) = Candidate \<and> s_finish t (ses_votes ses) (nodes C i) = s_becomeLeader (nodes C i)")
      case True
      with safety_win [OF inv el' iS] finish(3) show ?thesis by simp
    next
      case False
      then have "s_finish t (ses_votes ses) (nodes C i) = nodes C i" by (auto simp: s_finish_def)
      with finish(3) inv show ?thesis by (auto simp: set_node_def)
    qed
  next
    case (beat i)
    have ps: "set (n_peers (nodes C i)) = S - {i}" using config_invD(3) [OF _ beat(2)] inv'(1) by (simp add: election_inv_def)
    have h: "H (n_term (nodes C i)) = n_log (nodes C i)" using log_invD(4) [OF inv'(2) beat(2)] beat(3) by (simp add: lead_ok_def)
    have cn: "commit_node S C H i (nodes C i)" using inv'(4) beat(2) by (simp add: commit_inv_def)
    have "plain_step S C C' i (nodes C i)" by (simp add: plain_step_def beat(4))
    then have "safety_inv S C' H"
      using log_invD(4) [OF inv'(2) beat(2)] cn h ps beat(2) output_inv_later [OF inv'(5)]
      by (intro safety_plain [OF inv el']) (auto simp: beat(4) commit_node_def voted_def)
    then show ?thesis by blast
  next
    case (send i p t c req)
    have iS: "i \<in> S" using log_inv_req(4) [OF inv'(2) send(2)] by simp
    have cn: "commit_node S C H i (nodes C i)" using inv'(4) iS by (simp add: commit_inv_def)
    have "plain_step S C C' i (nodes C i)" by (auto simp: plain_step_def send(4))
    then have "safety_inv S C' H"
      using log_invD(4) [OF inv'(2) iS] cn request_known [OF inv send(2,3)] output_inv_later [OF inv'(5)]
      by (intro safety_plain [OF inv el']) (auto simp: send(4) voted_def)
    then show ?thesis by blast
  next
    case (append p req)
    from safety_append [OF inv el' append(2,3)] show ?thesis by blast
  next
    case (ack p req resp)
    let ?i = "ae_LeaderId req"
    let ?n' = "s_appendResp p (ae_Term req) (ae_PrevLogIndex req) (length (ae_Entries req)) resp (nodes C ?i)"
    have "ae_ok S C H p req" using log_inv_req(1,2) [OF inv'(2)] ack(2) by blast
    then have iS: "?i \<in> S" by (simp add: ae_ok_def)
    have "plain_step S C C' ?i ?n'" using quiet_appendResp by (simp add: plain_step_def ack(3))
    then have "safety_inv S C' H"
      using lead_ok_appendResp [OF inv'(2) iS ack(2) refl] commit_node_appendResp [OF inv iS ack(2) refl] output_inv_later [OF inv'(5)]
      by (intro safety_plain [OF inv el']) (auto simp: ack(3) voted_def)
    then show ?thesis by blast
  next
    case (propose i cmd)
    show ?thesis
    proof (cases "n_role (nodes C i) = Leader")
      case True
      with safety_propose [OF inv el' propose(2)] propose(3) show ?thesis by (simp add: s_Propose_def)
    next
      case False
      with propose(3) inv show ?thesis by (auto simp: s_Propose_def set_node_def)
    qed
  next
    case (deliver i)
    let ?n' = "s_apply (nodes C i)"
    have cn: "commit_node S C H i ?n'" using inv'(4) deliver(2) by (auto simp: commit_inv_def commit_node_def s_apply_def match_ok_def)
    have l: "lead_ok S H i ?n'" using log_invD(4) [OF inv'(2) deliver(2)] by (simp add: lead_ok_def s_apply_def)
    have st: "plain_step S C C' i ?n'" using quiet_apply by (simp add: plain_step_def deliver(3) s_apply_def)
    have "safety_inv S C' H"
      by (rule safety_plain [OF inv el' st l cn _ _ _ output_apply [OF inv deliver(2,3)]]) (auto simp: deliver(3) voted_def)
    then show ?thesis by blast
  next
    case (restart i)
    let ?n' = "s_restart (nodes C i)"
    have cn: "commit_node S C H i ?n'" by (simp add: commit_node_def s_restart_def match_ok_def known_def)
    have l: "lead_ok S H i ?n'" by (simp add: lead_ok_def s_restart_def)
    have st: "plain_step S C C' i ?n'" using quiet_restart by (simp add: plain_step_def restart(3) s_restart_def)
    have out: "output_inv S C' H" if lt: "later S C H C' H"
      using inv'(5) committed_later [OF lt] unfolding output_inv_def by (auto simp: restart(3) s_restart_def) blast
    have "safety_inv S C' H"
      by (rule safety_plain [OF inv el' st l cn _ _ _ out]) (auto simp: restart(3) voted_def)
    then show ?thesis by blast
  qed (use inv in blast)
qed

end
