(* ===== verification/Raft_Bounds.thy ===== *)
theory Raft_Bounds
  imports Raft_Safety
begin

text \<open>
  How far terms and indices can grow: after \<open>B\<close> events of a cluster that started fresh, every
  term and every index in a node, a log or a message lies between 0 and \<open>B\<close>. A storage that
  represents the numbers up to \<open>B\<close> therefore keeps its promises in every run of at most \<open>B\<close>
  events.
\<close>

section \<open>Bounds\<close>

definition bounded :: "int64 \<Rightarrow> int64 \<Rightarrow> bool" where
  "bounded B x \<longleftrightarrow> 0 \<le> x \<and> x \<le> B"

definition entry_bound :: "int64 \<Rightarrow> LogEntry \<Rightarrow> bool" where
  "entry_bound B e \<longleftrightarrow> bounded B (le_Term e) \<and> bounded B (le_Index e)"

definition node_bound :: "node_id set \<Rightarrow> int64 \<Rightarrow> spec_node \<Rightarrow> bool" where
  "node_bound S B n \<longleftrightarrow> n_id n \<in> S \<and> bounded B (n_term n) \<and> bounded B (n_last n)
     \<and> (\<forall>e\<in>ran (n_log n). entry_bound B e)"

definition cluster_bound :: "node_id set \<Rightarrow> int64 \<Rightarrow> spec_node cluster \<Rightarrow> bool" where
  "cluster_bound S B C \<longleftrightarrow> (\<forall>i\<in>S. node_bound S B (nodes C i))
     \<and> (\<forall>(p, req)\<in>rvreqs C. bounded B (rv_Term req) \<and> rv_CandidateId req \<in> S)
     \<and> (\<forall>(p, req, resp)\<in>rvresps C. bounded B (rvr_Term resp))
     \<and> (\<forall>(p, req)\<in>aereqs C. bounded B (ae_Term req)
          \<and> (\<forall>e\<in>set (convertProtoToLogEntries (ae_Entries req)). entry_bound B e))
     \<and> (\<forall>(p, req, resp)\<in>aeresps C. bounded B (aer_Term resp))"

lemma bounded_mono: "bounded B x \<Longrightarrow> B \<le> B' \<Longrightarrow> bounded B' x"
  by (simp add: bounded_def)

lemma entry_bound_mono: "entry_bound B e \<Longrightarrow> B \<le> B' \<Longrightarrow> entry_bound B' e"
  by (auto simp: entry_bound_def intro: bounded_mono)

lemma node_bound_mono: "node_bound S B n \<Longrightarrow> B \<le> B' \<Longrightarrow> node_bound S B' n"
  by (auto simp: node_bound_def intro: bounded_mono entry_bound_mono)

lemma cluster_bound_mono:
  assumes "cluster_bound S B C" "B \<le> B'"
  shows "cluster_bound S B' C"
  unfolding cluster_bound_def
proof (intro conjI ballI)
  note b = assms(1) [unfolded cluster_bound_def]
  show "node_bound S B' (nodes C i)" if "i \<in> S" for i using b that node_bound_mono [OF _ assms(2)] by blast
  show "case x of (p, req) \<Rightarrow> bounded B' (rv_Term req) \<and> rv_CandidateId req \<in> S" if "x \<in> rvreqs C" for x
    using b that bounded_mono [OF _ assms(2)] by (cases x) blast
  show "case x of (p, req, resp) \<Rightarrow> bounded B' (rvr_Term resp)" if "x \<in> rvresps C" for x
    using b that bounded_mono [OF _ assms(2)] by (cases x) blast
  show "case x of (p, req) \<Rightarrow> bounded B' (ae_Term req)
          \<and> (\<forall>e\<in>set (convertProtoToLogEntries (ae_Entries req)). entry_bound B' e)" if "x \<in> aereqs C" for x
    using b that bounded_mono [OF _ assms(2)] entry_bound_mono [OF _ assms(2)] by (cases x) blast
  show "case x of (p, req, resp) \<Rightarrow> bounded B' (aer_Term resp)" if "x \<in> aeresps C" for x
    using b that bounded_mono [OF _ assms(2)] by (cases x) blast
qed

section \<open>Nodes\<close>

lemma node_bound_simps [simp]:
  "node_bound S B (n\<lparr>n_role := x1\<rparr>) = node_bound S B n" "node_bound S B (n\<lparr>n_leader := x2\<rparr>) = node_bound S B n"
  "node_bound S B (n\<lparr>n_vote := x2\<rparr>) = node_bound S B n" "node_bound S B (n\<lparr>n_commit := x3\<rparr>) = node_bound S B n"
  "node_bound S B (n\<lparr>n_applied := x3\<rparr>) = node_bound S B n" "node_bound S B (n\<lparr>n_next := x4\<rparr>) = node_bound S B n"
  "node_bound S B (n\<lparr>n_match := x4\<rparr>) = node_bound S B n"
  by (simp_all add: node_bound_def)

lemma stepDown_bound: "node_bound S B n \<Longrightarrow> bounded B t \<Longrightarrow> node_bound S B (s_stepDown t n)"
  by (simp add: s_stepDown_def node_bound_def)

lemma observe_bound: "node_bound S B n \<Longrightarrow> bounded B t \<Longrightarrow> node_bound S B (s_observe t n)"
  by (simp add: s_observe_def stepDown_bound)

lemma append_bound:
  assumes "node_bound S B n"
  shows "node_bound S (B + 1) (s_append cmd n)"
proof -
  have "entry_bound (B + 1) e" if "e \<in> ran (n_log n)" for e
    using assms that by (auto simp: node_bound_def intro: entry_bound_mono)
  moreover have "bounded (B + 1) (n_term n)" "bounded (B + 1) (n_last n + 1)"
    using assms by (auto simp: node_bound_def bounded_def)
  moreover have "ran (n_log (s_append cmd n)) \<subseteq>
      insert \<lparr>le_Term = n_term n, le_Index = n_last n + 1, le_Command = cmd\<rparr> (ran (n_log n))"
    by (auto simp: s_append_def ran_def)
  moreover have "entry_bound (B + 1) \<lparr>le_Term = n_term n, le_Index = n_last n + 1, le_Command = cmd\<rparr>"
    using calculation(2,3) by (simp add: entry_bound_def)
  ultimately show ?thesis using assms by (auto simp: node_bound_def s_append_def)
qed

lemma becomeLeader_bound: "node_bound S B n \<Longrightarrow> node_bound S (B + 1) (s_becomeLeader n)"
  unfolding s_becomeLeader_def by (rule append_bound) simp

lemma node_bound_put:
  assumes "node_bound S B n" "entry_bound B e" "ran m \<subseteq> ran (n_log n)" "bounded B l"
  shows "node_bound S B (n\<lparr>n_log := m(le_Index e \<mapsto> e), n_last := l\<rparr>)"
proof -
  have "ran (m(le_Index e \<mapsto> e)) \<subseteq> insert e (ran (n_log n))" using assms(3) by (auto simp: ran_def)
  then show ?thesis using assms by (auto simp: node_bound_def)
qed

lemma merge_bound:
  assumes "node_bound S B n" "\<forall>e\<in>set es. entry_bound B e"
  shows "node_bound S B (s_merge es n)"
  using assms
proof (induction es arbitrary: n)
  case (Cons e es)
  have e: "entry_bound B e" "bounded B (le_Index e)" and es: "\<forall>e\<in>set es. entry_bound B e"
    using Cons.prems(2) by (auto simp: entry_bound_def)
  have l: "bounded B (max (n_last n) (le_Index e))" using Cons.prems(1) e by (auto simp: node_bound_def bounded_def)
  have r: "ran (n_log n |` {..le_Index e - 1}) \<subseteq> ran (n_log n)" by (auto simp: ran_def restrict_map_def split: if_splits)
  note put = node_bound_put [OF Cons.prems(1) e(1)]
  show ?case
    using Cons.IH [OF Cons.prems(1) es] Cons.IH [OF put [OF subset_refl l] es] Cons.IH [OF put [OF r e(2)] es]
    by (simp split: option.split)
qed simp

lemma HandleAppendEntries_bound:
  assumes "node_bound S B n" "bounded B (ae_Term req)" "\<forall>e\<in>set (convertProtoToLogEntries (ae_Entries req)). entry_bound B e"
  shows "node_bound S B (fst (s_HandleAppendEntries req n)) \<and> bounded B (aer_Term (snd (s_HandleAppendEntries req n)))"
proof -
  have "node_bound S B (s_advance c (s_merge (convertProtoToLogEntries (ae_Entries req)) m))" if "node_bound S B m" for c m
    using merge_bound [OF that assms(3)] by (simp add: s_advance_def)
  moreover have "bounded B (n_term n)" using assms(1) by (simp add: node_bound_def)
  ultimately show ?thesis using assms(1,2) observe_bound [OF assms(1,2)]
    by (simp add: s_HandleAppendEntries_def Let_def split: option.split)
qed

lemma HandleRequestVote_bound:
  assumes "node_bound S B n" "bounded B (rv_Term req)"
  shows "node_bound S B (fst (s_HandleRequestVote req n)) \<and> bounded B (rvr_Term (snd (s_HandleRequestVote req n)))"
  using assms observe_bound [OF assms] by (auto simp: s_HandleRequestVote_def Let_def node_bound_def)

lemma request_bound:
  assumes "node_bound S B n" "s_request p t c n = Some req"
  shows "bounded B (ae_Term req) \<and> (\<forall>e\<in>set (convertProtoToLogEntries (ae_Entries req)). entry_bound B e)"
proof -
  have "convertProtoToLogEntries (ae_Entries req) = log_range (n_log n) (go_get (n_next n) p) (n_last n + 1)" "ae_Term req = n_term n"
    using assms(2) by (auto simp: s_request_def Let_def split: if_splits)
  moreover have "set (log_range m a b) \<subseteq> ran m" for m a b
    by (auto simp: log_range_def map_filter_def ran_def)
  ultimately show ?thesis using assms(1) unfolding node_bound_def by (metis subsetD)
qed

section \<open>Clusters\<close>

text \<open>Who takes part in a message, from the safety invariant.\<close>

lemma safety_members:
  assumes inv: "safety_inv S C H"
  shows "(p, req) \<in> rvreqs C \<Longrightarrow> p \<in> S" "elections C i t = Some ses \<Longrightarrow> i \<in> S"
    "(p, areq) \<in> aereqs C \<Longrightarrow> p \<in> S \<and> ae_wf areq" "(p, areq, resp) \<in> aeresps C \<Longrightarrow> ae_LeaderId areq \<in> S"
    "(i, p, t, c) \<in> beats C \<Longrightarrow> i \<in> S \<and> p \<in> S \<and> p \<noteq> i"
proof -
  note inv' = safety_invD [OF inv]
  have "request_inv S C" "vote_inv S C" using inv'(1) by (simp_all add: election_inv_def)
  then show "(p, req) \<in> rvreqs C \<Longrightarrow> p \<in> S" "elections C i t = Some ses \<Longrightarrow> i \<in> S"
    using vote_invD(1) [of S C i t i] by (auto elim: request_invD simp: voted_def)
  show "(p, areq) \<in> aereqs C \<Longrightarrow> p \<in> S \<and> ae_wf areq" "(p, areq, resp) \<in> aeresps C \<Longrightarrow> ae_LeaderId areq \<in> S"
    "(i, p, t, c) \<in> beats C \<Longrightarrow> i \<in> S \<and> p \<in> S \<and> p \<noteq> i"
    using log_inv_req [OF inv'(2)] unfolding ae_ok_def by blast+
qed

lemma cluster_bound_nodes: "cluster_bound S B C \<Longrightarrow> i \<in> S \<Longrightarrow> node_bound S B (nodes C i)"
  by (simp add: cluster_bound_def)

lemma cluster_bound_set_node:
  "cluster_bound S B C \<Longrightarrow> i \<in> S \<Longrightarrow> node_bound S B n \<Longrightarrow> cluster_bound S B (set_node i n C)"
  by (simp add: cluster_bound_def)

lemma cluster_bound_fields [simp]:
  "cluster_bound S B (set_session i t ses C) = cluster_bound S B C"
  "cluster_bound S B (C\<lparr>beats := x1\<rparr>) = cluster_bound S B C"
  "cluster_bound S B (C\<lparr>applied := x2\<rparr>) = cluster_bound S B C"
  "cluster_bound S B (C\<lparr>delivered := x3\<rparr>) = cluster_bound S B C"
  by (simp_all add: cluster_bound_def)

lemma cluster_bound_messages:
  assumes "cluster_bound S B C"
  shows "\<forall>(p, req)\<in>X1. bounded B (rv_Term req) \<and> rv_CandidateId req \<in> S \<Longrightarrow> cluster_bound S B (C\<lparr>rvreqs := rvreqs C \<union> X1\<rparr>)"
    and "bounded B (rvr_Term r) \<Longrightarrow> cluster_bound S B (C\<lparr>rvresps := insert (p, q, r) (rvresps C)\<rparr>)"
    and "bounded B (ae_Term areq) \<and> (\<forall>e\<in>set (convertProtoToLogEntries (ae_Entries areq)). entry_bound B e) \<Longrightarrow>
      cluster_bound S B (C\<lparr>aereqs := insert (p, areq) (aereqs C)\<rparr>)"
    and "bounded B (aer_Term ar) \<Longrightarrow> cluster_bound S B (C\<lparr>aeresps := insert (p, areq, ar) (aeresps C)\<rparr>)"
  using assms by (auto simp: cluster_bound_def)

text \<open>One event raises the bound by at most one.\<close>

theorem cluster_bound_step:
  assumes inv: "safety_inv S C H" and b: "cluster_bound S B C" and step: "exec spec_ops S ev C = Some C'"
  shows "cluster_bound S (B + 1) C'"
proof -
  have b1: "cluster_bound S (B + 1) C" using cluster_bound_mono [OF b] by simp
  note node = cluster_bound_nodes [OF b] and node1 = cluster_bound_nodes [OF b1]
  note members = safety_members [OF inv]
  note upd = cluster_bound_set_node cluster_bound_messages
  show ?thesis
  proof (cases ev)
    case (ElectionTimeout i)
    with step have i: "i \<in> S" by (simp split: if_splits)
    have n: "node_bound S (B + 1) (s_startElection (nodes C i))" "bounded (B + 1) (n_term (nodes C i) + 1)" "n_id (nodes C i) \<in> S"
      using node [OF i] node1 [OF i] by (auto simp: s_startElection_def node_bound_def bounded_def)
    have "\<forall>(p, req)\<in>set (vote_requests spec_ops (s_startElection (nodes C i)) (n_term (nodes C i) + 1, li, lt) ps).
        bounded (B + 1) (rv_Term req) \<and> rv_CandidateId req \<in> S" for li lt ps
      using n by (auto simp: spec_ops_def s_votereq_def s_startElection_def split: if_splits)
    from cluster_bound_messages(1) [OF b1 this] i n step show ?thesis unfolding ElectionTimeout
      by (auto simp: spec_ops_def intro!: cluster_bound_set_node)
  next
    case (DeliverVoteRequest p req)
    with step have r: "(p, req) \<in> rvreqs C" by (simp split: if_splits)
    have p: "p \<in> S" using members(1) [OF r] .
    have "bounded (B + 1) (rv_Term req)" using b1 r by (auto simp: cluster_bound_def)
    from HandleRequestVote_bound [OF node1 [OF p] this] p b1 step r show ?thesis unfolding DeliverVoteRequest
      by (auto simp: spec_ops_def split: prod.splits intro!: upd)
  next
    case (ReceiveVote p req resp)
    with step obtain ses where r: "(p, req, resp) \<in> rvresps C" "elections C (rv_CandidateId req) (rv_Term req) = Some ses"
      by (auto split: if_splits option.splits)
    have i: "rv_CandidateId req \<in> S" using members(2) [OF r(2)] .
    have "bounded (B + 1) (rvr_Term resp)" using b1 r by (auto simp: cluster_bound_def)
    then have "node_bound S (B + 1) (fst (s_voteResp t v resp (nodes C (rv_CandidateId req))))" for t v
      using node1 [OF i] becomeLeader_bound [OF node [OF i]] by (simp add: s_voteResp_def stepDown_bound)
    from this [of "rv_Term req" "ses_votes ses"] i b1 step r show ?thesis unfolding ReceiveVote
      by (auto simp: spec_ops_def split: if_splits prod.splits intro!: upd)
  next
    case (FinishElection i t)
    with step obtain ses where r: "elections C i t = Some ses" by (auto split: option.splits)
    have i: "i \<in> S" using members(2) [OF r] .
    have "node_bound S (B + 1) (s_finish t v (nodes C i))" for v
      using node1 [OF i] becomeLeader_bound [OF node [OF i]] by (simp add: s_finish_def)
    with i b1 step r show ?thesis unfolding FinishElection by (auto simp: spec_ops_def intro!: upd)
  next
    case (Heartbeat i)
    with b1 step show ?thesis by (auto simp: spec_ops_def split: if_splits)
  next
    case (SendAppend i p t c)
    with step have bt: "(i, p, t, c) \<in> beats C" by (simp split: if_splits)
    have i: "i \<in> S" using members(5) [OF bt] by simp
    from request_bound [OF node1 [OF i], of p t c] node1 [OF i] i b1 step bt show ?thesis unfolding SendAppend
      by (auto simp: spec_ops_def split: option.splits intro!: upd)
  next
    case (DeliverAppend p req)
    with step have r: "(p, req) \<in> aereqs C" by (simp split: if_splits)
    have p: "p \<in> S" using members(3) [OF r] by simp
    have "bounded (B + 1) (ae_Term req)" "\<forall>e\<in>set (convertProtoToLogEntries (ae_Entries req)). entry_bound (B + 1) e"
      using b1 r by (auto simp: cluster_bound_def)
    from HandleAppendEntries_bound [OF node1 [OF p] this] p b1 step r show ?thesis unfolding DeliverAppend
      by (auto simp: spec_ops_def split: prod.splits intro!: upd)
  next
    case (ReceiveAppend p req resp)
    with step have r: "(p, req, resp) \<in> aeresps C" by (simp split: if_splits)
    have i: "ae_LeaderId req \<in> S" using members(4) [OF r] .
    have t: "bounded (B + 1) (aer_Term resp)" using b1 r by (auto simp: cluster_bound_def)
    have "node_bound S (B + 1) (s_appendResp q u prev k resp (nodes C (ae_LeaderId req)))" for q u prev k
      using node1 [OF i] t by (simp add: s_appendResp_def s_checkCommit_def s_backup_def Let_def stepDown_bound)
    with i b1 step r show ?thesis unfolding ReceiveAppend by (auto simp: spec_ops_def intro!: upd)
  next
    case (ClientPropose i cmd)
    with step have i: "i \<in> S" by (simp split: if_splits)
    from append_bound [OF node [OF i], of cmd] node1 [OF i] i b1 step show ?thesis unfolding ClientPropose
      by (auto simp: spec_ops_def s_Propose_def intro!: upd)
  next
    case (ApplyCommitted i)
    with step have i: "i \<in> S" by (simp split: if_splits)
    from node1 [OF i] i b1 step show ?thesis unfolding ApplyCommitted
      by (auto simp: spec_ops_def s_apply_def intro!: upd)
  next
    case (Restart i)
    with step have i: "i \<in> S" by (simp split: if_splits)
    from node1 [OF i] i b1 step show ?thesis unfolding Restart
      by (auto simp: spec_ops_def s_restart_def intro!: upd)
  qed
qed

end
