(* ===== verification/Raft_Simulation.thy ===== *)
theory Raft_Simulation
  imports Raft_Bounds
begin

text \<open>
  The cluster that runs the implementation's handlers is simulated by the cluster of specification
  nodes, over any storage that meets the contract; so the safety properties hold of the
  implementation. They are restated here for nodes on the in-memory storage.
\<close>

section \<open>Initial states\<close>

definition fresh_node :: "spec_node \<Rightarrow> bool" where
  "fresh_node n \<longleftrightarrow> n_term n = 0 \<and> n_vote n = [] \<and> n_role n = Follower \<and> n_log n = Map.empty \<and> n_last n = 0
     \<and> n_commit n = 0 \<and> n_applied n = 0"

lemma safety_init:
  assumes "finite S" "[] \<notin> S" "\<And>i. i \<in> S \<Longrightarrow> fresh_node (f i) \<and> n_id (f i) = i \<and> distinct (n_peers (f i)) \<and> set (n_peers (f i)) = S - {i}"
  shows "safety_inv S (idle_cluster f) (\<lambda>_. Map.empty)"
proof -
  have v: "\<not> voted (idle_cluster f) w t c" for w t c by (simp add: voted_def idle_cluster_def)
  have n: "nodes (idle_cluster f) = f" by (simp add: idle_cluster_def)
  have "election_inv S (idle_cluster f)"
    using assms v by (auto simp: election_inv_def config_inv_def vote_inv_def session_inv_def request_inv_def
        role_inv_def cand_ok_def idle_cluster_def fresh_node_def)
  moreover have "log_inv S (idle_cluster f) (\<lambda>_. Map.empty)"
    using assms by (auto simp: log_inv_def log_node_ok_def hist_part_def msg_part_def hist_ok_def matches_def
        lead_ok_def idle_cluster_def fresh_node_def interval_map_def intro!: exI [of _ 0])
  moreover have "completeness_inv S (idle_cluster f) (\<lambda>_. Map.empty)"
    by (rule completeness_invI) (simp_all add: acked_def)
  moreover have "commit_inv S (idle_cluster f) (\<lambda>_. Map.empty)" "output_inv S (idle_cluster f) (\<lambda>_. Map.empty)"
    using assms by (auto simp: commit_inv_def commit_node_def output_inv_def known_def match_ok_def idle_cluster_def fresh_node_def)
  ultimately show ?thesis by (simp add: safety_inv_def)
qed

section \<open>The simulation\<close>

definition map_cluster :: "('n \<Rightarrow> 'm) \<Rightarrow> 'n cluster \<Rightarrow> 'm cluster" where
  "map_cluster f C = \<lparr>nodes = f \<circ> nodes C, elections = elections C, rvreqs = rvreqs C, rvresps = rvresps C,
     beats = beats C, aereqs = aereqs C, aeresps = aeresps C, applied = applied C, delivered = delivered C\<rparr>"

lemma map_cluster_sel [simp]:
  "nodes (map_cluster f C) i = f (nodes C i)" "elections (map_cluster f C) = elections C"
  "rvreqs (map_cluster f C) = rvreqs C" "rvresps (map_cluster f C) = rvresps C"
  "beats (map_cluster f C) = beats C" "aereqs (map_cluster f C) = aereqs C"
  "aeresps (map_cluster f C) = aeresps C" "applied (map_cluster f C) = applied C"
  "delivered (map_cluster f C) = delivered C"
  by (simp_all add: map_cluster_def)

lemma map_cluster_upd:
  "map_cluster f (set_node i n C) = set_node i (f n) (map_cluster f C)"
  "map_cluster f (set_session i t ses C) = set_session i t ses (map_cluster f C)"
  "map_cluster f (C\<lparr>rvreqs := x1\<rparr>) = (map_cluster f C)\<lparr>rvreqs := x1\<rparr>"
  "map_cluster f (C\<lparr>rvresps := x2\<rparr>) = (map_cluster f C)\<lparr>rvresps := x2\<rparr>"
  "map_cluster f (C\<lparr>beats := x3\<rparr>) = (map_cluster f C)\<lparr>beats := x3\<rparr>"
  "map_cluster f (C\<lparr>aereqs := x4\<rparr>) = (map_cluster f C)\<lparr>aereqs := x4\<rparr>"
  "map_cluster f (C\<lparr>aeresps := x5\<rparr>) = (map_cluster f C)\<lparr>aeresps := x5\<rparr>"
  "map_cluster f (C\<lparr>applied := x6, delivered := x7\<rparr>) = (map_cluster f C)\<lparr>applied := x6, delivered := x7\<rparr>"
  "map_cluster f (C\<lparr>applied := x6\<rparr>) = (map_cluster f C)\<lparr>applied := x6\<rparr>"
  by (auto simp: map_cluster_def set_node_def set_session_def fun_eq_iff)

text \<open>The side conditions of the refinement lemmas, from the invariant.\<close>

lemma safety_bounds:
  assumes inv: "safety_inv S C H" and i: "i \<in> S"
  shows "0 \<le> n_applied (nodes C i)" "n_commit (nodes C i) \<le> n_last (nodes C i)" "n_id (nodes C i) \<noteq> []"
    "\<And>p. n_role (nodes C i) = Leader \<Longrightarrow> p \<in> S \<Longrightarrow> p \<noteq> i \<Longrightarrow> 1 \<le> go_get (n_next (nodes C i)) p"
proof -
  note inv' = safety_invD [OF inv]
  have cn: "commit_node S C H i (nodes C i)" using inv'(4) i by (simp add: commit_inv_def)
  then show "0 \<le> n_applied (nodes C i)" by (simp add: commit_node_def)
  show "n_commit (nodes C i) \<le> n_last (nodes C i)"
    using known_le [OF _ inv'(8) log_invD(2) [OF inv'(2) i]] cn unfolding commit_node_def by blast
  show "n_id (nodes C i) \<noteq> []" using config_invD(1,5) [OF _ i, of C] inv'(1) by (simp add: election_inv_def)
  show "1 \<le> go_get (n_next (nodes C i)) p" if "n_role (nodes C i) = Leader" "p \<in> S" "p \<noteq> i" for p
    using log_invD(4) [OF inv'(2) i] that by (simp add: lead_ok_def)
qed

lemma s_votereq_view: "s_votereq (node_view absf rn) p cap = sendRequestVote_req rn p cap"
  by (simp add: s_votereq_def sendRequestVote_req_def GetPeerAddr_def split: prod.split)

lemma set_node_same: "nodes C i = n \<Longrightarrow> set_node i n C = C"
  by (auto simp: set_node_def)

context storage
begin

lemma set_node_view_same:
  assumes "view rn' = view (nodes C i)"
  shows "map_cluster view (set_node i rn' C) = map_cluster view C"
  using assms by (simp add: map_cluster_upd set_node_same)

theorem simulation_step:
  assumes ok: "\<And>i. i \<in> S \<Longrightarrow> nok (nodes C i)" and inv: "safety_inv S (map_cluster view C) H"
    and bnd: "cluster_bound S B (map_cluster view C)" and fit: "\<And>x. bounded (B + 1) x \<Longrightarrow> rng x"
    and ids: "\<And>i. i \<in> S \<Longrightarrow> id_ok i"
    and step: "exec (impl_ops ops) S ev C = Some C'"
  shows "exec spec_ops S ev (map_cluster view C) = Some (map_cluster view C') \<and> (\<forall>i\<in>S. nok (nodes C' i))"
proof -
  have fits: "rng x" if "bounded B x" for x using fit [OF bounded_mono [OF that]] by simp
  have node: "rng (currentTerm (nodes C i))" "rng (currentTerm (nodes C i) + 1)" "rng (lastIndex (rn_log (nodes C i)) + 1)"
    "id_ok (rn_id (nodes C i))" if "i \<in> S" for i
    using cluster_bound_nodes [OF bnd that] fits fit ids by (auto simp: node_bound_def bounded_def)
  have rv: "rng (rv_Term req)" "id_ok (rv_CandidateId req)" if "(p, req) \<in> rvreqs C" for p req
    using bnd that fits ids by (auto simp: cluster_bound_def)
  have rvr: "rng (rvr_Term resp)" if "(p, req, resp) \<in> rvresps C" for p req resp
    using bnd that fits by (auto simp: cluster_bound_def)
  have ae: "rng (ae_Term req)" "\<forall>e\<in>set (convertProtoToLogEntries (ae_Entries req)). rng (le_Term e) \<and> rng (le_Index e)"
    if "(p, req) \<in> aereqs C" for p req
    using bnd that fits by (auto simp: cluster_bound_def entry_bound_def)
  have aer: "rng (aer_Term resp)" if "(p, req, resp) \<in> aeresps C" for p req resp
    using bnd that fits by (auto simp: cluster_bound_def)
  show ?thesis
  proof (cases ev)
    case (ElectionTimeout i)
    with step have i: "i \<in> S" by (simp split: if_splits)
    obtain rn' where rn': "startElection_begin ops (nodes C i) =
        (rn', Some (currentTerm (nodes C i) + 1, n_last (view (nodes C i)), last_term (view (nodes C i))))"
      "nok rn'" "view rn' = s_startElection (view (nodes C i))"
      using startElection_begin_refines [OF ok [OF i] node(2,4) [OF i]] by blast
    show ?thesis using step i rn' ok unfolding ElectionTimeout
      by (auto simp: impl_ops_def spec_ops_def map_cluster_upd s_votereq_view simp flip: rn'(3))
  next
    case (DeliverVoteRequest p req)
    with step have r: "(p, req) \<in> rvreqs C" by (simp split: if_splits)
    then have p: "p \<in> S" using safety_members(1) [OF inv] by simp
    obtain rn' where rn': "HandleRequestVote ops (nodes C p) req = (rn', snd (s_HandleRequestVote req (view (nodes C p))))"
      "nok rn'" "view rn' = fst (s_HandleRequestVote req (view (nodes C p)))"
      using HandleRequestVote_refines [OF ok [OF p] rv [OF r]] by blast
    show ?thesis using step r rn' ok unfolding DeliverVoteRequest
      by (auto simp: impl_ops_def spec_ops_def map_cluster_upd split: prod.splits)
  next
    case (ReceiveVote p req resp)
    with step obtain ses where r: "(p, req, resp) \<in> rvresps C" "elections C (rv_CandidateId req) (rv_Term req) = Some ses"
      "p \<in> set (ses_waiting ses)" by (auto split: if_splits option.splits)
    let ?i = "rv_CandidateId req"
    have i: "?i \<in> S" using safety_members(2) [OF inv] r(2) by simp
    obtain rn' where rn': "sendRequestVote_resp ops (nodes C ?i) (rv_Term req) (ses_votes ses) resp
        = (rn', snd (s_voteResp (rv_Term req) (ses_votes ses) resp (view (nodes C ?i))))"
      "nok rn'" "view rn' = fst (s_voteResp (rv_Term req) (ses_votes ses) resp (view (nodes C ?i)))"
      using sendRequestVote_resp_refines [OF ok [OF i] rvr [OF r(1)] node(1,3) [OF i]] by blast
    show ?thesis using step r rn' ok unfolding ReceiveVote
      by (auto simp: impl_ops_def spec_ops_def map_cluster_upd split: prod.splits)
  next
    case (FinishElection i t)
    with step obtain ses where r: "elections C i t = Some ses" by (auto split: option.splits)
    have i: "i \<in> S" using safety_members(2) [OF inv] r by simp
    show ?thesis using step r ok startElection_finish_refines [OF ok [OF i] node(1,3) [OF i], of t "ses_votes ses"] unfolding FinishElection
      by (auto simp: impl_ops_def spec_ops_def map_cluster_upd)
  next
    case (Heartbeat i)
    with step show ?thesis using ok
      by (auto simp: impl_ops_def spec_ops_def map_cluster_upd sendHeartbeats_def split: if_splits)
  next
    case (SendAppend i p t c)
    with step have b: "(i, p, t, c) \<in> beats C" by (simp split: if_splits)
    then have i: "i \<in> S" "p \<in> S" "p \<noteq> i" using safety_members(5) [OF inv] by auto
    show ?thesis
    proof (cases "nstate (nodes C i) = Leader")
      case True
      then have "1 \<le> go_get (nextIndex (nodes C i)) p" using safety_bounds(4) [OF inv i(1)] i by simp
      then obtain rn' where "sendAppendEntries_req ops (nodes C i) p t c = (rn', s_request p t c (view (nodes C i)))"
        "nok rn'" "view rn' = view (nodes C i)"
        using sendAppendEntries_req_refines [OF ok [OF i(1)]] by blast
      then show ?thesis using step b ok unfolding SendAppend
        by (auto simp: impl_ops_def spec_ops_def map_cluster_upd split: option.splits)
    next
      case False
      then have "sendAppendEntries_req ops (nodes C i) p t c = (nodes C i, None)" "s_request p t c (view (nodes C i)) = None"
        by (simp_all add: sendAppendEntries_req_def s_request_def)
      then show ?thesis using step b ok unfolding SendAppend
        by (auto simp: impl_ops_def spec_ops_def map_cluster_upd)
    qed
  next
    case (DeliverAppend p req)
    with step have r: "(p, req) \<in> aereqs C" by (simp split: if_splits)
    then have p: "p \<in> S" "ae_wf req" using safety_members(3) [OF inv] by auto
    obtain rn' where rn': "HandleAppendEntries ops (nodes C p) req = (rn', snd (s_HandleAppendEntries req (view (nodes C p))))"
      "nok rn'" "view rn' = fst (s_HandleAppendEntries req (view (nodes C p)))"
      using HandleAppendEntries_refines [OF ok [OF p(1)] p(2) ae [OF r]] by blast
    show ?thesis using step r rn' ok unfolding DeliverAppend
      by (auto simp: impl_ops_def spec_ops_def map_cluster_upd split: prod.splits)
  next
    case (ReceiveAppend p req resp)
    with step have r: "(p, req, resp) \<in> aeresps C" by (simp split: if_splits)
    then have i: "ae_LeaderId req \<in> S" using safety_members(4) [OF inv] by auto
    show ?thesis using step r ok sendAppendEntries_resp_refines [OF ok [OF i] aer [OF r]] unfolding ReceiveAppend
      by (auto simp: impl_ops_def spec_ops_def map_cluster_upd)
  next
    case (ClientPropose i cmd)
    with step have i: "i \<in> S" by (simp split: if_splits)
    show ?thesis using step i ok Propose_refines [OF ok [OF i] node(1,3) [OF i], of cmd] unfolding ClientPropose
      by (auto simp: impl_ops_def spec_ops_def map_cluster_upd)
  next
    case (ApplyCommitted i)
    with step have i: "i \<in> S" by (simp split: if_splits)
    obtain rn' where rn': "applyLoop_pass ops (nodes C i) = (rn', map apply_msg (s_applied (view (nodes C i))))"
      "nok rn'" "view rn' = s_apply (view (nodes C i))"
      using applyLoop_pass_refines [OF ok [OF i]] safety_bounds(1,2) [OF inv i] by auto
    show ?thesis using step i rn' ok unfolding ApplyCommitted
      by (auto simp: impl_ops_def spec_ops_def map_cluster_upd)
  next
    case (Restart i)
    with step have i: "i \<in> S" by (simp split: if_splits)
    obtain rn' where rn': "NewRaftNode ops (restart_config (nodes C i)) = Inr rn'" "nok rn'" "view rn' = s_restart (view (nodes C i))"
      using NewRaftNode_restart [OF ok [OF i], of "restart_config (nodes C i)"] safety_bounds(3) [OF inv i]
      by (auto simp: restart_config_def)
    show ?thesis using step i rn' ok unfolding Restart
      by (auto simp: impl_ops_def spec_ops_def map_cluster_upd)
  qed
qed

text \<open>The implementation can take every step of the specification.\<close>

lemma simulation_enabled:
  assumes ok: "\<And>i. i \<in> S \<Longrightarrow> nok (nodes C i)" and inv: "safety_inv S (map_cluster view C) H"
    and step: "exec spec_ops S ev (map_cluster view C) = Some D"
  shows "\<exists>C'. exec (impl_ops ops) S ev C = Some C'"
proof (cases ev)
  case (Restart i)
  with step have i: "i \<in> S" by (simp split: if_splits)
  obtain rn' where "NewRaftNode ops (restart_config (nodes C i)) = Inr rn'"
    using NewRaftNode_restart [OF ok [OF i], of "restart_config (nodes C i)"] safety_bounds(3) [OF inv i]
    by (auto simp: restart_config_def)
  with i Restart show ?thesis by (simp add: impl_ops_def)
next
  case (Heartbeat i)
  with step show ?thesis by (auto simp: impl_ops_def spec_ops_def sendHeartbeats_def split: if_splits)
qed (use step in \<open>auto simp: impl_ops_def spec_ops_def split: if_splits option.splits prod.splits\<close>)

theorem simulation_run:
  assumes "\<And>i. i \<in> S \<Longrightarrow> nok (nodes C i)" "safety_inv S (map_cluster view C) H"
    "cluster_bound S B (map_cluster view C)" "\<And>x. bounded (B + int (length evs)) x \<Longrightarrow> rng x" "\<And>i. i \<in> S \<Longrightarrow> id_ok i"
    "run (impl_ops ops) S evs C = Some C'"
  shows "run spec_ops S evs (map_cluster view C) = Some (map_cluster view C')
    \<and> (\<forall>i\<in>S. nok (nodes C' i)) \<and> (\<exists>H'. safety_inv S (map_cluster view C') H')"
  using assms
proof (induction evs arbitrary: B C H)
  case (Cons ev evs)
  then obtain D where D: "exec (impl_ops ops) S ev C = Some D" "run (impl_ops ops) S evs D = Some C'"
    by (auto split: option.splits)
  have fit: "rng x" if "bounded (B + 1) x" for x using Cons.prems(4) [OF bounded_mono [OF that]] by simp
  from simulation_step [OF Cons.prems(1,2,3) fit Cons.prems(5) D(1)]
  have s: "exec spec_ops S ev (map_cluster view C) = Some (map_cluster view D)"
    "\<forall>i\<in>S. nok (nodes D i)" by auto
  from safety_step [OF Cons.prems(2) s(1)] obtain H' where H': "safety_inv S (map_cluster view D) H'" by blast
  have b: "cluster_bound S (B + 1) (map_cluster view D)" by (rule cluster_bound_step [OF Cons.prems(2,3) s(1)])
  have fit': "rng x" if "bounded (B + 1 + int (length evs)) x" for x
    using Cons.prems(4) [of x] that by (simp add: algebra_simps)
  from Cons.IH [OF _ H' b fit' Cons.prems(5) D(2)] s show ?case by simp
qed auto

theorem simulation_run_complete:
  assumes "\<And>i. i \<in> S \<Longrightarrow> nok (nodes C i)" "safety_inv S (map_cluster view C) H"
    "cluster_bound S B (map_cluster view C)" "\<And>x. bounded (B + int (length evs)) x \<Longrightarrow> rng x" "\<And>i. i \<in> S \<Longrightarrow> id_ok i"
    "run spec_ops S evs (map_cluster view C) = Some D"
  shows "\<exists>C'. run (impl_ops ops) S evs C = Some C'"
  using assms
proof (induction evs arbitrary: B C H)
  case (Cons ev evs)
  then obtain E where E: "exec spec_ops S ev (map_cluster view C) = Some E" "run spec_ops S evs E = Some D"
    by (auto split: option.splits)
  from simulation_enabled [OF Cons.prems(1,2) E(1)] obtain C' where C': "exec (impl_ops ops) S ev C = Some C'" by blast
  have fit: "rng x" if "bounded (B + 1) x" for x using Cons.prems(4) [OF bounded_mono [OF that]] by simp
  from simulation_step [OF Cons.prems(1,2,3) fit Cons.prems(5) C'] E(1)
  have s: "map_cluster view C' = E" "\<forall>i\<in>S. nok (nodes C' i)" by auto
  from safety_step [OF Cons.prems(2) E(1)] obtain H' where H': "safety_inv S (map_cluster view C') H'" unfolding s(1) by blast
  have b: "cluster_bound S (B + 1) (map_cluster view C')" unfolding s(1) by (rule cluster_bound_step [OF Cons.prems(2,3) E(1)])
  have fit': "rng x" if "bounded (B + 1 + int (length evs)) x" for x
    using Cons.prems(4) [of x] that by (simp add: algebra_simps)
  from Cons.IH [OF _ H' b fit' Cons.prems(5)] s E(2) C' show ?case by auto
qed simp

end

section \<open>Clusters as they are started\<close>

text \<open>
  Every member is built by \<^verbatim>\<open>NewRaftNode\<close> from a configuration that names it, lists the other
  members as peers and has a storage that \<open>fresh\<close> describes.
\<close>

definition started_cluster ::
    "'s storage_ops \<Rightarrow> ('s \<Rightarrow> bool) \<Rightarrow> node_id set \<Rightarrow> (node_id \<Rightarrow> 's RaftConfig) \<Rightarrow> 's RaftNode cluster \<Rightarrow> bool" where
  "started_cluster ops fresh S cfgs C \<longleftrightarrow> finite S \<and> C = idle_cluster (nodes C)
     \<and> (\<forall>i\<in>S. cfg_ID (cfgs i) = i \<and> distinct (cfg_Peers (cfgs i)) \<and> set (cfg_Peers (cfgs i)) = S - {i}
          \<and> (\<exists>s. cfg_Storage (cfgs i) = Some s \<and> fresh s) \<and> NewRaftNode ops (cfgs i) = Inr (nodes C i))"

text \<open>What the specification sees of a new node.\<close>

definition start_view :: "'s RaftConfig \<Rightarrow> spec_node" where
  "start_view cfg = \<lparr>n_id = cfg_ID cfg, n_peers = cfg_Peers cfg, n_addrs = cfg_PeerAddrs cfg, n_term = 0, n_vote = [],
     n_role = Follower, n_leader = [], n_log = Map.empty, n_last = 0, n_commit = 0, n_applied = 0,
     n_next = Map.empty, n_match = Map.empty\<rparr>"

context storage
begin

text \<open>A storage without a log, a saved term and a snapshot; it may hold key-value data.\<close>

abbreviation blank :: "'s \<Rightarrow> bool" where
  "blank s \<equiv> inv s \<and> a_log (abs s) = Map.empty \<and> a_state (abs s) = \<lparr>ps_CurrentTerm = 0, ps_VotedFor = []\<rparr>
     \<and> a_snap (abs s) = None \<and> can_append s 1"

lemma NewRaftNode_blank:
  assumes "NewRaftNode ops cfg = Inr rn" "cfg_Storage cfg = Some s" "blank s"
  shows "nok rn" "view rn = start_view cfg" "cfg_ID cfg \<noteq> []"
proof -
  have im: "interval_map 1 0 (lview s)" using assms(3) by (simp add: interval_map_def)
  have nl: "log_inv s (NewLog ops s) \<and> lastIndex (NewLog ops s) = 0"
    by (rule NewLog_spec) (use assms(3) im in auto)
  then have same: "log_inv s ((NewLog ops s)\<lparr>lastIndex := 0\<rparr>)" by (auto simp: log_ok_def)
  have ld: "op_LoadRaftState ops s = Inr (Some \<lparr>ps_CurrentTerm = 0, ps_VotedFor = []\<rparr>)" "op_GetLastLogIndexAndTerm ops s = Inr (0, 0)"
    using load_state [of s] get_last_empty [of s] assms(3) by auto
  show "nok rn" "view rn = start_view cfg" "cfg_ID cfg \<noteq> []"
    using assms(1,2) nl ld im assms(3) same
    by (auto simp: NewRaftNode_def restoreState_def Let_def node_ok_def node_log_ok_def node_view_def start_view_def
        split: if_splits option.splits)
qed

lemma NewRaftNode_blank_ok:
  assumes "cfg_Storage cfg = Some s" "blank s" "cfg_ID cfg \<noteq> []" "cfg_Transport cfg \<noteq> None"
  shows "\<exists>rn. NewRaftNode ops cfg = Inr rn"
  using assms load_state [of s] get_last_empty [of s] by (auto simp: NewRaftNode_def restoreState_def Let_def)

lemma started_nodes:
  assumes "started_cluster ops blank S cfgs C0" "i \<in> S"
  shows "nok (nodes C0 i)" "view (nodes C0 i) = start_view (cfgs i)" "cfg_ID (cfgs i) = i" "i \<noteq> []"
proof -
  from assms obtain s where c: "NewRaftNode ops (cfgs i) = Inr (nodes C0 i)" "cfg_Storage (cfgs i) = Some s" "blank s" "cfg_ID (cfgs i) = i"
    unfolding started_cluster_def by blast
  from NewRaftNode_blank [OF c(1-3)] c(4) show "nok (nodes C0 i)" "view (nodes C0 i) = start_view (cfgs i)"
    "cfg_ID (cfgs i) = i" "i \<noteq> []" by auto
qed

lemma started_inv:
  assumes "started_cluster ops blank S cfgs C0"
  shows "safety_inv S (map_cluster view C0) (\<lambda>_. Map.empty)" "cluster_bound S 0 (map_cluster view C0)"
proof -
  note n = started_nodes [OF assms]
  have idle: "map_cluster view C0 = idle_cluster (view \<circ> nodes C0)"
    using assms unfolding started_cluster_def idle_cluster_def
    by (metis (no_types, lifting) cluster.select_convs map_cluster_def)
  show "safety_inv S (map_cluster view C0) (\<lambda>_. Map.empty)" unfolding idle
    by (intro safety_init) (use assms n n(4) [of "[]"] in \<open>auto simp: started_cluster_def start_view_def fresh_node_def\<close>)
  show "cluster_bound S 0 (map_cluster view C0)" unfolding idle
    using n(2,3) by (auto simp: cluster_bound_def node_bound_def start_view_def bounded_def idle_cluster_def)
qed

theorem reachable:
  assumes start: "started_cluster ops blank S cfgs C0" and r: "run (impl_ops ops) S evs C0 = Some C"
    and fit: "\<And>x. bounded (int (length evs)) x \<Longrightarrow> rng x" and ids: "\<And>i. i \<in> S \<Longrightarrow> id_ok i"
  shows "\<forall>i\<in>S. nok (nodes C i)" "\<exists>H. safety_inv S (map_cluster view C) H"
    "run spec_ops S evs (map_cluster view C0) = Some (map_cluster view C)"
proof -
  have fit0: "rng x" if "bounded (0 + int (length evs)) x" for x using fit that by simp
  from simulation_run [OF started_nodes(1) [OF start] started_inv [OF start] fit0 ids r]
  show "\<forall>i\<in>S. nok (nodes C i)" "\<exists>H. safety_inv S (map_cluster view C) H"
    "run spec_ops S evs (map_cluster view C0) = Some (map_cluster view C)" by auto
qed

theorem runs_of_specification:
  assumes start: "started_cluster ops blank S cfgs C0" and r: "run spec_ops S evs (map_cluster view C0) = Some D"
    and fit: "\<And>x. bounded (int (length evs)) x \<Longrightarrow> rng x" and ids: "\<And>i. i \<in> S \<Longrightarrow> id_ok i"
  shows "\<exists>C. run (impl_ops ops) S evs C0 = Some C \<and> map_cluster view C = D"
proof -
  have fit0: "rng x" if "bounded (0 + int (length evs)) x" for x using fit that by simp
  obtain C where C: "run (impl_ops ops) S evs C0 = Some C"
    using simulation_run_complete [OF started_nodes(1) [OF start] started_inv [OF start] fit0 ids r] by blast
  with reachable(3) [OF start C fit ids] r show ?thesis by simp
qed

end

section \<open>Clusters on the in-memory storage\<close>

text \<open>
  A cluster as it is started: every member is built by \<^verbatim>\<open>NewRaftNode\<close> from a configuration
  that names it, lists the other members as peers and has an empty storage.
\<close>

definition member_config :: "node_id set \<Rightarrow> node_id \<Rightarrow> MemoryStorage RaftConfig \<Rightarrow> bool" where
  "member_config S i cfg \<longleftrightarrow> cfg_ID cfg = i \<and> distinct (cfg_Peers cfg) \<and> set (cfg_Peers cfg) = S - {i}
     \<and> cfg_Storage cfg = Some NewMemoryStorage"

definition fresh_cluster ::
    "node_id set \<Rightarrow> (node_id \<Rightarrow> MemoryStorage RaftConfig) \<Rightarrow> MemoryStorage RaftNode cluster \<Rightarrow> bool" where
  "fresh_cluster S cfgs C \<longleftrightarrow> finite S \<and> C = idle_cluster (nodes C)
     \<and> (\<forall>i\<in>S. member_config S i (cfgs i) \<and> NewRaftNode mem_ops (cfgs i) = Inr (nodes C i))"

abbreviation mem_view :: "MemoryStorage RaftNode \<Rightarrow> spec_node" where
  "mem_view \<equiv> node_view mem_abs"

abbreviation mem_nok :: "MemoryStorage RaftNode \<Rightarrow> bool" where
  "mem_nok \<equiv> node_ok mem_inv mem_abs mem_can_append"

abbreviation mem_run :: "node_id set \<Rightarrow> event list \<Rightarrow> MemoryStorage RaftNode cluster \<Rightarrow> MemoryStorage RaftNode cluster option" where
  "mem_run \<equiv> run (impl_ops mem_ops)"

lemma mem_blank: "mem.blank NewMemoryStorage"
  by (auto simp: NewMemoryStorage_def mem_inv_def mem_can_append_def mem_abs_def zero_state_def)

lemma fresh_started: "fresh_cluster S cfgs C \<Longrightarrow> started_cluster mem_ops mem.blank S cfgs C"
  using mem_blank by (auto simp: fresh_cluster_def started_cluster_def member_config_def)

lemma mem_reachable:
  assumes "fresh_cluster S cfgs C0" "mem_run S evs C0 = Some C"
  shows "\<forall>i\<in>S. mem_nok (nodes C i)" "\<exists>H. safety_inv S (map_cluster mem_view C) H"
    "run spec_ops S evs (map_cluster mem_view C0) = Some (map_cluster mem_view C)"
  using mem.reachable [OF fresh_started [OF assms(1)] assms(2)] by auto

end
