(* ===== verification/Raft_Demo.thy ===== *)
theory Raft_Demo
  imports Raft_Simulation
begin

text \<open>
  A concrete run of the implementation, evaluated by the kernel: three nodes, one of which is
  elected, replicates and commits a command and the no-op before it; two nodes apply both. It serves
  as the instance at which the theorems about reachable clusters are applied.
\<close>

definition demo_S :: "node_id set" where
  "demo_S = {''a'', ''b'', ''c''}"

definition demo_cfg :: "node_id \<Rightarrow> MemoryStorage RaftConfig" where
  "demo_cfg i = DefaultRaftConfig i (remove1 i [''a'', ''b'', ''c''])
     [''a'' \<mapsto> ''ha'', ''b'' \<mapsto> ''hb'', ''c'' \<mapsto> ''hc''] (Some NewMemoryStorage) (Some ())"

definition demo_start :: "MemoryStorage RaftNode cluster" where
  "demo_start = idle_cluster (\<lambda>i. case NewRaftNode mem_ops (demo_cfg (if i = [] then ''x'' else i)) of Inr rn \<Rightarrow> rn)"

definition demo_cmd :: bytes where
  "demo_cmd = Command_Encode \<lparr>cmd_Type = CommandPut, cmd_Key = ''k'', cmd_Value = ''v'', cmd_RequestID = 1\<rparr>"

definition demo_rv :: RequestVoteRequest where
  "demo_rv = \<lparr>rv_Term = 1, rv_CandidateId = ''a'', rv_LastLogIndex = 0, rv_LastLogTerm = 0\<rparr>"

definition demo_ae :: AppendEntriesRequest where
  "demo_ae = \<lparr>ae_Term = 1, ae_LeaderId = ''a'', ae_PrevLogIndex = 0, ae_PrevLogTerm = 0,
     ae_Entries = [\<lparr>pb_Term = 1, pb_Index = 1, pb_Command = []\<rparr>, \<lparr>pb_Term = 1, pb_Index = 2, pb_Command = demo_cmd\<rparr>],
     ae_LeaderCommit = 0\<rparr>"

definition demo_ae2 :: AppendEntriesRequest where
  "demo_ae2 = \<lparr>ae_Term = 1, ae_LeaderId = ''a'', ae_PrevLogIndex = 2, ae_PrevLogTerm = 1,
     ae_Entries = [], ae_LeaderCommit = 2\<rparr>"

definition demo_events :: "event list" where
  "demo_events = [ElectionTimeout ''a'', DeliverVoteRequest ''b'' demo_rv,
     ReceiveVote ''b'' demo_rv \<lparr>rvr_Term = 1, rvr_VoteGranted = True\<rparr>,
     ClientPropose ''a'' demo_cmd, Heartbeat ''a'', SendAppend ''a'' ''b'' 1 0, DeliverAppend ''b'' demo_ae,
     ReceiveAppend ''b'' demo_ae \<lparr>aer_Term = 1, aer_Success = True, aer_MatchIndex = 2,
       aer_ConflictIndex = 0, aer_ConflictTerm = 0\<rparr>,
     ApplyCommitted ''a'', Heartbeat ''a'', SendAppend ''a'' ''b'' 1 2, DeliverAppend ''b'' demo_ae2,
     ApplyCommitted ''b'']"

definition demo_final :: "MemoryStorage RaftNode cluster" where
  "demo_final = (case mem_run demo_S demo_events demo_start of Some C \<Rightarrow> C)"

definition demo_msg :: ApplyMsg where
  "demo_msg = apply_msg \<lparr>le_Term = 1, le_Index = 2, le_Command = demo_cmd\<rparr>"

text \<open>The definitions a step unfolds; the encoding of the command plays no role.\<close>

lemmas demo_defs = set_node_def set_session_def impl_ops_def idle_cluster_def
  demo_start_def demo_cfg_def DefaultRaftConfig_def NewRaftNode_def restoreState_def NewLog_def mem_ops_def storage_defs
  NewMemoryStorage_def zero_state_def startElection_begin_def Log_LastIndex_def Log_LastTerm_def persistState_def
  resetElectionTimer_def vote_requests_def sendRequestVote_req_def GetPeerAddr_def go_get_str_def demo_rv_def
  HandleRequestVote_def stepDown_def signalStepDown_def isLogUpToDate_def sendRequestVote_resp_def quorumSize_def
  becomeLeader_def Log_NextIndex_def Log_Append_def append_entry_def cacheEntry_def triggerReplication_def
  Propose_def sendHeartbeats_def sendAppendEntries_req_def go_get_def Log_GetTerm_def Log_GetEntries_def
  convertLogEntriesToProto_def convertProtoToLogEntries_def HandleAppendEntries_def check_prev_def Log_GetEntry_def
  getEntryLocked_def Log_TruncateAfter_def sendAppendEntries_resp_def checkCommit_def replicas_def applyLoop_pass_def
  demo_ae_def demo_ae2_def demo_msg_def demo_S_def map_filter_the Let_def

lemma demo_eval: "case mem_run demo_S demo_events demo_start of None \<Rightarrow> False
    | Some C \<Rightarrow> nstate (nodes C ''a'') = Leader \<and> currentTerm (nodes C ''a'') = 1 \<and> commitIndex (nodes C ''a'') = 2
        \<and> commitIndex (nodes C ''b'') = 2 \<and> currentTerm (nodes C ''b'') = 1
        \<and> (''a'', demo_msg) \<in> delivered C \<and> (''b'', demo_msg) \<in> delivered C"
  by (simp add: demo_events_def demo_defs upt_rec upto.simps)

lemma demo_run: "mem_run demo_S demo_events demo_start = Some demo_final"
  using demo_eval by (auto simp: demo_final_def split: option.splits)

lemma demo_fresh: "fresh_cluster demo_S demo_cfg demo_start"
proof -
  have r: "\<exists>rn. NewRaftNode mem_ops (demo_cfg i) = Inr rn" if "i \<noteq> []" for i
    using that by (simp add: NewRaftNode_def demo_cfg_def DefaultRaftConfig_def restoreState_def mem_ops_def storage_defs
        NewMemoryStorage_def Let_def)
  have "NewRaftNode mem_ops (demo_cfg i) = Inr (nodes demo_start i)" if "i \<in> demo_S" for i
  proof -
    have "i \<noteq> []" using that by (auto simp: demo_S_def)
    with r [OF this] show ?thesis by (auto simp: demo_start_def idle_cluster_def)
  qed
  moreover have "member_config demo_S i (demo_cfg i)" if "i \<in> demo_S" for i
    using that by (auto simp: member_config_def demo_S_def demo_cfg_def DefaultRaftConfig_def)
  ultimately show ?thesis
    by (simp add: fresh_cluster_def demo_S_def) (simp add: demo_start_def idle_cluster_def)
qed

lemma demo_facts:
  "nstate (nodes demo_final ''a'') = Leader" "currentTerm (nodes demo_final ''a'') = 1"
  "commitIndex (nodes demo_final ''a'') = 2" "commitIndex (nodes demo_final ''b'') = 2"
  "currentTerm (nodes demo_final ''b'') = 1"
  "(''a'', demo_msg) \<in> delivered demo_final" "(''b'', demo_msg) \<in> delivered demo_final"
  using demo_eval by (simp_all add: demo_run)

end
