(* ===== verification/Raft_Theorems.thy ===== *)
theory Raft_Theorems
  imports Raft_Demo
begin

text \<open>
  The safety properties of Raft, stated of clusters whose nodes run the handlers of
  \<^verbatim>\<open>internal/raft\<close> on the in-memory storage. Every statement reads the implementation's own
  state: its fields, its messages on \<^verbatim>\<open>applyCh\<close> and what \<^verbatim>\<open>Log.GetEntry\<close> returns.
\<close>

section \<open>What the implementation reads\<close>

abbreviation GetEntry :: "MemoryStorage RaftNode \<Rightarrow> int64 \<Rightarrow> LogEntry option" where
  "GetEntry rn k \<equiv> snd (Log_GetEntry mem_ops (rn_storage rn) (rn_log rn) k)"

lemma GetEntry_view:
  assumes "mem_nok rn"
  shows "GetEntry rn k = n_log (mem_view rn) k"
  using mem.Log_GetEntry_spec [OF node_ok_log [OF assms], of k] by auto

text \<open>A reachable cluster, seen by the specification.\<close>

lemma reachable_view:
  assumes "fresh_cluster S cfgs C0" "mem_run S evs C0 = Some C"
  obtains H where "safety_inv S (map_cluster mem_view C) H" "\<And>i. i \<in> S \<Longrightarrow> mem_nok (nodes C i)"
    "\<And>i k. i \<in> S \<Longrightarrow> GetEntry (nodes C i) k = n_log (nodes (map_cluster mem_view C) i) k"
  using mem_reachable [OF assms] GetEntry_view by (metis map_cluster_sel(1))

text \<open>A leader's log holds every entry that is known to be committed in its term or an earlier one.\<close>

lemma known_leader:
  assumes inv: "safety_inv S C H" and i: "i \<in> S" "n_role (nodes C i) = Leader"
    and k: "known S C H T m c" "T \<le> n_term (nodes C i)" "1 \<le> k" "k \<le> c"
  shows "n_log (nodes C i) k = m k"
proof -
  have L: "H (n_term (nodes C i)) = n_log (nodes C i)" "n_log (nodes C i) \<noteq> Map.empty"
    using log_invD(4) [OF safety_invD(2) [OF inv] i(1)] i(2) by (auto simp: lead_ok_def)
  obtain t j where c: "committed S C H t j" "t \<le> T" "c \<le> j" "agree m (H t) c"
    using k by (auto simp: known_def)
  have "agree (n_log (nodes C i)) (H t) j"
  proof (cases "t = n_term (nodes C i)")
    case False
    with c k(2) have "t < n_term (nodes C i)" by simp
    then show ?thesis
      using leader_completeness [OF safety_invD(7,6) [OF inv] c(1)] L by metis
  qed (simp add: L)
  then show ?thesis using agreeD [OF c(4) k(4)] c(3) k(4) by (simp add: agree_def)
qed

section \<open>The theorems\<close>

text \<open>Both nodes of the run hold the committed entry.\<close>

lemma demo_entry: "\<exists>e. GetEntry (nodes demo_final ''a'') 2 = Some e \<and> GetEntry (nodes demo_final ''b'') 2 = Some e"
proof -
  obtain H where H: "safety_inv demo_S (map_cluster mem_view demo_final) H"
    "\<And>i k. i \<in> demo_S \<Longrightarrow> GetEntry (nodes demo_final i) k = n_log (nodes (map_cluster mem_view demo_final) i) k"
    using reachable_view [OF demo_fresh demo_run] by metis
  have "n_log (nodes (map_cluster mem_view demo_final) ''a'') 2 = n_log (nodes (map_cluster mem_view demo_final) ''b'') 2
      \<and> n_log (nodes (map_cluster mem_view demo_final) ''a'') 2 \<noteq> None"
    by (rule commit_safety [OF H(1)]) (simp_all add: demo_S_def demo_facts)
  then show ?thesis using H(2) [of "''a''" 2] H(2) [of "''b''" 2] by (metis demo_S_def insertCI not_None_eq)
qed

text \<open>
  C1. State machine safety: whatever the network, the timers and the crashes do, two messages that
  any two nodes ever delivered on \<^verbatim>\<open>applyCh\<close> for the same index are equal.
\<close>

theorem state_machine_safety:
  assumes "fresh_cluster S cfgs C0" "mem_run S evs C0 = Some C"
    and "(i, m) \<in> delivered C" "(j, m') \<in> delivered C" "CommandIndex m = CommandIndex m'"
  shows "m = m'"
proof -
  obtain H where "safety_inv S (map_cluster mem_view C) H" using mem_reachable(2) [OF assms(1,2)] by blast
  from delivered_agree [OF this, of i m j m'] assms(3-5) show ?thesis by simp
qed

theorem state_machine_safety_witness:
  "(''a'', demo_msg) \<in> delivered demo_final \<and> (''b'', demo_msg) \<in> delivered demo_final \<and> demo_msg = demo_msg"
  using state_machine_safety [OF demo_fresh demo_run demo_facts(6,7) refl] demo_facts(6,7) by simp

text \<open>C2. Election safety: at most one member is leader in a term.\<close>

theorem leader_unique_per_term:
  assumes "fresh_cluster S cfgs C0" "mem_run S evs C0 = Some C" "i \<in> S" "j \<in> S"
    and "IsLeader (nodes C i)" "IsLeader (nodes C j)" "currentTerm (nodes C i) = currentTerm (nodes C j)"
  shows "i = j"
proof -
  obtain H where "safety_inv S (map_cluster mem_view C) H" using mem_reachable(2) [OF assms(1,2)] by blast
  from election_safety [OF safety_invD(1) [OF this] assms(3,4)] assms(5-7) show ?thesis by (simp add: IsLeader_def)
qed

theorem leader_unique_per_term_witness:
  "IsLeader (nodes demo_final ''a'') \<and> \<not> IsLeader (nodes demo_final ''b'')"
  using leader_unique_per_term [OF demo_fresh demo_run, of "''a''" "''b''"] demo_facts
  by (auto simp: IsLeader_def demo_S_def)

text \<open>
  C3. Log matching: when two members have entries with the same index and term, their logs are
  identical up to that index.
\<close>

theorem log_matching:
  assumes "fresh_cluster S cfgs C0" "mem_run S evs C0 = Some C" "i \<in> S" "j \<in> S"
    and "GetEntry (nodes C i) k = Some e" "GetEntry (nodes C j) k = Some e'" "le_Term e = le_Term e'"
  shows "\<forall>n\<le>k. GetEntry (nodes C i) n = GetEntry (nodes C j) n"
proof -
  obtain H where H: "safety_inv S (map_cluster mem_view C) H"
    "\<And>i k. i \<in> S \<Longrightarrow> GetEntry (nodes C i) k = n_log (nodes (map_cluster mem_view C) i) k"
    using reachable_view [OF assms(1,2)] by metis
  note m = log_invD(3) [OF safety_invD(2) [OF H(1)]]
  show ?thesis using matches_agree [OF m [OF assms(3)] m [OF assms(4)]] assms(3-7) H(2) by (simp add: agree_def)
qed

text \<open>
  C4. Leader completeness: a leader's log holds every entry that any member counts as committed
  in an equal or earlier term.
\<close>

theorem leader_has_committed:
  assumes "fresh_cluster S cfgs C0" "mem_run S evs C0 = Some C" "i \<in> S" "j \<in> S"
    and "IsLeader (nodes C i)" "currentTerm (nodes C j) \<le> currentTerm (nodes C i)"
    and "1 \<le> k" "k \<le> commitIndex (nodes C j)"
  shows "GetEntry (nodes C i) k = GetEntry (nodes C j) k \<and> GetEntry (nodes C j) k \<noteq> None"
proof -
  obtain H where H: "safety_inv S (map_cluster mem_view C) H"
    "\<And>i k. i \<in> S \<Longrightarrow> GetEntry (nodes C i) k = n_log (nodes (map_cluster mem_view C) i) k"
    using reachable_view [OF assms(1,2)] by metis
  let ?C = "map_cluster mem_view C"
  have k: "known S ?C H (n_term (nodes ?C j)) (n_log (nodes ?C j)) (n_commit (nodes ?C j))"
    using safety_invD(4) [OF H(1)] assms(4) by (simp add: commit_inv_def commit_node_def)
  have "n_log (nodes ?C i) k = n_log (nodes ?C j) k"
    using known_leader [OF H(1) assms(3) _ k] assms(5-8) by (simp add: IsLeader_def)
  then show ?thesis using commit_safety [OF H(1) assms(4,4,7)] assms(3,4,8) H(2) by simp
qed

text \<open>
  C5. The commit point: two members that have both committed an index hold the same entry there,
  and hold one.
\<close>

theorem committed_entries_agree:
  assumes "fresh_cluster S cfgs C0" "mem_run S evs C0 = Some C" "i \<in> S" "j \<in> S"
    and "1 \<le> k" "k \<le> commitIndex (nodes C i)" "k \<le> commitIndex (nodes C j)"
  shows "GetEntry (nodes C i) k = GetEntry (nodes C j) k \<and> GetEntry (nodes C i) k \<noteq> None"
proof -
  obtain H where H: "safety_inv S (map_cluster mem_view C) H"
    "\<And>i k. i \<in> S \<Longrightarrow> GetEntry (nodes C i) k = n_log (nodes (map_cluster mem_view C) i) k"
    using reachable_view [OF assms(1,2)] by metis
  have "n_log (nodes (map_cluster mem_view C) i) k = n_log (nodes (map_cluster mem_view C) j) k
      \<and> n_log (nodes (map_cluster mem_view C) i) k \<noteq> None"
    by (rule commit_safety [OF H(1) assms(3-5)]) (simp_all add: assms(6,7))
  then show ?thesis using H(2) assms(3,4) by metis
qed

theorem committed_entries_agree_witness:
  "GetEntry (nodes demo_final ''a'') 2 = GetEntry (nodes demo_final ''b'') 2
    \<and> GetEntry (nodes demo_final ''a'') 2 \<noteq> None"
  by (rule committed_entries_agree [OF demo_fresh demo_run]) (simp_all add: demo_S_def demo_facts)

theorem leader_has_committed_witness:
  "GetEntry (nodes demo_final ''a'') 1 = GetEntry (nodes demo_final ''b'') 1
    \<and> GetEntry (nodes demo_final ''b'') 1 \<noteq> None"
  by (rule leader_has_committed [OF demo_fresh demo_run]) (simp_all add: demo_S_def demo_facts IsLeader_def)

theorem log_matching_witness:
  "\<exists>e. GetEntry (nodes demo_final ''a'') 2 = Some e \<and> GetEntry (nodes demo_final ''b'') 2 = Some e
    \<and> GetEntry (nodes demo_final ''a'') 1 = GetEntry (nodes demo_final ''b'') 1"
proof -
  obtain e where e: "GetEntry (nodes demo_final ''a'') 2 = Some e" "GetEntry (nodes demo_final ''b'') 2 = Some e"
    using demo_entry by blast
  with log_matching [OF demo_fresh demo_run _ _ e] show ?thesis by (auto simp: demo_S_def)
qed



text \<open>
  C7. Refinement: every run of the implementation is, step by step, a run of the specification on
  the views of the nodes, with the same messages in flight and the same messages delivered.
\<close>

theorem implementation_refines_specification:
  assumes "fresh_cluster S cfgs C0" "mem_run S evs C0 = Some C"
  shows "run spec_ops S evs (map_cluster mem_view C0) = Some (map_cluster mem_view C)"
  using mem_reachable(3) [OF assms] .

theorem implementation_refines_specification_witness:
  "run spec_ops demo_S demo_events (map_cluster mem_view demo_start) = Some (map_cluster mem_view demo_final)"
  by (rule implementation_refines_specification [OF demo_fresh demo_run])

text \<open>
  C8. Durability: in every reachable state the storage of a member holds its current term and vote,
  so a vote that was given survives a crash at any moment; and the log manager's cache is coherent
  with the stored log.
\<close>

theorem term_and_vote_persisted:
  assumes "fresh_cluster S cfgs C0" "mem_run S evs C0 = Some C" "i \<in> S"
  shows "op_LoadRaftState mem_ops (rn_storage (nodes C i))
      = Inr (Some \<lparr>ps_CurrentTerm = currentTerm (nodes C i), ps_VotedFor = votedFor (nodes C i)\<rparr>)
    \<and> log_ok mem_inv mem_abs mem_can_append (rn_storage (nodes C i)) (rn_log (nodes C i))"
proof -
  have n: "mem_nok (nodes C i)" using mem_reachable(1) [OF assms(1,2)] assms(3) by blast
  then have "mem_inv (rn_storage (nodes C i))" by (simp add: node_ok_def node_log_ok_def log_ok_def)
  from mem_state.load_state [OF this] n show ?thesis by (simp add: node_ok_def node_log_ok_def)
qed

theorem term_and_vote_persisted_witness:
  "op_LoadRaftState mem_ops (rn_storage (nodes demo_final ''b''))
      = Inr (Some \<lparr>ps_CurrentTerm = 1, ps_VotedFor = votedFor (nodes demo_final ''b'')\<rparr>)"
  using term_and_vote_persisted [OF demo_fresh demo_run, of "''b''"] demo_facts by (simp add: demo_S_def)

end
