(* ===== verification/KV_Theorems.thy ===== *)
theory KV_Theorems
  imports KV_System Codec_Roundtrip Raft_Theorems
begin

text \<open>
  The properties of the replicated key-value store: what the cluster's safety gives its state
  machines, what a client may conclude from an answer, and where the code falls short of its
  comments.
\<close>

section \<open>Replicas\<close>






lemma mem_inv_New: "mem_inv NewMemoryStorage"
  by (simp add: mem_inv_def NewMemoryStorage_def)

lemma mem_applyLoop:
  assumes "mem_inv s" "kv_applyLoop mem_ops (kv, s) msgs = (kv', s')"
  shows "mem_inv s'" "data s' = fold kv_effect msgs (data s)"
proof -
  have *: "mem_inv s'" "mem_abs s' = (mem_abs s)\<lparr>a_kv := fold kv_effect msgs (a_kv (mem_abs s))\<rparr>"
    using mem_kv.kv_applyLoop_spec [OF assms(1), of kv msgs] assms(2) by auto
  show "mem_inv s'" by fact
  show "data s' = fold kv_effect msgs (data s)" using arg_cong [OF *(2), of a_kv] by simp
qed




text \<open>
  C19. Recovery: Raft applies its log from index 1 again after a restart, to a key-value store that
  has kept its content. Replaying the messages that were applied before the crash, and then any
  more, gives the state of a store that applied them all once.
\<close>

theorem recovery_replay:
  assumes "mem_inv s"
  shows "data (snd (kv_applyLoop mem_ops (kv', snd (kv_applyLoop mem_ops (kv, s) msgs)) (msgs @ rest)))
    = data (snd (kv_applyLoop mem_ops (kv, s) (msgs @ rest)))"
proof -
  note l = mem_applyLoop [OF _ prod.collapse [symmetric]]
  show ?thesis unfolding l(2) [OF l(1) [OF assms]] l(2) [OF assms] by (rule replay_prefix)
qed

definition put_msg :: "int64 \<Rightarrow> Command \<Rightarrow> ApplyMsg" where
  "put_msg i cmd = \<lparr>CommandValid = True, am_Command = Some cmd, CommandIndex = i, CommandTerm = 1,
     SnapshotValid = False, am_Snapshot = [], SnapshotTerm = 0, SnapshotIndex = 0\<rparr>"

definition idle_server :: KVServer where
  "idle_server = \<lparr>pendingOps = Map.empty, chans = Map.empty, nextChan = 0, nextRequestID = 0,
     kv_stopCh = False, kv_applyLoops = 1, operationTimeout = DefaultOperationTimeout\<rparr>"

theorem recovery_replay_witness:
  "data (snd (kv_applyLoop mem_ops (idle_server,
       snd (kv_applyLoop mem_ops (idle_server, NewMemoryStorage) [put_msg 1 (put_command ''k'' ''v'')]))
       [put_msg 1 (put_command ''k'' ''v''), put_msg 2 (delete_command ''k'')]))
    = data (snd (kv_applyLoop mem_ops (idle_server, NewMemoryStorage)
       [put_msg 1 (put_command ''k'' ''v''), put_msg 2 (delete_command ''k'')]))"
  using recovery_replay [OF mem_inv_New, of idle_server idle_server "[put_msg 1 (put_command ''k'' ''v'')]"
      "[put_msg 2 (delete_command ''k'')]"] by (simp only: append.simps)

section \<open>Clients\<close>

text \<open>
  C18. No false acknowledgement: whatever the interleaving of the client goroutines, the two apply
  loops, the RPC handlers and the shutdown, a \<^verbatim>\<open>Put\<close> or \<^verbatim>\<open>Delete\<close> that returned nil
  returned after this server had handled a committed command with its request ID.
\<close>

theorem acknowledged_was_handled:
  assumes "fresh_system cfg sys0" "kv_run ops evs sys0 = Some sys"
    and "sys_clients sys c = Some (Returned cmd None)"
  shows "\<exists>msg\<in>set (sys_handled sys). CommandValid msg \<and>
    (\<exists>cmd'. am_Command msg = Some cmd' \<and> cmd_RequestID cmd' = cmd_RequestID cmd)"
proof -
  have "clients_inv sys" using clients_inv_run [OF fresh_clients_inv [OF assms(1)] assms(2)] .
  from clients_invD [OF this assms(3)] show ?thesis by (auto simp: has_done_def done_msg_def)
qed

text \<open>
  C17. The store is the replay of the log: at every moment the key-value content of the storage is
  the effect, in order, of the messages the server has handled, although the Raft node writes its
  term, vote and log to the same storage object in between.
\<close>

theorem storage_is_replay:
  assumes "fresh_system cfg sys0" "\<not> closed (rn_storage (sys_node sys0))" "kv_run mem_ops evs sys0 = Some sys"
  shows "data (rn_storage (sys_node sys)) = fold kv_effect (sys_handled sys) (data (rn_storage (sys_node sys0)))"
proof -
  have "content_inv (\<lambda>m. \<not> closed m) data (data (rn_storage (sys_node sys0))) sys0"
    using assms(1,2) by (auto simp: content_inv_def fresh_system_def)
  from mem_shared.content_run [OF this assms(3)] show ?thesis by (simp add: content_inv_def)
qed

section \<open>A run with a collision of request IDs\<close>

text \<open>
  Node \<open>b\<close> has an entry of a former leader \<open>a\<close> in its log, a \<^verbatim>\<open>Put\<close> of key \<open>k\<close> whose request
  ID is 1, and becomes leader. A client's \<^verbatim>\<open>Put\<close> of key \<open>x\<close> is the first operation of
  \<open>b\<close>'s own server, so it has request ID 1, too. When the old entry is applied, the client is told
  that its operation succeeded.
\<close>

definition old_put :: Command where
  "old_put = \<lparr>cmd_Type = CommandPut, cmd_Key = ''k'', cmd_Value = ''v'', cmd_RequestID = 1\<rparr>"

definition coll_cfg :: "MemoryStorage RaftConfig" where
  "coll_cfg = DefaultRaftConfig ''b'' [''a'', ''c''] [''a'' \<mapsto> ''ha'', ''b'' \<mapsto> ''hb'', ''c'' \<mapsto> ''hc'']
     (Some NewMemoryStorage) (Some ())"

definition coll_node :: "MemoryStorage RaftNode" where
  "coll_node = (case NewRaftNode mem_ops coll_cfg of Inr rn \<Rightarrow> rn)"

definition coll_kv_cfg :: "MemoryStorage KVServerConfig" where
  "coll_kv_cfg = \<lparr>kvc_Raft = Some coll_node, kvc_Storage = Some NewMemoryStorage, kvc_OperationTimeout = 0\<rparr>"

definition coll_start :: "MemoryStorage kv_system" where
  "coll_start = \<lparr>sys_kv = idle_server, sys_node = coll_node, sys_inbox = [], sys_handled = [], sys_clients = Map.empty\<rparr>"

definition coll_events :: "kv_event list" where
  "coll_events =
     [NodeAppend \<lparr>ae_Term = 1, ae_LeaderId = ''a'', ae_PrevLogIndex = 0, ae_PrevLogTerm = 0,
        ae_Entries = [\<lparr>pb_Term = 1, pb_Index = 1, pb_Command = Command_Encode old_put\<rparr>], ae_LeaderCommit = 0\<rparr>,
      NodeTimeout, NodeVoteResponse 2 1 \<lparr>rvr_Term = 2, rvr_VoteGranted = True\<rparr>,
      CallPut 0 ''x'' ''y'', Submit 0,
      NodeAppendResponse ''c'' 2 1 1 \<lparr>aer_Term = 2, aer_Success = True, aer_MatchIndex = 2,
        aer_ConflictIndex = 0, aer_ConflictTerm = 0\<rparr>,
      NodeApply, HandleNext, Await 0 ResultReady]"

lemma coll_fresh: "fresh_system coll_kv_cfg coll_start"
  by (simp add: fresh_system_def NewKVServer_def coll_kv_cfg_def coll_start_def idle_server_def KVServer_Start_def Let_def)

lemma command_of_old_put: "command_of \<lparr>le_Term = t, le_Index = i, le_Command = Command_Encode old_put\<rparr> = Some old_put"
  using decode_encode [of old_put] by (simp add: command_of_def old_put_def command_consts code_def)

lemma old_put_sel: "cmd_Type old_put = CommandPut" "cmd_RequestID old_put = 1" "cmd_Key old_put = ''k''" "cmd_Value old_put = ''v''"
  by (simp_all add: old_put_def)

lemma coll_eval: "case kv_run mem_ops coll_events coll_start of None \<Rightarrow> False
    | Some sys \<Rightarrow> sys_clients sys 0 = Some (Returned ((put_command ''x'' ''y'')\<lparr>cmd_RequestID := 1\<rparr>) None)
        \<and> sys_handled sys = [put_msg 1 old_put]"
  by (simp add: coll_events_def coll_start_def coll_node_def coll_cfg_def idle_server_def set_raft_def start_client_def
      put_command_def propose_register_def propose_submit_def propose_wait_def handleApplyMsg_def applyCommand_def
      notify_def try_send_def result_of_def demo_defs startElection_begin_def apply_msg_def command_of_old_put
      old_put_sel put_msg_def upt_rec upto.simps)

lemma coll_final:
  obtains sys where "kv_run mem_ops coll_events coll_start = Some sys"
    "sys_clients sys 0 = Some (Returned ((put_command ''x'' ''y'')\<lparr>cmd_RequestID := 1\<rparr>) None)"
    "sys_handled sys = [put_msg 1 old_put]" "data (rn_storage (sys_node sys)) = [''k'' \<mapsto> ''v'']"
proof -
  obtain sys where s: "kv_run mem_ops coll_events coll_start = Some sys"
    "sys_clients sys 0 = Some (Returned ((put_command ''x'' ''y'')\<lparr>cmd_RequestID := 1\<rparr>) None)"
    "sys_handled sys = [put_msg 1 old_put]"
    using coll_eval by (auto split: option.splits)
  have "rn_storage coll_node = NewMemoryStorage"
    by (simp add: coll_node_def coll_cfg_def demo_defs)
  then have "content_inv (\<lambda>m. \<not> closed m) data Map.empty coll_start"
    by (simp add: content_inv_def coll_start_def NewMemoryStorage_def)
  from mem_shared.content_run [OF this s(1)] s(3) have "data (rn_storage (sys_node sys)) = [''k'' \<mapsto> ''v'']"
    by (simp add: content_inv_def kv_effect_def put_msg_def old_put_sel)
  with s that show ?thesis by blast
qed

theorem acknowledged_was_handled_witness:
  "\<exists>sys. kv_run mem_ops coll_events coll_start = Some sys \<and> (\<exists>msg\<in>set (sys_handled sys). CommandValid msg \<and>
    (\<exists>cmd'. am_Command msg = Some cmd' \<and> cmd_RequestID cmd' = 1))"
proof -
  obtain sys where s: "kv_run mem_ops coll_events coll_start = Some sys"
    "sys_clients sys 0 = Some (Returned ((put_command ''x'' ''y'')\<lparr>cmd_RequestID := 1\<rparr>) None)" by (rule coll_final)
  from acknowledged_was_handled [OF coll_fresh s] s(1) show ?thesis by simp
qed

theorem storage_is_replay_witness:
  "\<exists>sys. kv_run mem_ops coll_events coll_start = Some sys
     \<and> data (rn_storage (sys_node sys)) = fold kv_effect (sys_handled sys) (data (rn_storage (sys_node coll_start)))"
proof -
  obtain sys where s: "kv_run mem_ops coll_events coll_start = Some sys" by (rule coll_final)
  have "\<not> closed (rn_storage (sys_node coll_start))"
    by (simp add: coll_start_def coll_node_def coll_cfg_def demo_defs)
  from storage_is_replay [OF coll_fresh this s] s show ?thesis by simp
qed

text \<open>
  C22. Request IDs are counters of one process and are not unique in the cluster: there is a run in
  which a \<^verbatim>\<open>Put\<close> of key \<open>x\<close> returns nil although only another node's command, with the same
  request ID, has been applied, and the store has no key \<open>x\<close>.
\<close>

theorem request_id_collision:
  "\<exists>sys. kv_run mem_ops coll_events coll_start = Some sys
     \<and> sys_clients sys 0 = Some (Returned ((put_command ''x'' ''y'')\<lparr>cmd_RequestID := 1\<rparr>) None)
     \<and> MemoryStorage_Get (rn_storage (sys_node sys)) ''x'' = Inl ErrKeyNotFound"
proof -
  obtain sys where s: "kv_run mem_ops coll_events coll_start = Some sys"
    "sys_clients sys 0 = Some (Returned ((put_command ''x'' ''y'')\<lparr>cmd_RequestID := 1\<rparr>) None)"
    "data (rn_storage (sys_node sys)) = [''k'' \<mapsto> ''v'']" by (rule coll_final)
  have "rn_storage coll_node = NewMemoryStorage" by (simp add: coll_node_def coll_cfg_def demo_defs)
  then have "content_inv (\<lambda>m. \<not> closed m) data Map.empty coll_start" by (simp add: content_inv_def coll_start_def NewMemoryStorage_def)
  from mem_shared.content_run [OF this s(1)] have "\<not> closed (rn_storage (sys_node sys))" by (simp add: content_inv_def)
  with s show ?thesis by (simp add: MemoryStorage_Get_def)
qed

section \<open>Reads\<close>

lemma get_ready_None:
  "get_ready v = None \<Longrightarrow> IsLeader (at_leader v)
     \<and> (RaftNode_CommitIndex (at_commit v) \<le> RaftNode_LastApplied (at_applied v)
        \<or> RaftNode_CommitIndex (at_commit v) \<le> RaftNode_LastApplied (at_final v))"
  by (auto simp: get_ready_def Let_def split: if_splits option.splits)

text \<open>
  C20. A linearizable \<^verbatim>\<open>Get\<close> that succeeds found the node to be leader, saw its
  \<open>lastApplied\<close> reach the commit index it had read, and returns what the storage holds: the value of
  the key, or not found.
\<close>

theorem linearizable_get:
  assumes "KVServer_Get ops v key True = Inr (val, found)"
  shows "IsLeader (at_leader v)
    \<and> (RaftNode_CommitIndex (at_commit v) \<le> RaftNode_LastApplied (at_applied v)
       \<or> RaftNode_CommitIndex (at_commit v) \<le> RaftNode_LastApplied (at_final v))
    \<and> op_Get ops (at_read v) key = (if found then Inr val else Inl ErrKeyNotFound)"
proof -
  have "get_ready v = None" using assms by (auto simp: KVServer_Get_def split: option.splits)
  with get_ready_None [OF this] assms show ?thesis
    by (auto simp: KVServer_Get_def split: sum.splits if_splits)
qed

text \<open>All reads of a \<^verbatim>\<open>Get\<close> that nothing interrupts see one state of the process.\<close>

definition quiet_view :: "MemoryStorage kv_system \<Rightarrow> MemoryStorage get_view" where
  "quiet_view sys = \<lparr>at_leader = sys_node sys, at_commit = sys_node sys, at_applied = sys_node sys, at_polls = [],
     at_final = sys_node sys, at_read = rn_storage (sys_node sys)\<rparr>"

lemma stale_eval: "case kv_run mem_ops (take 7 coll_events) coll_start of None \<Rightarrow> False
    | Some sys \<Rightarrow> nstate (sys_node sys) = Leader \<and> commitIndex (sys_node sys) = 2 \<and> lastApplied (sys_node sys) = 2
        \<and> GetEntry (sys_node sys) 1 = Some \<lparr>le_Term = 1, le_Index = 1, le_Command = Command_Encode old_put\<rparr>
        \<and> sys_handled sys = []"
  by (simp add: coll_events_def coll_start_def coll_node_def coll_cfg_def idle_server_def set_raft_def start_client_def
      put_command_def propose_register_def propose_submit_def demo_defs startElection_begin_def upt_rec upto.simps)

lemma stale_final:
  obtains sys where "kv_run mem_ops (take 7 coll_events) coll_start = Some sys"
    "IsLeader (sys_node sys)" "commitIndex (sys_node sys) = 2" "lastApplied (sys_node sys) = 2"
    "GetEntry (sys_node sys) 1 = Some \<lparr>le_Term = 1, le_Index = 1, le_Command = Command_Encode old_put\<rparr>"
    "KVServer_Get mem_ops (quiet_view sys) ''k'' True = Inr ([], False)"
proof -
  obtain sys where s: "kv_run mem_ops (take 7 coll_events) coll_start = Some sys"
    "nstate (sys_node sys) = Leader" "commitIndex (sys_node sys) = 2" "lastApplied (sys_node sys) = 2"
    "GetEntry (sys_node sys) 1 = Some \<lparr>le_Term = 1, le_Index = 1, le_Command = Command_Encode old_put\<rparr>"
    "sys_handled sys = []"
    using stale_eval by (auto split: option.splits)
  have "rn_storage coll_node = NewMemoryStorage" by (simp add: coll_node_def coll_cfg_def demo_defs)
  then have "content_inv (\<lambda>m. \<not> closed m) data Map.empty coll_start" by (simp add: content_inv_def coll_start_def NewMemoryStorage_def)
  from mem_shared.content_run [OF this s(1)] s(6) have "\<not> closed (rn_storage (sys_node sys))" "data (rn_storage (sys_node sys)) = Map.empty"
    by (simp_all add: content_inv_def)
  then have "KVServer_Get mem_ops (quiet_view sys) ''k'' True = Inr ([], False)"
    using s(2-4) by (simp add: KVServer_Get_def quiet_view_def get_ready_def IsLeader_def RaftNode_CommitIndex_def
        RaftNode_LastApplied_def mem_ops_def MemoryStorage_Get_def)
  with s that show ?thesis by (simp add: IsLeader_def)
qed

theorem linearizable_get_witness:
  "\<exists>sys. kv_run mem_ops (take 7 coll_events) coll_start = Some sys \<and> IsLeader (at_leader (quiet_view sys))
     \<and> op_Get mem_ops (at_read (quiet_view sys)) ''k'' = Inl ErrKeyNotFound"
proof -
  obtain sys where s: "kv_run mem_ops (take 7 coll_events) coll_start = Some sys"
    "KVServer_Get mem_ops (quiet_view sys) ''k'' True = Inr ([], False)" by (rule stale_final)
  from linearizable_get [OF s(2)] s(1) show ?thesis by auto
qed

text \<open>
  C21. A linearizable \<^verbatim>\<open>Get\<close> can miss a committed write, even on a leader and without any
  interference: the node's \<open>lastApplied\<close> counts the messages that were put on the channel, not those
  the server has handled. In this run the \<^verbatim>\<open>Put\<close> of \<open>k\<close> is committed and the read does not
  find \<open>k\<close>.
\<close>

theorem linearizable_get_stale:
  "\<exists>sys. kv_run mem_ops (take 7 coll_events) coll_start = Some sys
     \<and> GetEntry (sys_node sys) 1 = Some \<lparr>le_Term = 1, le_Index = 1, le_Command = Command_Encode old_put\<rparr>
     \<and> 1 \<le> commitIndex (sys_node sys)
     \<and> KVServer_Get mem_ops (quiet_view sys) ''k'' True = Inr ([], False)"
proof -
  obtain sys where "kv_run mem_ops (take 7 coll_events) coll_start = Some sys" "commitIndex (sys_node sys) = 2"
    "GetEntry (sys_node sys) 1 = Some \<lparr>le_Term = 1, le_Index = 1, le_Command = Command_Encode old_put\<rparr>"
    "KVServer_Get mem_ops (quiet_view sys) ''k'' True = Inr ([], False)" by (rule stale_final)
  then show ?thesis by auto
qed

section \<open>Shutdown\<close>







end
