(* ===== verification/Badger_Theorems.thy ===== *)
theory Badger_Theorems
  imports Badger_Storage KV_Theorems
begin

text \<open>
  Properties of the storage on BadgerDB. What the code relies on is stated as two locales over the
  database parameter: \<open>badger_db\<close> (reads, atomic updates and ordered iteration) and
  \<open>badger_healthy\<close>, in which updates do not fail. A database on association lists sorted by key is
  an instance of both. Over them the storage implements an abstract log, term, vote and key-value
  map, for indices and terms that fit \<^verbatim>\<open>int64\<close> and node IDs that are valid UTF-8.
\<close>

section \<open>Keys\<close>

lemma length_put_be [simp]: "length (put_be k n) = k"
  by (induction k) simp_all

lemma get_be_snoc: "get_be (bs @ [b]) = 256 * get_be bs + code b"
  by (simp add: get_be_def)

lemma foldl_be: "foldl (\<lambda>n b. 256 * n + code b) a bs = a * 256 ^ length bs + get_be bs"
proof (induction bs arbitrary: a)
  case (Cons b bs)
  show ?case using Cons.IH [of "256 * a + code b"] Cons.IH [of "code b"]
    by (simp add: get_be_def algebra_simps)
qed (simp add: get_be_def)

lemma get_be_Cons: "get_be (b # bs) = code b * 256 ^ length bs + get_be bs"
  using foldl_be [of "code b" bs] by (simp add: get_be_def)

lemma get_put_be: "get_be (put_be k n) = n mod 256 ^ k"
proof (induction k)
  case (Suc k)
  have "n mod (256 ^ k * 256) = 256 ^ k * (n div 256 ^ k mod 256) + n mod 256 ^ k"
    by (rule mod_mult2_eq)
  then have "n mod 256 ^ Suc k = n div 256 ^ k mod 256 * 256 ^ k + n mod 256 ^ k"
    unfolding power_Suc2 by (simp only: mult.commute)
  with Suc show ?case by (simp add: get_be_Cons)
qed (simp add: get_be_def)

lemma get_be_less: "get_be bs < 256 ^ length bs"
proof (induction bs rule: rev_induct)
  case (snoc b bs)
  then have "256 * get_be bs + 256 \<le> 256 * 256 ^ length bs" using mult_le_mono2 [of "Suc (get_be bs)" _ 256] by simp
  then show ?case using code_less [of b] unfolding get_be_snoc length_append_singleton power_Suc by linarith
qed (simp add: get_be_def)

text \<open>On strings of one length the bytewise order is the order of the big-endian numbers.\<close>

lemma bless_be: "length as = length bs \<Longrightarrow> bless as bs \<longleftrightarrow> get_be as < get_be bs"
proof (induction as bs rule: list_induct2)
  case (Cons a as b bs)
  have *: "x * 256 ^ length bs + u < y * 256 ^ length bs + v" if "x < y" "u < 256 ^ length bs" for x y u v :: nat
  proof -
    have "x * 256 ^ length bs + u < Suc x * 256 ^ length bs" using that(2) by simp
    also have "\<dots> \<le> y * 256 ^ length bs" using that(1) by (intro mult_le_mono1) simp
    finally show ?thesis by simp
  qed
  note l = get_be_less [of as] get_be_less [of bs]
  consider "code a < code b" | "code b < code a" | "a = b" using code_inject linorder_neqE_nat by blast
  then show ?case
  proof cases
    case 1
    with * [OF 1, of "get_be as" "get_be bs"] l Cons.hyps show ?thesis by (simp add: get_be_Cons)
  next
    case 2
    with * [OF 2, of "get_be bs" "get_be as"] l Cons.hyps show ?thesis by (auto simp: get_be_Cons)
  next
    case 3
    with Cons show ?thesis by (simp add: get_be_Cons)
  qed
qed (simp add: get_be_def)

lemma bless_append [simp]: "bless (p @ as) (p @ bs) = bless as bs"
  by (induction p) simp_all

abbreviation int64_range :: "int64 \<Rightarrow> bool" where
  "int64_range i \<equiv> - (2 ^ 63) \<le> i \<and> i < 2 ^ 63"

lemma to_uint64_less: "to_uint64 i < 256 ^ 8"
proof -
  have "i mod 2 ^ 64 < 2 ^ 64" by simp
  moreover have "(256::nat) ^ 8 = nat (2 ^ 64)" by simp
  ultimately show ?thesis unfolding to_uint64_def by (metis nat_less_iff nat_mono_iff zero_less_numeral zero_less_power)
qed

lemma to_int64_uint64: "int64_range i \<Longrightarrow> to_int64 (to_uint64 i) = i"
proof (cases "0 \<le> i")
  case False
  assume r: "int64_range i"
  with False have "(i + 2 ^ 64) mod 2 ^ 64 = i + 2 ^ 64" by (intro mod_pos_pos_trivial) simp_all
  then have "i mod 2 ^ 64 = i + 2 ^ 64" by (simp only: mod_add_self2)
  with False r show ?thesis by (simp add: to_int64_def to_uint64_def nat_less_iff)
qed (simp add: to_int64_def to_uint64_def)

lemma parse_makeLogKey: "int64_range i \<Longrightarrow> parseLogKey (makeLogKey i) = Some i"
  using to_uint64_less [of i] by (simp add: parseLogKey_def makeLogKey_def get_put_be to_int64_uint64 Let_def)

lemma makeLogKey_less:
  assumes "0 \<le> i" "0 \<le> j" "i < 2 ^ 63" "j < 2 ^ 63"
  shows "bless (makeLogKey i) (makeLogKey j) \<longleftrightarrow> i < j"
proof -
  have "to_uint64 n = nat n" if "0 \<le> n" "n < 2 ^ 63" for n using that by (simp add: to_uint64_def)
  then show ?thesis using assms by (simp add: makeLogKey_def bless_be get_put_be del: put_be.simps) auto
qed

lemma makeLogKey_inject: "int64_range i \<Longrightarrow> int64_range j \<Longrightarrow> makeLogKey i = makeLogKey j \<longleftrightarrow> i = j"
  by (metis option.inject parse_makeLogKey)


lemma makeLogKey_prefix: "take 4 (makeLogKey i) = prefixRaftLog"
  by (simp add: makeLogKey_def prefixRaftLog_def)

text \<open>The four kinds of keys never meet.\<close>

lemma key_kinds [simp]:
  "makeKVKey k \<noteq> makeLogKey i" "makeLogKey i \<noteq> makeKVKey k"
  "makeKVKey k \<noteq> keyRaftState" "keyRaftState \<noteq> makeKVKey k"
  "makeKVKey k \<noteq> keySnapshotMeta" "keySnapshotMeta \<noteq> makeKVKey k"
  "makeKVKey k \<noteq> keySnapshotData" "keySnapshotData \<noteq> makeKVKey k"
  "makeLogKey i \<noteq> keyRaftState" "keyRaftState \<noteq> makeLogKey i"
  "makeLogKey i \<noteq> keySnapshotMeta" "keySnapshotMeta \<noteq> makeLogKey i"
  "makeLogKey i \<noteq> keySnapshotData" "keySnapshotData \<noteq> makeLogKey i"
  "keyRaftState \<noteq> keySnapshotMeta" "keySnapshotMeta \<noteq> keyRaftState"
  "keyRaftState \<noteq> keySnapshotData" "keySnapshotData \<noteq> keyRaftState"
  "keySnapshotMeta \<noteq> keySnapshotData" "keySnapshotData \<noteq> keySnapshotMeta"
  by (simp_all add: makeKVKey_def makeLogKey_def prefixKV_def prefixRaftLog_def keyRaftState_def
      keySnapshotMeta_def keySnapshotData_def)

lemma makeKVKey_inject [simp]: "makeKVKey k = makeKVKey k' \<longleftrightarrow> k = k'"
  by (simp add: makeKVKey_def)

lemma key_prefixes [simp]: "take 4 (makeKVKey k) \<noteq> prefixRaftLog" "take 4 keyRaftState \<noteq> prefixRaftLog"
  "take 4 keySnapshotMeta \<noteq> prefixRaftLog" "take 4 keySnapshotData \<noteq> prefixRaftLog"
  by (simp_all add: makeKVKey_def prefixKV_def prefixRaftLog_def keyRaftState_def keySnapshotMeta_def keySnapshotData_def)

section \<open>Stored values\<close>

lemma reads_as_b64: "reads_as (CHR 0x22 # b64_encode bs @ [CHR 0x22]) (JStr (b64_encode bs))"
  by (simp add: reads_as_def parse_value_b64 parse_string_b64)

lemma reads_as_null: "reads_as ''null'' JNull"
  by (auto simp: reads_as_def parse_value.simps skip_ws_def is_space_def code_def strip_prefix_def)

lemma json_names: "utf8_valid ''term''" "utf8_valid ''index''" "utf8_valid ''command''" "utf8_valid ''current_term''"
    "utf8_valid ''voted_for''"
  by (simp_all add: code_def)

lemma fold_names [simp]: "fold_name ''term'' = ''term''" "fold_name ''index'' = ''index''" "fold_name ''command'' = ''command''"
    "fold_name ''current_term'' = ''current_term''" "fold_name ''voted_for'' = ''voted_for''"
  by code_simp+

declare fold_name.simps [simp del] utf8_valid.simps [simp del]

lemma json_int64_dec [simp]: "int64_range i \<Longrightarrow> json_int64 (JNum (dec_int i)) old = Some i"
  by (simp add: json_int64_def ParseInt_dec_int)

lemma unmarshal_object:
  assumes "\<forall>(k, tx, v)\<in>set ms. utf8_valid k \<and> reads_as tx v" "ms \<noteq> []"
    and "assign_fields f (map (\<lambda>(k, tx, v). (k, v)) ms) x = Some y"
  shows "unmarshal f x (json_object (map (\<lambda>(k, tx, v). json_member k tx) ms)) = Inr y"
  using parse_json_object [OF assms(1,2), of "[]"] assms(3) by (simp add: unmarshal_def skip_ws_def)

definition entry_members :: "LogEntry \<Rightarrow> (string \<times> string \<times> json) list" where
  "entry_members e = [(''term'', dec_int (le_Term e), JNum (dec_int (le_Term e))),
     (''index'', dec_int (le_Index e), JNum (dec_int (le_Index e))),
     (if le_Command e = [] then (''command'', ''null'', JNull)
      else (''command'', CHR 0x22 # b64_encode (le_Command e) @ [CHR 0x22], JStr (b64_encode (le_Command e))))]"

lemma unmarshal_entry:
  assumes "int64_range (le_Term e)" "int64_range (le_Index e)"
  shows "unmarshal entry_field zero_entry (LogEntry_json e) = Inr e"
proof -
  have "LogEntry_json e = json_object (map (\<lambda>(k, tx, v). json_member k tx) (entry_members e))"
    by (simp add: LogEntry_json_def entry_members_def)
  moreover have "assign_fields entry_field (map (\<lambda>(k, tx, v). (k, v)) (entry_members e)) zero_entry = Some e"
    using assms by (simp add: entry_members_def entry_field_def zero_entry_def json_bytes_def)
  moreover have "\<forall>(k, tx, v)\<in>set (entry_members e). utf8_valid k \<and> reads_as tx v"
    by (simp add: entry_members_def json_names reads_as_int reads_as_b64 reads_as_null)
  moreover have "entry_members e \<noteq> []" by (simp add: entry_members_def)
  ultimately show ?thesis using unmarshal_object by metis
qed

lemma unmarshal_state:
  assumes "int64_range (ps_CurrentTerm st)" "utf8_valid (ps_VotedFor st)"
  shows "unmarshal state_field zero_state (PersistentState_json st) = Inr st"
proof -
  let ?ms = "[(''current_term'', dec_int (ps_CurrentTerm st), JNum (dec_int (ps_CurrentTerm st))),
    (''voted_for'', json_quote (ps_VotedFor st), JStr (ps_VotedFor st))]"
  have "assign_fields state_field (map (\<lambda>(k, tx, v). (k, v)) ?ms) zero_state = Some st"
    using assms by (simp add: state_field_def zero_state_def json_string_def)
  moreover have "\<forall>(k, tx, v)\<in>set ?ms. utf8_valid k \<and> reads_as tx v"
    using assms(2) by (simp add: json_names reads_as_int reads_as_quote)
  ultimately show ?thesis using unmarshal_object [of ?ms state_field zero_state st] by (simp add: PersistentState_json_def)
qed

lemma unmarshal_meta:
  assumes "int64_range (sm_Index m)" "int64_range (sm_Term m)"
  shows "unmarshal meta_field zero_meta (snapshotMeta_json m) = Inr m"
proof -
  let ?ms = "[(''index'', dec_int (sm_Index m), JNum (dec_int (sm_Index m))), (''term'', dec_int (sm_Term m), JNum (dec_int (sm_Term m)))]"
  have "assign_fields meta_field (map (\<lambda>(k, tx, v). (k, v)) ?ms) zero_meta = Some m"
    using assms by (simp add: meta_field_def zero_meta_def)
  moreover have "\<forall>(k, tx, v)\<in>set ?ms. utf8_valid k \<and> reads_as tx v"
    by (simp add: json_names reads_as_int)
  ultimately show ?thesis using unmarshal_object [of ?ms meta_field zero_meta m] by (simp add: snapshotMeta_json_def)
qed

section \<open>The database\<close>

definition apply_writes :: "(bytes \<times> bytes option) list \<Rightarrow> (bytes \<rightharpoonup> bytes) \<Rightarrow> (bytes \<rightharpoonup> bytes)" where
  "apply_writes ws m = foldl (\<lambda>m (k, w). m(k := w)) m ws"

lemma apply_writes_simps [simp]:
  "apply_writes [] m = m" "apply_writes ((k, w) # ws) m = apply_writes ws (m(k := w))"
  by (simp_all add: apply_writes_def)

lemma apply_deletes: "apply_writes (map (\<lambda>k. (k, None)) ks) m = m |` (- set ks)"
  by (induction ks arbitrary: m) (auto simp: restrict_map_def)

text \<open>
  What the storage relies on: a read sees the content, a transaction applies all its writes or fails
  and changes nothing, and an iterator visits the pairs under a prefix in the order of the keys.
\<close>

locale badger_db =
  fixes db :: "'d badger_ops"
    and ok :: "'d \<Rightarrow> bool"
    and content :: "'d \<Rightarrow> bytes \<rightharpoonup> bytes"
  assumes db_get: "ok d \<Longrightarrow> db_Get db d k = Inr (content d k)"
    and db_update: "ok d \<Longrightarrow> db_Update db d ws = (d', err) \<Longrightarrow>
      ok d' \<and> content d' = (if err = None then apply_writes ws (content d) else content d)"
    and db_items: "ok d \<Longrightarrow> sorted_wrt bless (map fst (db_Items db d p False)) \<and>
      set (db_Items db d p False) = {(k, Inr v) | k v. content d k = Some v \<and> take (length p) k = p}"
    and db_reverse: "ok d \<Longrightarrow> db_Items db d p True = rev (db_Items db d p False)"


subsection \<open>An instance: association lists sorted by key\<close>

fun sorted_put :: "bytes \<Rightarrow> bytes option \<Rightarrow> (bytes \<times> bytes) list \<Rightarrow> (bytes \<times> bytes) list" where
  "sorted_put k w [] = (case w of None \<Rightarrow> [] | Some v \<Rightarrow> [(k, v)])"
| "sorted_put k w ((k', v') # kvs) =
     (if k = k' then (case w of None \<Rightarrow> kvs | Some v \<Rightarrow> (k, v) # kvs)
      else if bless k k' then (case w of None \<Rightarrow> (k', v') # kvs | Some v \<Rightarrow> (k, v) # (k', v') # kvs)
      else (k', v') # sorted_put k w kvs)"

text \<open>\<open>full\<close> says which transactions the database refuses.\<close>

definition list_db :: "((bytes \<times> bytes option) list \<Rightarrow> bool) \<Rightarrow> (bytes \<times> bytes) list badger_ops" where
  "list_db full =
     (let items = (\<lambda>d p. map (\<lambda>(k, v). (k, Inr v)) (filter (\<lambda>(k, v). take (length p) k = p) d))
      in \<lparr>db_Get = (\<lambda>d k. Inr (map_of d k)),
          db_Update = (\<lambda>d ws. if full ws then (d, Some ''transaction refused'')
                              else (foldl (\<lambda>d (k, w). sorted_put k w d) d ws, None)),
          db_Items = (\<lambda>d p r. if r then rev (items d p) else items d p),
          db_Close = (\<lambda>d. (d, None)), db_Sync = (\<lambda>d. (d, None)), db_RunGC = (\<lambda>d. (d, None))\<rparr>)"

definition key_sorted :: "(bytes \<times> bytes) list \<Rightarrow> bool" where
  "key_sorted d \<longleftrightarrow> sorted_wrt bless (map fst d)"

lemma bless_irrefl [simp]: "\<not> bless k k"
  by (induction k) simp_all

lemma bless_trans: "bless a b \<Longrightarrow> bless b c \<Longrightarrow> bless a c"
proof (induction a c arbitrary: b rule: bless.induct)
  case (3 x xs z zs)
  then show ?case by (cases b) auto
qed (auto elim: bless.elims)

lemma bless_total: "a \<noteq> b \<Longrightarrow> bless a b \<or> bless b a"
  by (induction a b rule: bless.induct) (auto simp: neq_Nil_conv code_inject [symmetric])

lemma sorted_put_keys: "(a, b) \<in> set (sorted_put k w d) \<Longrightarrow> a = k \<or> a \<in> fst ` set d"
  by (induction d) (force split: option.splits if_splits)+

lemma sorted_put_sorted: "key_sorted d \<Longrightarrow> key_sorted (sorted_put k w d)"
proof (induction d)
  case (Cons x d)
  obtain k' v' where x: "x = (k', v')" by (cases x)
  show ?case
  proof (cases "k = k' \<or> bless k k'")
    case True
    with Cons.prems show ?thesis by (auto simp: x key_sorted_def split: option.splits intro: bless_trans)
  next
    case False
    then have "bless k' k" using bless_total by blast
    with False Cons show ?thesis by (auto simp: x key_sorted_def dest!: sorted_put_keys)
  qed
qed (simp add: key_sorted_def split: option.splits)

lemma sorted_put_map: "key_sorted d \<Longrightarrow> map_of (sorted_put k w d) = (map_of d)(k := w)"
proof (induction d)
  case (Cons x d)
  obtain k' v' where x: "x = (k', v')" by (cases x)
  have less: "bless k' a" if "a \<in> fst ` set d" for a using Cons.prems that by (auto simp: x key_sorted_def)
  have none: "map_of d a = None" if "a = k' \<or> bless a k'" for a
    using less [of a] that bless_trans bless_irrefl unfolding map_of_eq_None_iff by blast
  have "key_sorted d" using Cons.prems by (simp add: x key_sorted_def)
  then show ?case using Cons.IH none by (auto simp: x fun_eq_iff split: option.splits)
qed (auto split: option.splits)

lemma sorted_puts:
  "key_sorted d \<Longrightarrow> key_sorted (foldl (\<lambda>d (k, w). sorted_put k w d) d ws)
    \<and> map_of (foldl (\<lambda>d (k, w). sorted_put k w d) d ws) = apply_writes ws (map_of d)"
  by (induction ws arbitrary: d) (auto simp: sorted_put_sorted sorted_put_map)

lemma key_sorted_distinct: "key_sorted d \<Longrightarrow> distinct (map fst d)"
  unfolding key_sorted_def by (induction d) auto

interpretation ldb: badger_db "list_db full" key_sorted map_of for full
proof (unfold_locales, goal_cases)
  case (2 d ws d' err)
  then show ?case using sorted_puts [of d ws] by (auto simp: list_db_def Let_def split: if_splits)
next
  case (3 d p)
  let ?i = "filter (\<lambda>(k, v). take (length p) k = p) d"
  have "db_Items (list_db full) d p False = map (\<lambda>(k, v). (k, Inr v)) ?i" by (simp add: list_db_def Let_def)
  moreover have "sorted_wrt bless (map fst ?i)"
    using 3 sorted_wrt_filter [of "\<lambda>x y. bless (fst x) (fst y)" d] by (simp add: key_sorted_def sorted_wrt_map)
  moreover have "set ?i = {(k, v). map_of d k = Some v \<and> take (length p) k = p}"
    using key_sorted_distinct [OF 3] by (auto simp: map_of_eq_Some_iff)
  ultimately show ?case by (auto simp: case_prod_unfold comp_def image_iff)
qed (simp_all add: list_db_def Let_def)


section \<open>What the database stands for\<close>

definition valid_entry :: "LogEntry \<Rightarrow> bool" where
  "valid_entry e \<longleftrightarrow> int64_range (le_Term e) \<and> 0 \<le> le_Index e \<and> le_Index e < 2 ^ 63"

definition valid_meta :: "snapshotMeta \<Rightarrow> bool" where
  "valid_meta x \<longleftrightarrow> int64_range (sm_Index x) \<and> int64_range (sm_Term x)"

definition valid_state :: "PersistentState \<Rightarrow> bool" where
  "valid_state st \<longleftrightarrow> int64_range (ps_CurrentTerm st) \<and> utf8_valid (ps_VotedFor st)"

text \<open>The values under the keys of the log, the state and the snapshot are the ones the storage writes.\<close>

definition stored_ok :: "(bytes \<rightharpoonup> bytes) \<Rightarrow> bool" where
  "stored_ok m \<longleftrightarrow>
     (\<forall>k v. m k = Some v \<longrightarrow> take 4 k = prefixRaftLog \<longrightarrow>
        (\<exists>e. valid_entry e \<and> k = makeLogKey (le_Index e) \<and> v = LogEntry_json e))
     \<and> (\<forall>v. m keyRaftState = Some v \<longrightarrow> (\<exists>st. valid_state st \<and> v = PersistentState_json st))
     \<and> (\<forall>v. m keySnapshotMeta = Some v \<longrightarrow>
          (\<exists>x. valid_meta x \<and> v = snapshotMeta_json x) \<and> m keySnapshotData \<noteq> None)"

definition decoded :: "(storage_error + 'a) \<Rightarrow> 'a option" where
  "decoded r = (case r of Inl _ \<Rightarrow> None | Inr x \<Rightarrow> Some x)"

definition badger_log :: "(bytes \<rightharpoonup> bytes) \<Rightarrow> int64 \<rightharpoonup> LogEntry" where
  "badger_log m i =
     (if 0 \<le> i \<and> i < 2 ^ 63 then Option.bind (m (makeLogKey i)) (\<lambda>v. decoded (unmarshal entry_field zero_entry v)) else None)"

definition badger_abs :: "(bytes \<rightharpoonup> bytes) \<Rightarrow> storage_abs" where
  "badger_abs m =
     \<lparr>a_kv = (\<lambda>k. m (makeKVKey k)),
      a_state = (case m keyRaftState of None \<Rightarrow> zero_state
                 | Some v \<Rightarrow> the (decoded (unmarshal state_field zero_state v))),
      a_log = badger_log m,
      a_snap = (case (m keySnapshotMeta, m keySnapshotData) of
                  (Some v, Some d) \<Rightarrow> map_option (\<lambda>x. (sm_Index x, sm_Term x, d)) (decoded (unmarshal meta_field zero_meta v))
                | _ \<Rightarrow> None)\<rparr>"


lemma valid_entry_unmarshal: "valid_entry e \<Longrightarrow> unmarshal entry_field zero_entry (LogEntry_json e) = Inr e"
  by (rule unmarshal_entry) (auto simp: valid_entry_def)

lemma stored_log: "stored_ok m \<Longrightarrow> m k = Some v \<Longrightarrow> take 4 k = prefixRaftLog \<Longrightarrow>
    \<exists>e. valid_entry e \<and> k = makeLogKey (le_Index e) \<and> v = LogEntry_json e"
  by (simp add: stored_ok_def)

lemma badger_log_stored:
  "valid_entry e \<Longrightarrow> m (makeLogKey (le_Index e)) = Some (LogEntry_json e) \<Longrightarrow> badger_log m (le_Index e) = Some e"
  by (simp add: badger_log_def decoded_def valid_entry_unmarshal) (simp add: valid_entry_def)

lemma badger_logD:
  assumes "stored_ok m" "badger_log m i = Some e"
  shows "valid_entry e" "le_Index e = i" "m (makeLogKey i) = Some (LogEntry_json e)"
proof -
  obtain v where i: "0 \<le> i" "i < 2 ^ 63" and v: "m (makeLogKey i) = Some v" "decoded (unmarshal entry_field zero_entry v) = Some e"
    using assms(2) by (auto simp: badger_log_def bind_eq_Some_conv split: if_splits)
  obtain e' where e': "valid_entry e'" "makeLogKey i = makeLogKey (le_Index e')" "v = LogEntry_json e'"
    using stored_log [OF assms(1) v(1) makeLogKey_prefix] by blast
  then have "e' = e" using v(2) by (simp add: decoded_def valid_entry_unmarshal)
  moreover have "le_Index e' = i" using e' i makeLogKey_inject [of i "le_Index e'"] by (auto simp: valid_entry_def)
  ultimately show "valid_entry e" "le_Index e = i" "m (makeLogKey i) = Some (LogEntry_json e)" using e' v(1) by auto
qed

lemma log_key_free: "stored_ok m \<Longrightarrow> 0 \<le> i \<Longrightarrow> i < 2 ^ 63 \<Longrightarrow> badger_log m i = None \<Longrightarrow> m (makeLogKey i) = None"
proof (rule ccontr)
  assume a: "stored_ok m" "0 \<le> i" "i < 2 ^ 63" "badger_log m i = None" "m (makeLogKey i) \<noteq> None"
  then obtain v e where "m (makeLogKey i) = Some v" "valid_entry e" "v = LogEntry_json e"
    using stored_log [OF a(1) _ makeLogKey_prefix] by blast
  with a show False by (simp add: badger_log_def decoded_def valid_entry_unmarshal)
qed

section \<open>Iterating over the log\<close>

abbreviation log_items :: "(bytes \<rightharpoonup> bytes) \<Rightarrow> int64 list \<Rightarrow> (bytes \<times> (string + bytes)) list" where
  "log_items m is \<equiv> map (\<lambda>i. (makeLogKey i, Inr (LogEntry_json (the (badger_log m i))))) is"

definition log_indices :: "(bytes \<rightharpoonup> bytes) \<Rightarrow> int64 list \<Rightarrow> bool" where
  "log_indices m is \<longleftrightarrow> sorted_wrt (<) is \<and> set is = dom (badger_log m)"

lemma indices_range: "stored_ok m \<Longrightarrow> log_indices m is \<Longrightarrow> i \<in> set is \<Longrightarrow> 0 \<le> i \<and> i < 2 ^ 63"
  by (auto simp: log_indices_def badger_log_def dom_def split: if_splits)

lemma items_of_log:
  assumes ok: "stored_ok m" and sorted: "sorted_wrt bless (map fst xs)"
    and xs: "set xs = {(k, Inr v) | k v. m k = Some v \<and> take 4 k = prefixRaftLog}"
  shows "\<exists>is. log_indices m is \<and> xs = log_items m is"
proof (intro exI conjI)
  let ?is = "map (\<lambda>x. the (parseLogKey (fst x))) xs"
  have x: "\<exists>e. valid_entry e \<and> badger_log m (le_Index e) = Some e \<and> x = (makeLogKey (le_Index e), Inr (LogEntry_json e))"
    if a: "x \<in> set xs" for x
  proof -
    obtain k v where kv: "x = (k, Inr v)" "m k = Some v" "take 4 k = prefixRaftLog"
      using a unfolding xs by blast
    with stored_log [OF ok kv(2,3)] badger_log_stored show ?thesis by fastforce
  qed
  have parse: "parseLogKey (makeLogKey (le_Index e)) = Some (le_Index e)" if "valid_entry e" for e
    using that by (intro parse_makeLogKey) (auto simp: valid_entry_def)
  show "xs = log_items m ?is"
    unfolding map_map by (rule sym, rule map_idI) (use x parse in fastforce)
  have "set ?is = dom (badger_log m)"
  proof (intro equalityI subsetI)
    fix i assume "i \<in> set ?is"
    with x parse show "i \<in> dom (badger_log m)" by fastforce
  next
    fix i assume "i \<in> dom (badger_log m)"
    then obtain e where e: "badger_log m i = Some e" by auto
    from badger_logD [OF ok e] have "(makeLogKey i, Inr (LogEntry_json e)) \<in> set xs" "valid_entry e" "le_Index e = i"
      by (auto simp: xs makeLogKey_prefix)
    with parse [of e] show "i \<in> set ?is" by force
  qed
  moreover have "sorted_wrt (<) ?is"
    unfolding sorted_wrt_map
  proof (rule sorted_wrt_mono_rel)
    show "sorted_wrt (\<lambda>x y. bless (fst x) (fst y)) xs" using sorted by (simp add: sorted_wrt_map)
    fix a b assume "a \<in> set xs" "b \<in> set xs" "bless (fst a) (fst b)"
    with x [of a] x [of b] parse show "the (parseLogKey (fst a)) < the (parseLogKey (fst b))"
      by (auto simp: valid_entry_def makeLogKey_less)
  qed
  ultimately show "log_indices m ?is" by (simp add: log_indices_def)
qed

lemma dropWhile_less: "sorted_wrt (<) is \<Longrightarrow> dropWhile (\<lambda>i. i < a) is = filter (\<lambda>i. a \<le> i) is" for a :: int
proof (induction "is")
  case (Cons i "is")
  then show ?case by (auto intro!: filter_True [symmetric])
qed simp

lemma takeWhile_less: "sorted_wrt (<) is \<Longrightarrow> takeWhile (\<lambda>i. i < b) is = filter (\<lambda>i. i < b) is" for b :: int
proof (induction "is")
  case (Cons i "is")
  then show ?case by (auto intro!: filter_False [symmetric])
qed simp

lemma strict_last: "sorted_wrt (<) is \<Longrightarrow> i \<in> set is \<Longrightarrow> i \<le> last is" for i :: int
  by (induction "is") (auto dest: bspec [OF _ last_in_set])

lemma seek_items:
  assumes "stored_ok m" "log_indices m is" "0 \<le> a" "a < 2 ^ 63"
  shows "seek (makeLogKey a) (log_items m is) = log_items m (filter (\<lambda>i. a \<le> i) is)"
proof -
  have "seek (makeLogKey a) (log_items m is) = log_items m (dropWhile (\<lambda>i. bless (makeLogKey i) (makeLogKey a)) is)"
    by (simp add: seek_def dropWhile_map comp_def)
  also have "dropWhile (\<lambda>i. bless (makeLogKey i) (makeLogKey a)) is = dropWhile (\<lambda>i. i < a) is"
    using indices_range [OF assms(1,2)] assms(3,4) by (intro dropWhile_cong) (auto simp: makeLogKey_less)
  finally show ?thesis using assms(2) by (simp add: dropWhile_less log_indices_def)
qed

lemma range_loop_items:
  assumes "stored_ok m" "set is \<subseteq> dom (badger_log m)"
  shows "range_loop b (log_items m is) = Inr (map (the \<circ> badger_log m) (takeWhile (\<lambda>i. i < b) is))"
  using assms(2)
proof (induction "is")
  case (Cons i "is")
  then obtain e where e: "badger_log m i = Some e" by auto
  note d = badger_logD [OF assms(1) e]
  then have "parseLogKey (makeLogKey i) = Some i" by (intro parse_makeLogKey) (auto simp: valid_entry_def)
  with Cons e d show ?case by (simp add: valid_entry_unmarshal)
qed simp


lemma last_key_greatest: "\<not> bless last_key (makeLogKey i)"
proof -
  have "get_be (put_be 8 (to_uint64 i)) < 256 ^ 8" using get_be_less [of "put_be 8 (to_uint64 i)"] by simp
  moreover have "Suc (get_be (replicate n (chr_of 255))) = 256 ^ n" for n
  proof (induction n)
    case (Suc n)
    then show ?case by (simp add: get_be_Cons del: replicate_Suc add: replicate_Suc)
  qed (simp add: get_be_def)
  ultimately have "\<not> get_be (replicate 8 (chr_of 255)) < get_be (put_be 8 (to_uint64 i))" by (metis not_less_eq)
  then show ?thesis unfolding last_key_def makeLogKey_def bless_append by (subst bless_be) simp_all
qed

lemma log_range_indices:
  assumes "log_indices m is"
  shows "log_range (badger_log m) a b = map (the \<circ> badger_log m) (filter (\<lambda>i. i < b) (filter (\<lambda>i. a \<le> i) is))"
proof -
  have "log_range (badger_log m) a b = map (the \<circ> badger_log m) (filter (\<lambda>i. i \<in> dom (badger_log m)) [a..b - 1])"
    by (simp add: log_range_def map_filter_def comp_def domIff)
  also have "filter (\<lambda>i. i \<in> dom (badger_log m)) [a..b - 1] = filter (\<lambda>i. i < b) (filter (\<lambda>i. a \<le> i) is)"
    using assms unfolding log_indices_def
    by (intro sorted_distinct_set_unique) (auto simp: strict_sorted_iff intro: sorted_wrt_filter)
  finally show ?thesis .
qed

section \<open>Writes\<close>




lemma stored_other:
  assumes "stored_ok m"
  shows "m keyRaftState = Some v \<Longrightarrow> \<exists>st. valid_state st \<and> v = PersistentState_json st"
    and "m keySnapshotMeta = Some v \<Longrightarrow>
      \<exists>x. valid_meta x \<and> v = snapshotMeta_json x"
    and "m keySnapshotMeta \<noteq> None \<Longrightarrow> m keySnapshotData \<noteq> None"
  using assms unfolding stored_ok_def by blast+




section \<open>The operations\<close>

definition badger_inv :: "('d \<Rightarrow> bool) \<Rightarrow> ('d \<Rightarrow> bytes \<rightharpoonup> bytes) \<Rightarrow> 'd BadgerStorage \<Rightarrow> bool" where
  "badger_inv ok content s \<longleftrightarrow> \<not> bs_closed s \<and> ok (bs_db s) \<and> stored_ok (content (bs_db s))"

context badger_db
begin

abbreviation inv :: "'d BadgerStorage \<Rightarrow> bool" where
  "inv \<equiv> badger_inv ok content"

abbreviation abs :: "'d BadgerStorage \<Rightarrow> storage_abs" where
  "abs s \<equiv> badger_abs (content (bs_db s))"

lemma invD: "inv s \<Longrightarrow> \<not> bs_closed s" "inv s \<Longrightarrow> ok (bs_db s)" "inv s \<Longrightarrow> stored_ok (content (bs_db s))"
  by (simp_all add: badger_inv_def)

lemma log_iteration:
  assumes "inv s"
  shows "\<exists>is. log_indices (content (bs_db s)) is \<and> db_Items db (bs_db s) prefixRaftLog False = log_items (content (bs_db s)) is"
proof (rule items_of_log [OF invD(3) [OF assms]])
  have "length prefixRaftLog = 4" by (simp add: prefixRaftLog_def)
  then show "sorted_wrt bless (map fst (db_Items db (bs_db s) prefixRaftLog False))"
    "set (db_Items db (bs_db s) prefixRaftLog False) =
       {(k, Inr v) | k v. content (bs_db s) k = Some v \<and> take 4 k = prefixRaftLog}"
    using db_items [OF invD(2) [OF assms], of prefixRaftLog] by simp_all
qed

lemma Get_spec: "inv s \<Longrightarrow>
    BadgerStorage_Get db s k = (case a_kv (abs s) k of None \<Rightarrow> Inl ErrKeyNotFound | Some v \<Rightarrow> Inr v)"
  by (simp add: BadgerStorage_Get_def invD db_get badger_abs_def split: option.split)

lemma LoadRaftState_spec: "inv s \<Longrightarrow> BadgerStorage_LoadRaftState db s = Inr (Some (a_state (abs s)))"
  using stored_other(1) [OF invD(3), of s]
  by (auto simp: BadgerStorage_LoadRaftState_def invD db_get badger_abs_def unmarshal_state valid_state_def decoded_def
      split: option.split)

lemma LoadSnapshot_spec: "inv s \<Longrightarrow>
    BadgerStorage_LoadSnapshot db s = (case a_snap (abs s) of None \<Rightarrow> Inl ErrNoSnapshot | Some x \<Rightarrow> Inr x)"
  using stored_other(2) [OF invD(3), of s]
  by (auto simp: BadgerStorage_LoadSnapshot_def invD db_get badger_abs_def unmarshal_meta valid_meta_def decoded_def
      split: option.split)

lemma GetLogEntry_spec:
  assumes "inv s" "int64_range i"
  shows "BadgerStorage_GetLogEntry db s i = (case a_log (abs s) i of None \<Rightarrow> Inl ErrLogNotFound | Some e \<Rightarrow> Inr e)"
proof (cases "badger_log (content (bs_db s)) i")
  case (Some e)
  from badger_logD [OF invD(3) [OF assms(1)] this] Some show ?thesis
    by (simp add: BadgerStorage_GetLogEntry_def invD [OF assms(1)] db_get badger_abs_def valid_entry_unmarshal)
next
  case None
  have "content (bs_db s) (makeLogKey i) = None"
  proof (rule ccontr)
    assume "content (bs_db s) (makeLogKey i) \<noteq> None"
    then obtain e where e: "valid_entry e" "makeLogKey i = makeLogKey (le_Index e)"
      using stored_log [OF invD(3) [OF assms(1)] _ makeLogKey_prefix] by blast
    then have "i = le_Index e" using makeLogKey_inject [OF assms(2), of "le_Index e"] by (auto simp: valid_entry_def)
    with e log_key_free [OF invD(3) [OF assms(1)], of i] None \<open>content (bs_db s) (makeLogKey i) \<noteq> None\<close> show False
      by (simp add: valid_entry_def)
  qed
  with None show ?thesis by (simp add: BadgerStorage_GetLogEntry_def invD [OF assms(1)] db_get badger_abs_def)
qed

lemma GetLogEntries_spec:
  assumes "inv s" "0 \<le> a" "a < 2 ^ 63"
  shows "BadgerStorage_GetLogEntries db s a b = Inr (log_range (a_log (abs s)) a b)"
proof -
  let ?m = "content (bs_db s)"
  obtain "is" where i: "log_indices ?m is" "db_Items db (bs_db s) prefixRaftLog False = log_items ?m is"
    using log_iteration [OF assms(1)] by blast
  let ?is = "filter (\<lambda>i. a \<le> i) is"
  have dom: "set ?is \<subseteq> dom (badger_log ?m)" and srt: "sorted_wrt (<) ?is"
    using i(1) by (auto simp: log_indices_def intro: sorted_wrt_filter)
  have "range_loop b (seek (makeLogKey a) (db_Items db (bs_db s) prefixRaftLog False)) = Inr (log_range (badger_log ?m) a b)"
    unfolding i(2) seek_items [OF invD(3) [OF assms(1)] i(1) assms(2,3)]
      range_loop_items [OF invD(3) [OF assms(1)] dom] takeWhile_less [OF srt] log_range_indices [OF i(1)] ..
  moreover have "log_range (badger_log ?m) a b = []" if "b \<le> a" using that by (simp add: log_range_def map_filter_def)
  ultimately show ?thesis by (simp add: BadgerStorage_GetLogEntries_def invD [OF assms(1)] badger_abs_def)
qed

text \<open>The last entry is the one with the greatest index; an empty log falls back to the snapshot.\<close>

lemma GetLast_spec:
  assumes "inv s"
  shows "a_log (abs s) l = Some e \<Longrightarrow> \<forall>i\<in>dom (a_log (abs s)). i \<le> l \<Longrightarrow>
      BadgerStorage_GetLastLogIndexAndTerm db s = Inr (l, le_Term e)"
    and "a_log (abs s) = Map.empty \<Longrightarrow> content (bs_db s) keySnapshotMeta = None \<Longrightarrow>
      BadgerStorage_GetLastLogIndexAndTerm db s = Inr (0, 0)"
    and "a_log (abs s) = Map.empty \<Longrightarrow> a_snap (abs s) = Some (i, t, d) \<Longrightarrow>
      BadgerStorage_GetLastLogIndexAndTerm db s = Inr (i, t)"
proof -
  let ?m = "content (bs_db s)"
  obtain "is" where i: "log_indices ?m is" "db_Items db (bs_db s) prefixRaftLog False = log_items ?m is"
    using log_iteration [OF assms] by blast
  have r: "db_Items db (bs_db s) prefixRaftLog True = log_items ?m (rev is)"
    using db_reverse [OF invD(2) [OF assms], of prefixRaftLog] i(2) by (simp add: rev_map)
  have sk: "seek_reverse last_key (log_items ?m js) = log_items ?m js" for js
    by (cases js) (simp_all add: seek_reverse_def last_key_greatest)
  show "BadgerStorage_GetLastLogIndexAndTerm db s = Inr (l, le_Term e)"
    if "a_log (abs s) l = Some e" "\<forall>i\<in>dom (a_log (abs s)). i \<le> l"
  proof -
    have l: "badger_log ?m l = Some e" using that(1) by (simp add: badger_abs_def)
    then have "l \<in> set is" using i(1) by (auto simp: log_indices_def)
    then have ne: "is \<noteq> []" by auto
    then have "last is \<in> set is" by simp
    then have "last is \<le> l" using that(2) i(1) by (simp add: log_indices_def badger_abs_def)
    moreover have "l \<le> last is" using \<open>l \<in> set is\<close> i(1) strict_last by (simp add: log_indices_def)
    ultimately have "last is = l" by simp
    with ne have rv: "rev is = l # tl (rev is)" by (metis hd_rev list.collapse rev_is_Nil_conv)
    note d = badger_logD [OF invD(3) [OF assms] l]
    have "db_Items db (bs_db s) prefixRaftLog True = (makeLogKey l, Inr (LogEntry_json e)) # log_items ?m (tl (rev is))"
      unfolding r by (subst rv) (simp add: l)
    then have "BadgerStorage_GetLastLogIndexAndTerm db s = Inr (le_Index e, le_Term e)"
      by (simp add: BadgerStorage_GetLastLogIndexAndTerm_def invD(1) [OF assms] Let_def seek_reverse_def
          last_key_greatest valid_entry_unmarshal [OF d(1)])
    then show ?thesis using d(2) by simp
  qed
  have empty: "is = []" if "a_log (abs s) = Map.empty" using that i(1) by (simp add: log_indices_def badger_abs_def)
  show "BadgerStorage_GetLastLogIndexAndTerm db s = Inr (0, 0)"
    if "a_log (abs s) = Map.empty" "?m keySnapshotMeta = None"
    unfolding BadgerStorage_GetLastLogIndexAndTerm_def r sk empty [OF that(1)]
    using that(2) by (simp add: seek_reverse_def invD [OF assms] db_get Let_def)
  show "BadgerStorage_GetLastLogIndexAndTerm db s = Inr (i, t)"
    if em: "a_log (abs s) = Map.empty" and sn: "a_snap (abs s) = Some (i, t, d)"
  proof -
    obtain x where "?m keySnapshotMeta = Some (snapshotMeta_json x)" "valid_meta x" "sm_Index x = i" "sm_Term x = t"
      using sn stored_other(2) [OF invD(3) [OF assms]]
      by (fastforce simp: badger_abs_def decoded_def unmarshal_meta valid_meta_def split: option.splits sum.splits)
    then show ?thesis unfolding BadgerStorage_GetLastLogIndexAndTerm_def r sk empty [OF em]
      by (simp add: seek_reverse_def invD [OF assms] db_get Let_def unmarshal_meta valid_meta_def)
  qed
qed

text \<open>A write that fails leaves everything as it was.\<close>

lemma bupdate_spec:
  assumes "ok (bs_db s)" "bupdate db s ws = (s', err)"
  shows "bs_closed s' = bs_closed s \<and> ok (bs_db s')
    \<and> content (bs_db s') = (if err = None then apply_writes ws (content (bs_db s)) else content (bs_db s))"
  using db_update [OF assms(1), of ws] assms(2) by (auto simp: bupdate_def split: prod.splits)

end


section \<open>Sharing the database with the key-value server\<close>

lemma apply_writes_other: "\<forall>x\<in>set ws. fst x \<noteq> k \<Longrightarrow> apply_writes ws m k = m k"
  by (induction ws arbitrary: m) auto

lemma before_loop_keys: "before_loop i items = Some ks \<Longrightarrow> set ks \<subseteq> fst ` set items"
proof (induction i items arbitrary: ks rule: before_loop.induct)
  case (2 i key v items)
  then show ?case by (fastforce split: option.splits if_splits)
qed simp

definition badger_live :: "('d \<Rightarrow> bool) \<Rightarrow> 'd BadgerStorage \<Rightarrow> bool" where
  "badger_live ok s \<longleftrightarrow> \<not> bs_closed s \<and> ok (bs_db s)"

definition badger_kv :: "('d \<Rightarrow> bytes \<rightharpoonup> bytes) \<Rightarrow> 'd BadgerStorage \<Rightarrow> bytes \<rightharpoonup> bytes" where
  "badger_kv content s = (\<lambda>k. content (bs_db s) (makeKVKey k))"

context badger_db
begin

lemma bupdate_keeps_kv:
  assumes "\<forall>x\<in>set ws. \<forall>k. fst x \<noteq> makeKVKey k"
  shows "same_kv (badger_live ok) (badger_kv content) s (fst (bupdate db s ws))"
  using bupdate_spec [of s ws "fst (bupdate db s ws)" "snd (bupdate db s ws)"] apply_writes_other [of ws] assms
  by (auto simp: same_kv_def badger_live_def badger_kv_def fun_eq_iff)

lemma item_keys: "ok d \<Longrightarrow> x \<in> set (db_Items db d prefixRaftLog False) \<Longrightarrow> fst x \<noteq> makeKVKey k"
  using db_items [of d prefixRaftLog] by (auto simp: prefixRaftLog_def makeKVKey_def prefixKV_def)

lemma seek_keys: "x \<in> set (seek a items) \<Longrightarrow> x \<in> set items"
  unfolding seek_def by (rule set_dropWhileD)

lemma closed_keeps: "bs_closed s \<or> \<not> ok (bs_db s) \<Longrightarrow> same_kv (badger_live ok) (badger_kv content) s s'"
  by (auto simp: same_kv_def badger_live_def)

lemma badger_frame: "storage_frame (badger_storage db) (same_kv (badger_live ok) (badger_kv content))"
proof (unfold_locales, goal_cases)
  case (3 s ps)
  show ?case using bupdate_keeps_kv [of "[(keyRaftState, Some (PersistentState_json ps))]" s] closed_keeps [of s]
    by (simp add: badger_storage_def BadgerStorage_SaveRaftState_def)
next
  case (4 s es)
  have "same_kv (badger_live ok) (badger_kv content) s s" by (simp add: same_kv_def)
  moreover have "same_kv (badger_live ok) (badger_kv content) s
      (fst (bupdate db s (map (\<lambda>e. (makeLogKey (le_Index e), Some (LogEntry_json e))) es)))"
    by (rule bupdate_keeps_kv) auto
  ultimately show ?case by (simp add: badger_storage_def BadgerStorage_AppendLogEntries_def)
next
  case (5 s i)
  show ?case
  proof (cases "badger_live ok s")
    case True
    then have "same_kv (badger_live ok) (badger_kv content) s (fst (bupdate db s (map (\<lambda>(k, _). (k, None))
        (seek (makeLogKey (i + 1)) (db_Items db (bs_db s) prefixRaftLog False)))))"
      using item_keys by (intro bupdate_keeps_kv) (fastforce simp: badger_live_def dest!: seek_keys)
    with True show ?thesis by (simp add: badger_storage_def BadgerStorage_TruncateLogAfter_def badger_live_def)
  qed (rule closed_keeps, auto simp: badger_live_def)
next
  case (6 s i)
  show ?case
  proof (cases "badger_live ok s \<and> before_loop i (db_Items db (bs_db s) prefixRaftLog False) \<noteq> None")
    case True
    then obtain ks where ks: "before_loop i (db_Items db (bs_db s) prefixRaftLog False) = Some ks" by auto
    have "same_kv (badger_live ok) (badger_kv content) s (fst (bupdate db s (map (\<lambda>k. (k, None)) ks)))"
      using before_loop_keys [OF ks] item_keys True by (intro bupdate_keeps_kv) (fastforce simp: badger_live_def)
    with True ks show ?thesis by (simp add: badger_storage_def BadgerStorage_TruncateLogBefore_def badger_live_def)
  qed (auto simp: badger_storage_def BadgerStorage_TruncateLogBefore_def same_kv_def badger_live_def)
next
  case (7 s i t d)
  show ?case using closed_keeps [of s]
      bupdate_keeps_kv [of "[(keySnapshotMeta, Some (snapshotMeta_json \<lparr>sm_Index = i, sm_Term = t\<rparr>)), (keySnapshotData, Some d)]" s]
    by (simp add: badger_storage_def BadgerStorage_SaveSnapshot_def)
qed (auto simp: same_kv_def)

end




section \<open>Properties\<close>

text \<open>
  C30. Log keys are faithful: the index is recovered from its key, and the bytewise order of the keys,
  in which the database iterates, is the order of the indices, for every index a log can have.
\<close>

theorem log_key_order:
  assumes "0 \<le> i" "i < 2 ^ 63" "0 \<le> j" "j < 2 ^ 63"
  shows "parseLogKey (makeLogKey i) = Some i \<and> (bless (makeLogKey i) (makeLogKey j) \<longleftrightarrow> i < j)"
  using assms parse_makeLogKey [of i] makeLogKey_less [of i j] by auto

theorem log_key_order_witness:
  "parseLogKey (makeLogKey 255) = Some 255 \<and> (bless (makeLogKey 255) (makeLogKey 256) \<longleftrightarrow> (255::int) < 256)"
  using log_key_order [of 255 256] by simp


definition empty_badger :: "(bytes \<times> bytes) list BadgerStorage" where
  "empty_badger = \<lparr>bs_db = [], bs_closed = False\<rparr>"


definition sample_entry :: LogEntry where
  "sample_entry = \<lparr>le_Term = 3, le_Index = 1, le_Command = ''x''\<rparr>"







text \<open>The operations that write, as data.\<close>

datatype badger_write =
    WPut bytes bytes
  | WDelete bytes
  | WState PersistentState
  | WAppend "LogEntry list"
  | WAfter int64
  | WBefore int64
  | WSnapshot int64 int64 bytes

fun do_write :: "'d badger_ops \<Rightarrow> badger_write \<Rightarrow> 'd BadgerStorage \<Rightarrow> 'd BadgerStorage \<times> storage_error option" where
  "do_write db (WPut k v) s = BadgerStorage_Put db s k v"
| "do_write db (WDelete k) s = BadgerStorage_Delete db s k"
| "do_write db (WState st) s = BadgerStorage_SaveRaftState db s st"
| "do_write db (WAppend es) s = BadgerStorage_AppendLogEntries db s es"
| "do_write db (WAfter i) s = BadgerStorage_TruncateLogAfter db s i"
| "do_write db (WBefore i) s = BadgerStorage_TruncateLogBefore db s i"
| "do_write db (WSnapshot i t d) s = BadgerStorage_SaveSnapshot db s i t d"

text \<open>
  C29. Failed writes have no effect: when any writing operation reports an error, because the storage
  is closed or the database refuses the transaction, the content is what it was, also for the
  operations that write several keys.
\<close>

theorem badger_failed_write:
  assumes "badger_db db ok content" "ok (bs_db s)" "do_write db w s = (s', Some err)"
  shows "content (bs_db s') = content (bs_db s) \<and> bs_closed s' = bs_closed s"
proof -
  have "s' = s \<or> (\<exists>ws. bupdate db s ws = (s', Some err))"
    using assms(3) by (cases w) (auto simp: BadgerStorage_Put_def BadgerStorage_Delete_def BadgerStorage_SaveRaftState_def
        BadgerStorage_AppendLogEntries_def BadgerStorage_TruncateLogAfter_def BadgerStorage_TruncateLogBefore_def
        BadgerStorage_SaveSnapshot_def split: if_splits option.splits)
  then show ?thesis using badger_db.bupdate_spec [OF assms(1,2)] by fastforce
qed

theorem badger_failed_write_witness:
  "\<exists>s'. do_write (list_db (\<lambda>_. True)) (WAppend [sample_entry]) empty_badger = (s', Some (ErrBackend ''transaction refused''))
     \<and> map_of (bs_db s') = map_of (bs_db empty_badger)"
proof -
  have "key_sorted (bs_db empty_badger)" by (simp add: empty_badger_def key_sorted_def)
  moreover have w: "do_write (list_db (\<lambda>_. True)) (WAppend [sample_entry]) empty_badger = (empty_badger, Some (ErrBackend ''transaction refused''))"
    by (simp add: BadgerStorage_AppendLogEntries_def bupdate_def list_db_def empty_badger_def Let_def)
  ultimately show ?thesis using badger_failed_write [OF ldb.badger_db_axioms _ w] by blast
qed







end
