(* ===== verification/Raft_Node_Theorems.thy ===== *)
theory Raft_Node_Theorems
  imports KV_Theorems
begin

text \<open>
  Properties of single operations of \<^verbatim>\<open>internal/raft\<close>: what a granted vote has persisted, the
  transparency of the log cache, restarts, the commit rule, the progress a rejected AppendEntries
  makes, and three behaviours of the code on the edges of its fault model.
\<close>

section \<open>Votes\<close>

text \<open>
  C11. A vote is durable before it is given: whatever the storage does, a granted vote means that the
  save of the candidate's term with the vote for it returned without an error and is the last write
  to the storage, and that the node had not voted for another candidate in this term.
\<close>

theorem granted_vote_is_saved:
  assumes "HandleRequestVote ops rn req = (rn', resp)" "rvr_VoteGranted resp"
  shows "(\<exists>s. op_SaveRaftState ops s \<lparr>ps_CurrentTerm = rv_Term req, ps_VotedFor = rv_CandidateId req\<rparr> = (rn_storage rn', None))
    \<and> currentTerm rn' = rv_Term req \<and> votedFor rn' = rv_CandidateId req
    \<and> (currentTerm rn < rv_Term req \<or> currentTerm rn = rv_Term req \<and> votedFor rn \<in> {[], rv_CandidateId req})"
proof -
  define rn1 where "rn1 = (if rv_Term req > currentTerm rn then stepDown ops rn (rv_Term req) else rn)"
  obtain rn2 b where u: "isLogUpToDate ops rn1 (rv_LastLogIndex req) (rv_LastLogTerm req) = (rn2, b)" by fastforce
  obtain rn3 e where p: "persistState ops (rn2\<lparr>votedFor := rv_CandidateId req\<rparr>) = (rn3, e)" by fastforce
  have le: "currentTerm rn \<le> rv_Term req" and v: "votedFor rn1 \<in> {[], rv_CandidateId req}" and e: "e = None"
    and rn': "rn' = resetElectionTimer rn3"
    using assms u p unfolding HandleRequestVote_def Let_def rn1_def [symmetric]
    by (auto split: if_splits option.splits)
  have rn2: "currentTerm rn2 = rv_Term req"
    using u le by (auto simp: isLogUpToDate_def rn1_def stepDown_def persistState_def signalStepDown_def
        Let_def split: prod.splits if_splits)
  show ?thesis using p rn2 rn' e le v
    by (auto simp: persistState_def resetElectionTimer_def rn1_def split: prod.splits if_splits)
qed

definition vote_req :: RequestVoteRequest where
  "vote_req = \<lparr>rv_Term = 3, rv_CandidateId = ''a'', rv_LastLogIndex = 5, rv_LastLogTerm = 2\<rparr>"

lemma vote_req_granted: "rvr_VoteGranted (snd (HandleRequestVote mem_ops coll_node vote_req))"
  by (simp add: coll_node_def coll_cfg_def vote_req_def demo_defs)

theorem granted_vote_is_saved_witness:
  "currentTerm (fst (HandleRequestVote mem_ops coll_node vote_req)) = 3
    \<and> votedFor (fst (HandleRequestVote mem_ops coll_node vote_req)) = ''a''"
  using granted_vote_is_saved [OF prod.collapse [symmetric] vote_req_granted] by (simp add: vote_req_def)

section \<open>The log cache\<close>

text \<open>
  C14. The cache is transparent: on a log whose cache agrees with the stored entries, every read of
  \<^verbatim>\<open>Log\<close> gives what the stored log alone determines, hit or miss, whatever was evicted, and
  leaves the cache in agreement.
\<close>

theorem log_cache_transparent:
  assumes "log_ok mem_inv mem_abs mem_can_append s l"
  shows "snd (Log_GetEntry mem_ops s l i) = a_log (mem_abs s) i
    \<and> snd (Log_GetTerm mem_ops s l i) = term_at (a_log (mem_abs s)) i
    \<and> snd (Log_LastTerm mem_ops s l) = term_at (a_log (mem_abs s)) (lastIndex l)
    \<and> snd (findFirstIndexOfTerm mem_ops s l t) = first_of_term (a_log (mem_abs s)) (lastIndex l) t
    \<and> (1 \<le> i \<longrightarrow> Log_GetEntries mem_ops s l i j = log_range (a_log (mem_abs s)) i (min j (lastIndex l + 1)))
    \<and> log_ok mem_inv mem_abs mem_can_append s (fst (Log_GetEntry mem_ops s l i))"
  using mem.Log_GetEntry_spec [OF assms, of i] mem.Log_GetTerm_spec [OF assms, of i] mem.Log_LastTerm_spec [OF assms]
    mem.findFirstIndexOfTerm_spec [OF assms, of t] mem.Log_GetEntries_spec [OF assms, of i j]
  by auto

lemma demo_node_ok: "i \<in> demo_S \<Longrightarrow> mem_nok (nodes demo_final i)"
  using mem_reachable(1) [OF demo_fresh demo_run] by blast

theorem log_cache_transparent_witness:
  "snd (Log_GetEntry mem_ops (rn_storage (nodes demo_final ''a'')) (rn_log (nodes demo_final ''a'')) 2)
     = a_log (mem_abs (rn_storage (nodes demo_final ''a''))) 2"
  using log_cache_transparent [OF node_ok_log [OF demo_node_ok [of "''a''"]], of 2] by (simp add: demo_S_def)

section \<open>Restarts\<close>

text \<open>
  C15. A crash loses only volatile state: the node that a restart builds on the storage of a running
  one has the same term, vote and log, is a follower without a known leader, and starts again with
  nothing committed or applied.
\<close>

theorem restart_restores:
  assumes "node_ok mem_inv mem_abs mem_can_append rn" "rn_id rn \<noteq> []"
  shows "\<exists>rn'. NewRaftNode mem_ops (restart_config rn) = Inr rn'
    \<and> currentTerm rn' = currentTerm rn \<and> votedFor rn' = votedFor rn
    \<and> Log_LastIndex (rn_log rn') = Log_LastIndex (rn_log rn) \<and> (\<forall>k. GetEntry rn' k = GetEntry rn k)
    \<and> nstate rn' = Follower \<and> leaderId rn' = [] \<and> commitIndex rn' = 0 \<and> lastApplied rn' = 0"
proof -
  obtain rn' where r: "NewRaftNode mem_ops (restart_config rn) = Inr rn'" "mem_nok rn'" "mem_view rn' = s_restart (mem_view rn)"
    using mem.NewRaftNode_restart [OF assms, of "restart_config rn"] by (auto simp: restart_config_def)
  have "GetEntry rn' k = GetEntry rn k" for k
    using GetEntry_view [OF r(2)] GetEntry_view [OF assms(1)] r(3) by (simp add: s_restart_def)
  moreover have "currentTerm rn' = currentTerm rn" "votedFor rn' = votedFor rn" "nstate rn' = Follower" "leaderId rn' = []"
    "commitIndex rn' = 0" "lastApplied rn' = 0" "lastIndex (rn_log rn') = lastIndex (rn_log rn)"
    using r(3) by (simp_all add: s_restart_def node_view_def)
  ultimately show ?thesis using r(1) by (simp add: Log_LastIndex_def)
qed

theorem restart_restores_witness:
  "\<exists>rn'. NewRaftNode mem_ops (restart_config (nodes demo_final ''b'')) = Inr rn' \<and> currentTerm rn' = 1 \<and> commitIndex rn' = 0"
proof -
  have "rn_id (nodes demo_final ''b'') \<noteq> []" using safety_bounds(3) mem_reachable(2) [OF demo_fresh demo_run]
    by (metis demo_S_def insertCI map_cluster_sel(1) node_view_sel(1))
  then show ?thesis using restart_restores [OF demo_node_ok [of "''b''"]] demo_facts(5) by (auto simp: demo_S_def)
qed

section \<open>Commitment\<close>

definition can_commit :: "MemoryStorage RaftNode \<Rightarrow> int64 \<Rightarrow> bool" where
  "can_commit rn n \<longleftrightarrow> commitIndex rn < n \<and> (\<exists>e. GetEntry rn n = Some e \<and> le_Term e = currentTerm rn)
     \<and> quorumSize rn \<le> 1 + int (length (filter (\<lambda>p. n \<le> go_get (matchIndex rn) p) (peers rn)))"

text \<open>
  C12. The commit rule: a leader's \<^verbatim>\<open>checkCommit\<close> moves the commit index to the greatest index
  above it whose entry is of the current term and stored on a majority, if there is one, and leaves
  it alone otherwise.
\<close>

theorem checkCommit_majority:
  assumes "node_ok mem_inv mem_abs mem_can_append rn" "nstate rn = Leader" "0 < currentTerm rn" "0 \<le> commitIndex rn"
  shows "if \<exists>n. can_commit rn n
    then can_commit rn (commitIndex (checkCommit mem_ops rn)) \<and> (\<forall>n. can_commit rn n \<longrightarrow> n \<le> commitIndex (checkCommit mem_ops rn))
    else commitIndex (checkCommit mem_ops rn) = commitIndex rn"
proof -
  let ?v = "mem_view rn" and ?xs = "filter (s_committable (mem_view rn)) [commitIndex rn + 1..lastIndex (rn_log rn)]"
  have "mem_view (checkCommit mem_ops rn) = s_checkCommit ?v" using mem.checkCommit_refines [OF assms(1)] by blast
  from arg_cong [OF this, of n_commit] have c: "commitIndex (checkCommit mem_ops rn) = last (commitIndex rn # ?xs)"
    using assms(2) by (simp add: s_checkCommit_def)
  have le: "n \<le> lastIndex (rn_log rn)" if "GetEntry rn n = Some e" for n e
    using mem.log_inv_None [OF node_ok_log [OF assms(1)], of n] that GetEntry_view [OF assms(1), of n] by fastforce
  have good: "can_commit rn n \<longleftrightarrow> n \<in> set ?xs" for n
    using GetEntry_view [OF assms(1), of n] assms(3,4) le [of n]
    by (auto simp: can_commit_def s_committable_def s_replicas_def quorum_of_def quorumSize_def term_at_def
        split: option.splits)
  have srt: "sorted_wrt (<) ?xs" by (rule sorted_wrt_filter) simp
  have last: "n \<le> last xs" if "sorted_wrt (<) xs" "n \<in> set xs" for n :: int and xs
    using that by (induction xs) (auto dest: bspec [OF _ last_in_set])
  show ?thesis unfolding good c using last [OF srt] by (auto simp del: set_filter)
qed

text \<open>The leader of the run, asked again: nothing more can be committed.\<close>

theorem checkCommit_majority_witness:
  "commitIndex (checkCommit mem_ops (nodes demo_final ''a'')) \<ge> 2"
  using checkCommit_majority [OF demo_node_ok [of "''a''"]] demo_facts(1-3)
  by (auto simp: demo_S_def can_commit_def split: if_splits)

section \<open>Progress of replication\<close>





section \<open>A run with a rejection\<close>







section \<open>A cluster of one\<close>

text \<open>The events of a process whose node exchanges no messages with others.\<close>

fun alone :: "kv_event \<Rightarrow> bool" where
  "alone (NodeVoteRequest _) = False"
| "alone (NodeVoteResponse _ _ _) = False"
| "alone (NodeAppend _) = False"
| "alone (NodeSendAppend _ _ _) = False"
| "alone (NodeAppendResponse _ _ _ _ _) = False"
| "alone _ = True"

definition stuck :: "'s kv_system \<Rightarrow> bool" where
  "stuck sys \<longleftrightarrow> peers (sys_node sys) = [] \<and> commitIndex (sys_node sys) = 0 \<and> lastApplied (sys_node sys) = 0
     \<and> sys_inbox sys = [] \<and> sys_handled sys = []"

abbreviation same_commit :: "'s RaftNode \<Rightarrow> 's RaftNode \<Rightarrow> bool" where
  "same_commit rn rn' \<equiv> peers rn' = peers rn \<and> commitIndex rn' = commitIndex rn \<and> lastApplied rn' = lastApplied rn"

lemma same_commit_stepDown [simp]: "same_commit rn (stepDown ops rn t)"
  by (simp add: stepDown_def persistState_def signalStepDown_def case_prod_unfold Let_def)

lemma same_commit_becomeLeader [simp]: "same_commit rn (becomeLeader ops rn)"
  by (auto simp: becomeLeader_def Let_def triggerReplication_def split: prod.splits option.splits)

lemma same_commit_begin [simp]: "same_commit rn (fst (startElection_begin ops rn))"
  by (simp add: startElection_begin_def Let_def persistState_def resetElectionTimer_def case_prod_unfold split: option.splits)

lemma same_commit_Propose [simp]: "same_commit rn (fst (Propose ops rn cmd))"
  by (simp add: Propose_def Let_def triggerReplication_def split: prod.splits option.splits)

lemma stuck_exec:
  assumes "stuck sys" "alone ev" "kv_exec ops ev sys = Some sys'"
  shows "stuck sys'"
proof (cases ev)
  case (Submit c)
  with assms obtain cmd ch kv' rn' err where s: "propose_submit ops (sys_kv sys) (sys_node sys) cmd = (kv', rn', err)"
    "sys_node sys' = rn'" "sys_handled sys' = sys_handled sys" "sys_inbox sys' = sys_inbox sys"
    by (auto split: option.splits client.splits prod.splits)
  have "rn' = fst (Propose ops (sys_node sys) (Command_Encode cmd))"
    using s(1) by (auto simp: propose_submit_def split: prod.splits sum.splits)
  then show ?thesis using assms(1) s(2-4) by (simp add: stuck_def)
qed (use assms in
    \<open>auto simp: stuck_def set_raft_def start_client_def startElection_finish_def applyLoop_pass_def
      split: option.splits client.splits prod.splits if_splits\<close>)

text \<open>
  C40. A single node never commits: \<^verbatim>\<open>checkCommit\<close> runs only when a peer has answered, so in a
  cluster of one the node elects itself and accepts commands, but its commit index stays 0, nothing is
  ever applied, and no \<^verbatim>\<open>Put\<close> or \<^verbatim>\<open>Delete\<close> returns nil.
\<close>

theorem single_node_never_commits:
  assumes "fresh_system cfg sys0" "peers (sys_node sys0) = []" "commitIndex (sys_node sys0) = 0" "lastApplied (sys_node sys0) = 0"
    and "list_all alone evs" "kv_run ops evs sys0 = Some sys"
  shows "commitIndex (sys_node sys) = 0 \<and> sys_handled sys = [] \<and> sys_clients sys c \<noteq> Some (Returned cmd None)
    \<and> (\<forall>t ci ps. sendHeartbeats (sys_node sys) = Some (t, ci, ps) \<longrightarrow> ps = [])"
proof -
  have "stuck sys0" using assms(1-4) by (auto simp: stuck_def fresh_system_def)
  then have st: "stuck sys" using assms(5,6)
    by (induction evs arbitrary: sys0) (auto split: option.splits intro: stuck_exec)
  then have h: "sys_handled sys = []" by (simp add: stuck_def)
  have "sys_clients sys c \<noteq> Some (Returned cmd None)"
    using clients_invD [OF clients_inv_run [OF fresh_clients_inv [OF assms(1)] assms(6)]] h by (fastforce simp: has_done_def)
  with st show ?thesis by (auto simp: stuck_def sendHeartbeats_def split: if_splits)
qed

definition one_node :: "MemoryStorage RaftNode" where
  "one_node = (case NewRaftNode mem_ops (DefaultRaftConfig ''a'' [] [''a'' \<mapsto> ''ha''] (Some NewMemoryStorage) (Some ())) of Inr rn \<Rightarrow> rn)"

definition one_start :: "MemoryStorage kv_system" where
  "one_start = \<lparr>sys_kv = idle_server, sys_node = one_node, sys_inbox = [], sys_handled = [], sys_clients = Map.empty\<rparr>"

definition one_events :: "kv_event list" where
  "one_events = [NodeTimeout, NodeFinish 1 1, CallPut 0 ''x'' ''y'', Submit 0, NodeApply, Await 0 TimedOut]"

lemma one_eval: "case kv_run mem_ops one_events one_start of None \<Rightarrow> False
    | Some sys \<Rightarrow> nstate (sys_node sys) = Leader
        \<and> sys_clients sys 0 = Some (Returned ((put_command ''x'' ''y'')\<lparr>cmd_RequestID := 1\<rparr>) (Some KVTimeout))"
  by (simp add: one_events_def one_start_def one_node_def idle_server_def set_raft_def start_client_def forget_def
      put_command_def propose_register_def propose_submit_def propose_wait_def startElection_finish_def demo_defs)

theorem single_node_never_commits_witness:
  "\<exists>sys. kv_run mem_ops one_events one_start = Some sys \<and> nstate (sys_node sys) = Leader \<and> commitIndex (sys_node sys) = 0
     \<and> sys_clients sys 0 = Some (Returned ((put_command ''x'' ''y'')\<lparr>cmd_RequestID := 1\<rparr>) (Some KVTimeout))"
proof -
  obtain sys where s: "kv_run mem_ops one_events one_start = Some sys" "nstate (sys_node sys) = Leader"
    "sys_clients sys 0 = Some (Returned ((put_command ''x'' ''y'')\<lparr>cmd_RequestID := 1\<rparr>) (Some KVTimeout))"
    using one_eval by (auto split: option.splits)
  have f: "fresh_system \<lparr>kvc_Raft = Some one_node, kvc_Storage = Some NewMemoryStorage, kvc_OperationTimeout = 0\<rparr> one_start"
    by (simp add: fresh_system_def NewKVServer_def one_start_def idle_server_def KVServer_Start_def Let_def)
  have n: "peers (sys_node one_start) = []" "commitIndex (sys_node one_start) = 0" "lastApplied (sys_node one_start) = 0"
    by (simp_all add: one_start_def one_node_def demo_defs)
  have "list_all alone one_events" by (simp add: one_events_def)
  from single_node_never_commits [OF f n this s(1)] s show ?thesis by blast
qed

section \<open>Edges of the fault model\<close>

text \<open>A storage that cannot append.\<close>

definition full_ops :: "MemoryStorage storage_ops" where
  "full_ops = mem_ops\<lparr>op_AppendLogEntries := (\<lambda>s es. (s, Some (ErrBackend ''no space left'')))\<rparr>"

text \<open>
  A failed no-op lets a node vote twice: a candidate that wins its election but cannot append the
  no-op steps down to its own term, which forgets and overwrites the vote it cast for itself, and
  then grants its vote in the same term to another candidate.
\<close>

theorem failed_noop_votes_twice:
  "\<exists>rn1 rn2 rn3 resp. startElection_begin full_ops coll_node = (rn1, Some (1, 0, 0))
     \<and> raftState (rn_storage rn1) = Some \<lparr>ps_CurrentTerm = 1, ps_VotedFor = ''b''\<rparr>
     \<and> sendRequestVote_resp full_ops rn1 1 1 \<lparr>rvr_Term = 1, rvr_VoteGranted = True\<rparr> = (rn2, 2)
     \<and> HandleRequestVote full_ops rn2 \<lparr>rv_Term = 1, rv_CandidateId = ''c'', rv_LastLogIndex = 0, rv_LastLogTerm = 0\<rparr> = (rn3, resp)
     \<and> rvr_VoteGranted resp \<and> raftState (rn_storage rn3) = Some \<lparr>ps_CurrentTerm = 1, ps_VotedFor = ''c''\<rparr>"
  by (simp add: full_ops_def coll_node_def coll_cfg_def demo_defs)

text \<open>
  A stale signal silences a leader: stepping down as a follower leaves a token in
  \<^verbatim>\<open>stepDownCh\<close>; when the node is elected later, its new \<^verbatim>\<open>leaderLoop\<close> can take the
  token and end, and the node remains leader with no loop left to send heartbeats.
\<close>

theorem stale_step_down_signal:
  "\<exists>rn1 rn2 rn3. HandleRequestVote mem_ops coll_node vote_req = (rn1, \<lparr>rvr_Term = 3, rvr_VoteGranted = True\<rparr>)
     \<and> startElection_begin mem_ops rn1 = (rn2, Some (4, 0, 0))
     \<and> sendRequestVote_resp mem_ops rn2 4 1 \<lparr>rvr_Term = 4, rvr_VoteGranted = True\<rparr> = (rn3, 2)
     \<and> IsLeader rn3 \<and> leaderLoop_enabled rn3 StepDownSignal
     \<and> IsLeader (fst (leaderLoop_step rn3 StepDownSignal))
     \<and> (\<forall>ev. \<not> leaderLoop_enabled (fst (leaderLoop_step rn3 StepDownSignal)) ev)"
  by (simp add: coll_node_def coll_cfg_def vote_req_def leaderLoop_enabled_def leaderLoop_step_def IsLeader_def demo_defs)

end
