(* ===== verification/HTTP_Handler.thy ===== *)
theory HTTP_Handler
  imports KV_Server JSON_Objects
begin

text \<open>
  \<^verbatim>\<open>internal/server/http_handler.go\<close>: the REST API. A handler that calls the key-value server
  is split at the call: the first part tells which call is made, or answers at once; the second part
  makes the answer from the result of the call. Bodies are the exact bytes that
  \<^verbatim>\<open>encoding/json\<close> writes for the response structs. The HTTP client that forwards requests is a
  parameter: it returns the leader's response, or \<open>None\<close> when it fails.
\<close>

section \<open>Requests and responses\<close>

text \<open>\<open>r_BodyErr\<close> says that reading fails after the bytes of \<open>r_Body\<close>.\<close>

record HTTPRequest =
  r_Method :: string
  r_Path :: string
  r_RawQuery :: string
  r_Headers :: "(string \<times> string) list"
  r_Body :: bytes
  r_BodyErr :: bool

record HTTPResponse =
  w_Status :: nat
  w_Headers :: "(string \<times> string) list"
  w_Body :: bytes

definition MaxRequestBodySize :: nat where
  "MaxRequestBodySize = 2 ^ 20"

record HTTPHandler =
  peerHTTPAddrs :: "(node_id \<rightharpoonup> string) option"
  h_nodeID :: node_id

text \<open>The handler's node is only asked for its ID when a request is forwarded.\<close>

definition NewHTTPHandlerWithConfig :: "(node_id \<rightharpoonup> string) option \<Rightarrow> 's RaftNode \<Rightarrow> HTTPHandler" where
  "NewHTTPHandlerWithConfig addrs rn = \<lparr>peerHTTPAddrs = addrs, h_nodeID = RaftNode_ID rn\<rparr>"

definition NewHTTPHandler :: "'s RaftNode \<Rightarrow> HTTPHandler" where
  "NewHTTPHandler rn = NewHTTPHandlerWithConfig None rn"

datatype http_route = RouteKV | RouteClusterInfo | RouteHealth | RouteMetrics

definition http_routes :: "(string \<times> http_route) list" where
  "http_routes = [(''/kv/'', RouteKV), (''/cluster/info'', RouteClusterInfo), (''/health'', RouteHealth),
     (''/metrics'', RouteMetrics)]"

record ErrorResponse =
  er_Error :: string
  er_LeaderID :: string

record GetResponse =
  gr_Key :: string
  gr_Value :: string
  gr_Found :: bool
  gr_Encoding :: string

record ClusterInfoResponse =
  ci_LeaderID :: string
  ci_NodeID :: string
  ci_State :: string
  ci_Term :: int64

record HealthResponse =
  hr_Status :: string
  hr_IsLeader :: bool
  hr_LeaderID :: string

section \<open>Response bodies\<close>

definition ErrorResponse_json :: "ErrorResponse \<Rightarrow> string" where
  "ErrorResponse_json e =
     json_object ([json_member ''error'' (json_quote (er_Error e))] @ omitempty ''leader_id'' (er_LeaderID e))"

definition GetResponse_json :: "GetResponse \<Rightarrow> string" where
  "GetResponse_json g =
     json_object ([json_member ''key'' (json_quote (gr_Key g))] @ omitempty ''value'' (gr_Value g)
       @ [json_member ''found'' (json_bool (gr_Found g))] @ omitempty ''encoding'' (gr_Encoding g))"

text \<open>\<^verbatim>\<open>PutResponse\<close> and \<^verbatim>\<open>DeleteResponse\<close> have the same single field.\<close>

definition SuccessResponse_json :: "bool \<Rightarrow> string" where
  "SuccessResponse_json b = json_object [json_member ''success'' (json_bool b)]"

definition ClusterInfoResponse_json :: "ClusterInfoResponse \<Rightarrow> string" where
  "ClusterInfoResponse_json c =
     json_object [json_member ''leader_id'' (json_quote (ci_LeaderID c)), json_member ''node_id'' (json_quote (ci_NodeID c)),
       json_member ''state'' (json_quote (ci_State c)), json_member ''term'' (dec_int (ci_Term c))]"

definition HealthResponse_json :: "HealthResponse \<Rightarrow> string" where
  "HealthResponse_json h =
     json_object [json_member ''status'' (json_quote (hr_Status h)), json_member ''is_leader'' (json_bool (hr_IsLeader h)),
       json_member ''leader_id'' (json_quote (hr_LeaderID h))]"

text \<open>The encoder ends the value with a newline; \<open>hs\<close> are headers that were set before.\<close>

definition writeJSON :: "(string \<times> string) list \<Rightarrow> nat \<Rightarrow> string \<Rightarrow> HTTPResponse" where
  "writeJSON hs status v =
     \<lparr>w_Status = status, w_Headers = hs @ [(''Content-Type'', ''application/json'')], w_Body = v @ [chr_of 10]\<rparr>"

definition writeError :: "(string \<times> string) list \<Rightarrow> nat \<Rightarrow> string \<Rightarrow> string \<Rightarrow> HTTPResponse" where
  "writeError hs status message leaderID =
     writeJSON hs status (ErrorResponse_json \<lparr>er_Error = message, er_LeaderID = leaderID\<rparr>)"

section \<open>Errors\<close>

fun storage_error_string :: "storage_error \<Rightarrow> string" where
  "storage_error_string ErrKeyNotFound = ''key not found''"
| "storage_error_string ErrLogNotFound = ''log entry not found''"
| "storage_error_string ErrNoSnapshot = ''no snapshot available''"
| "storage_error_string ErrStorageClosed = ''storage is closed''"
| "storage_error_string (ErrBackend e) = e"

fun raft_error_string :: "raft_error \<Rightarrow> string" where
  "raft_error_string (ErrConfig e) = e"
| "raft_error_string (ErrNotLeaderWithHint l a) = ErrNotLeaderWithHint_Error l"
| "raft_error_string (ErrStorage e) = storage_error_string e"
| "raft_error_string (ErrRestoreFailed e) = ''failed to restore state: '' @ storage_error_string e"
| "raft_error_string ErrAlreadyStarted = ''raft node already started''"

fun kv_error_string :: "kv_error \<Rightarrow> string" where
  "kv_error_string (KVNotLeaderWithHint l a) = KVNotLeader_Error l"
| "kv_error_string KVTimeout = ''operation timed out''"
| "kv_error_string KVServerClosed = ''server closed''"
| "kv_error_string (KVContext e) = e"
| "kv_error_string (KVRaft e) = raft_error_string e"
| "kv_error_string (KVStorage e) = storage_error_string e"
| "kv_error_string KVNilCommand = ''nil command''"
| "kv_error_string KVUnknownCommand = ''unknown command type''"

definition handleError :: "kv_error \<Rightarrow> HTTPResponse" where
  "handleError err =
     (case err of
        KVNotLeaderWithHint l a \<Rightarrow>
          writeError (if a \<noteq> [] then [(''X-Raft-Leader-ID'', l), (''X-Raft-Leader-Addr'', a)] else [])
            503 (KVNotLeader_Error l) l
      | KVTimeout \<Rightarrow> writeError [] 504 ''operation timed out'' []
      | KVServerClosed \<Rightarrow> writeError [] 503 ''server is shutting down'' []
      | _ \<Rightarrow> writeError [] 500 (kv_error_string err) [])"

section \<open>Query parameters\<close>

text \<open>\<^verbatim>\<open>url.QueryUnescape\<close>: plus is a space, and a percent sign needs two hexadecimal digits.\<close>

fun query_unescape :: "string \<Rightarrow> string option" where
  "query_unescape [] = Some []"
| "query_unescape (c # cs) =
     (if c = CHR ''%'' then
        (case cs of
           p # q # rest \<Rightarrow>
             (case (hex_val p, hex_val q, query_unescape rest) of
                (Some a, Some b, Some r) \<Rightarrow> Some (chr_of (a * 16 + b) # r)
              | _ \<Rightarrow> None)
         | _ \<Rightarrow> None)
      else map_option ((#) (if c = CHR ''+'' then CHR '' '' else c)) (query_unescape cs))"

fun split_at :: "char \<Rightarrow> string \<Rightarrow> string list" where
  "split_at d [] = [[]]"
| "split_at d (c # cs) =
     (if c = d then [] # split_at d cs
      else case split_at d cs of [] \<Rightarrow> [[c]] | w # ws \<Rightarrow> (c # w) # ws)"

text \<open>One \<^verbatim>\<open>key=value\<close> pair; malformed pairs are dropped.\<close>

definition query_pair :: "string \<Rightarrow> (string \<times> string) option" where
  "query_pair s =
     (if s = [] \<or> CHR '';'' \<in> set s then None
      else let k = takeWhile (\<lambda>c. c \<noteq> CHR ''='') s; v = drop 1 (dropWhile (\<lambda>c. c \<noteq> CHR ''='') s)
           in case (query_unescape k, query_unescape v) of (Some k', Some v') \<Rightarrow> Some (k', v') | _ \<Rightarrow> None)"

definition query_get :: "string \<Rightarrow> string \<Rightarrow> string" where
  "query_get raw name = go_get_str (map_of (List.map_filter query_pair (split_at (CHR ''&'') raw))) name"

section \<open>Handlers\<close>

datatype kv_call =
    Answer HTTPResponse
  | DoGet string bool
  | DoPut string bytes
  | DoDelete string

definition trim_prefix :: "string \<Rightarrow> string \<Rightarrow> string" where
  "trim_prefix p s = (case strip_prefix p s of Some r \<Rightarrow> r | None \<Rightarrow> s)"

text \<open>The body is read through a reader that fails when more than the limit is sent.\<close>

definition handlePut_begin :: "HTTPRequest \<Rightarrow> string \<Rightarrow> kv_call" where
  "handlePut_begin r key =
     (if length (r_Body r) > MaxRequestBodySize then Answer (writeError [] 413 ''request body too large'' [])
      else if r_BodyErr r then Answer (writeError [] 400 ''failed to read body'' [])
      else DoPut key (r_Body r))"

definition handleKV_begin :: "HTTPRequest \<Rightarrow> kv_call" where
  "handleKV_begin r =
     (let key = trim_prefix ''/kv/'' (r_Path r)
      in if key = [] then Answer (writeError [] 400 ''key is required'' [])
         else if r_Method r = ''GET'' then DoGet key (query_get (r_RawQuery r) ''linearizable'' = ''true'')
         else if r_Method r = ''PUT'' then handlePut_begin r key
         else if r_Method r = ''DELETE'' then DoDelete key
         else Answer (writeError [] 405 ''method not allowed'' []))"

definition get_response :: "string \<Rightarrow> bytes \<Rightarrow> bool \<Rightarrow> GetResponse" where
  "get_response key val found =
     (if \<not> found then \<lparr>gr_Key = key, gr_Value = [], gr_Found = False, gr_Encoding = []\<rparr>
      else if utf8_valid val then \<lparr>gr_Key = key, gr_Value = val, gr_Found = True, gr_Encoding = []\<rparr>
      else \<lparr>gr_Key = key, gr_Value = b64_encode val, gr_Found = True, gr_Encoding = ''base64''\<rparr>)"

definition handleGet_end :: "string \<Rightarrow> kv_error + bytes \<times> bool \<Rightarrow> HTTPResponse" where
  "handleGet_end key result =
     (case result of
        Inl err \<Rightarrow> handleError err
      | Inr (val, found) \<Rightarrow> writeJSON [] 200 (GetResponse_json (get_response key val found)))"

definition header_get :: "(string \<times> string) list \<Rightarrow> string \<Rightarrow> string" where
  "header_get hs name = go_get_str (map_of hs) name"

text \<open>The request that is sent to the leader; \<open>None\<close> when the error does not call for forwarding.\<close>

definition forward_request :: "HTTPHandler \<Rightarrow> HTTPRequest \<Rightarrow> bytes \<Rightarrow> kv_error \<Rightarrow> (string \<times> HTTPRequest) option" where
  "forward_request h r body err =
     (case err of
        KVNotLeaderWithHint l a \<Rightarrow>
          (case peerHTTPAddrs h of
             None \<Rightarrow> None
           | Some addrs \<Rightarrow>
               if l = [] then None
               else case addrs l of
                 None \<Rightarrow> None
               | Some leaderHTTPAddr \<Rightarrow>
                   if leaderHTTPAddr = [] then None
                   else
                     let forwardURL = ''http://'' @ leaderHTTPAddr @ r_Path r
                           @ (if r_RawQuery r \<noteq> [] then CHR ''?'' # r_RawQuery r else [])
                     in Some (forwardURL, \<lparr>r_Method = r_Method r, r_Path = r_Path r, r_RawQuery = r_RawQuery r,
                          r_Headers = [(''Content-Type'', header_get (r_Headers r) ''Content-Type''),
                                       (''X-Forwarded-From'', h_nodeID h)],
                          r_Body = body, r_BodyErr = False\<rparr>))
      | _ \<Rightarrow> None)"

definition tryForwardToLeader ::
    "(string \<Rightarrow> HTTPRequest \<Rightarrow> HTTPResponse option) \<Rightarrow> HTTPHandler \<Rightarrow> HTTPRequest \<Rightarrow> bytes \<Rightarrow> kv_error \<Rightarrow> HTTPResponse option" where
  "tryForwardToLeader client h r body err =
     (case forward_request h r body err of None \<Rightarrow> None | Some (url, fr) \<Rightarrow> client url fr)"

text \<open>The second half of \<^verbatim>\<open>handlePut\<close> and, with an empty body, of \<^verbatim>\<open>handleDelete\<close>.\<close>

definition handleWrite_end ::
    "(string \<Rightarrow> HTTPRequest \<Rightarrow> HTTPResponse option) \<Rightarrow> HTTPHandler \<Rightarrow> HTTPRequest \<Rightarrow> bytes \<Rightarrow> kv_error option \<Rightarrow> HTTPResponse" where
  "handleWrite_end client h r body result =
     (case result of
        None \<Rightarrow> writeJSON [] 200 (SuccessResponse_json True)
      | Some err \<Rightarrow>
          (case tryForwardToLeader client h r body err of
             Some resp \<Rightarrow> resp
           | None \<Rightarrow> handleError err))"

definition handleClusterInfo :: "'s RaftNode \<Rightarrow> HTTPRequest \<Rightarrow> HTTPResponse" where
  "handleClusterInfo rn r =
     (if r_Method r \<noteq> ''GET'' then writeError [] 405 ''method not allowed'' []
      else writeJSON [] 200 (ClusterInfoResponse_json \<lparr>ci_LeaderID = RaftNode_LeaderID rn, ci_NodeID = RaftNode_ID rn,
             ci_State = NodeState_String (RaftNode_State rn), ci_Term = RaftNode_Term rn\<rparr>))"

definition handleHealth :: "'s RaftNode \<Rightarrow> HTTPRequest \<Rightarrow> HTTPResponse" where
  "handleHealth rn r =
     (if r_Method r \<noteq> ''GET'' then writeError [] 405 ''method not allowed'' []
      else writeJSON [] 200 (HealthResponse_json \<lparr>hr_Status = ''ok'', hr_IsLeader = IsLeader rn,
             hr_LeaderID = RaftNode_LeaderID rn\<rparr>))"

text \<open>A whole \<^verbatim>\<open>/kv/\<close> request, given what the key-value server answers.\<close>

definition handleKV ::
    "(string \<Rightarrow> HTTPRequest \<Rightarrow> HTTPResponse option) \<Rightarrow> HTTPHandler \<Rightarrow> (string \<Rightarrow> bool \<Rightarrow> kv_error + bytes \<times> bool) \<Rightarrow>
     (string \<Rightarrow> bytes \<Rightarrow> kv_error option) \<Rightarrow> (string \<Rightarrow> kv_error option) \<Rightarrow> HTTPRequest \<Rightarrow> HTTPResponse" where
  "handleKV client h kvGet kvPut kvDelete r =
     (case handleKV_begin r of
        Answer resp \<Rightarrow> resp
      | DoGet key lin \<Rightarrow> handleGet_end key (kvGet key lin)
      | DoPut key body \<Rightarrow> handleWrite_end client h r body (kvPut key body)
      | DoDelete key \<Rightarrow> handleWrite_end client h r [] (kvDelete key))"

section \<open>What a client reads\<close>

text \<open>
  A client of the API: the value of a \<^verbatim>\<open>GET\<close> response is the field \<^verbatim>\<open>value\<close>, empty when
  absent, which is base64 when the field \<^verbatim>\<open>encoding\<close> says so.
\<close>

definition client_value :: "bytes \<Rightarrow> bytes option option" where
  "client_value body =
     (case parse_json body of
        Some (JObj ms) \<Rightarrow>
          if map_of ms ''found'' = Some (JBool True) then
            let v = (case map_of ms ''value'' of Some (JStr s) \<Rightarrow> s | _ \<Rightarrow> [])
            in map_option Some (if map_of ms ''encoding'' = Some (JStr ''base64'') then b64_DecodeString v else Some v)
          else Some None
      | _ \<Rightarrow> None)"

lemma utf8_valid_ascii: "\<forall>c\<in>set s. code c < 128 \<Longrightarrow> utf8_valid s"
  by (induction s) auto

lemma utf8_valid_b64: "utf8_valid (b64_encode bs)"
  by (rule utf8_valid_ascii) (use b64_encode_chars [of bs] in fastforce)

text \<open>The members of a response to \<^verbatim>\<open>GET\<close>.\<close>

definition get_members :: "GetResponse \<Rightarrow> (string \<times> string \<times> json) list" where
  "get_members g = [(''key'', json_quote (gr_Key g), JStr (gr_Key g))]
     @ (if gr_Value g = [] then [] else [(''value'', json_quote (gr_Value g), JStr (gr_Value g))])
     @ [(''found'', json_bool (gr_Found g), JBool (gr_Found g))]
     @ (if gr_Encoding g = [] then [] else [(''encoding'', json_quote (gr_Encoding g), JStr (gr_Encoding g))])"

lemma GetResponse_json_members:
  "GetResponse_json g = json_object (map (\<lambda>(k, tx, v). json_member k tx) (get_members g))"
  by (simp add: GetResponse_json_def get_members_def omitempty_def)

lemma parse_GetResponse:
  assumes "utf8_valid (gr_Key g)" "utf8_valid (gr_Value g)" "utf8_valid (gr_Encoding g)"
  shows "parse_json (GetResponse_json g @ [chr_of 10]) = Some (JObj (map (\<lambda>(k, tx, v). (k, v)) (get_members g)))"
  unfolding GetResponse_json_members
proof (rule parse_json_object)
  have n: "utf8_valid ''key''" "utf8_valid ''value''" "utf8_valid ''found''" "utf8_valid ''encoding''"
    by (rule utf8_valid_ascii; simp add: code_def)+
  show "\<forall>(k, tx, v)\<in>set (get_members g). utf8_valid k \<and> reads_as tx v"
    using n assms by (auto simp: get_members_def reads_as_quote reads_as_bool simp del: utf8_valid.simps)
qed (simp_all add: get_members_def skip_ws_def is_space_def)

text \<open>
  C31. Reads are lossless: from the body of a successful \<^verbatim>\<open>GET\<close> a client recovers exactly the
  bytes the server returned, text or binary, and can tell a missing key from an empty value.
\<close>

theorem get_body_roundtrip:
  assumes "utf8_valid key"
  shows "client_value (w_Body (handleGet_end key (Inr (val, found)))) = Some (if found then Some val else None)"
proof -
  let ?g = "get_response key val found"
  have "utf8_valid (gr_Key ?g)" "utf8_valid (gr_Value ?g)" "utf8_valid (gr_Encoding ?g)"
    using assms utf8_valid_b64 [of val] by (simp_all add: get_response_def code_def)
  from parse_GetResponse [OF this]
  have p: "parse_json (w_Body (handleGet_end key (Inr (val, found)))) = Some (JObj (map (\<lambda>(k, tx, v). (k, v)) (get_members ?g)))"
    by (simp add: handleGet_end_def writeJSON_def)
  have "b64_encode val = [] \<longleftrightarrow> val = []" by (cases val rule: b64_encode.cases) auto
  then show ?thesis unfolding client_value_def p
    by (auto simp: get_members_def get_response_def)
qed

theorem get_body_roundtrip_witness:
  "client_value (w_Body (handleGet_end ''k'' (Inr ([chr_of 255, chr_of 0], True)))) = Some (Some [chr_of 255, chr_of 0])"
  using get_body_roundtrip [of "''k''" "[chr_of 255, chr_of 0]" True] by (simp add: code_def)

section \<open>What reaches the key-value server\<close>

text \<open>
  Writes are guarded: the handler calls \<^verbatim>\<open>Put\<close> exactly for \<^verbatim>\<open>PUT\<close> requests with a
  non-empty key whose body was read completely and has at most 1 MiB, with that key and the whole
  body; every other request leaves the store alone or is a \<^verbatim>\<open>DELETE\<close>.
\<close>

theorem put_guarded:
  "handleKV_begin r = DoPut key body \<longleftrightarrow>
     r_Method r = ''PUT'' \<and> key = trim_prefix ''/kv/'' (r_Path r) \<and> key \<noteq> [] \<and> \<not> r_BodyErr r
     \<and> body = r_Body r \<and> length body \<le> 1048576"
  by (auto simp: handleKV_begin_def handlePut_begin_def Let_def MaxRequestBodySize_def split: if_splits)


definition sample_request :: HTTPRequest where
  "sample_request = \<lparr>r_Method = ''PUT'', r_Path = ''/kv/k'', r_RawQuery = [], r_Headers = [], r_Body = ''v'', r_BodyErr = False\<rparr>"


section \<open>Forwarding\<close>

text \<open>
  Forwarding is not protected against loops: the header that marks a forwarded request is never
  looked at, so two nodes that take each other for the leader forward a request back and forth; the
  request that comes back equals the one that was sent but for the marker.
\<close>

theorem forward_loop:
  "\<exists>ra rb. forward_request \<lparr>peerHTTPAddrs = Some [''a'' \<mapsto> ''a:8080'', ''b'' \<mapsto> ''b:8080''], h_nodeID = ''a''\<rparr> sample_request
        ''v'' (KVNotLeaderWithHint ''b'' ''hb'') = Some (''http://b:8080/kv/k'', ra)
     \<and> header_get (r_Headers ra) ''X-Forwarded-From'' = ''a''
     \<and> forward_request \<lparr>peerHTTPAddrs = Some [''a'' \<mapsto> ''a:8080'', ''b'' \<mapsto> ''b:8080''], h_nodeID = ''b''\<rparr> ra
        (r_Body ra) (KVNotLeaderWithHint ''a'' ''ha'') = Some (''http://a:8080/kv/k'', rb)
     \<and> forward_request \<lparr>peerHTTPAddrs = Some [''a'' \<mapsto> ''a:8080'', ''b'' \<mapsto> ''b:8080''], h_nodeID = ''a''\<rparr> rb
        (r_Body rb) (KVNotLeaderWithHint ''b'' ''hb'') = Some (''http://b:8080/kv/k'', ra)"
  by (simp add: forward_request_def sample_request_def header_get_def go_get_str_def Let_def)

end
