(* ===== verification/Configuration.thy ===== *)
theory Configuration
  imports Raft_Election KV_Server
begin

text \<open>
  How a process is configured: the builder and the option functions of
  \<^verbatim>\<open>internal/raft/config.go\<close> and \<^verbatim>\<open>internal/server/config.go\<close>, the configuration
  file of \<^verbatim>\<open>pkg/config/config.go\<close>, and the helpers and the wiring of
  \<^verbatim>\<open>cmd/server/main.go\<close>. The configuration library viper is a parameter. Loggers have no
  effect on the state and are left out.
\<close>

section \<open>The configuration of a Raft node\<close>

text \<open>The builder owns one configuration; the setters copy their arguments into it.\<close>

record 's RaftConfigBuilder =
  bld_config :: "'s RaftConfig"

definition base_config :: "node_id \<Rightarrow> 's RaftConfig" where
  "base_config i = \<lparr>cfg_ID = i, cfg_Peers = [], cfg_PeerAddrs = Map.empty, cfg_Storage = None,
     cfg_Transport = None, cfg_ApplyCh = None,
     cfg_ElectionTimeoutMin = DefaultElectionTimeoutMin, cfg_ElectionTimeoutMax = DefaultElectionTimeoutMax,
     cfg_HeartbeatInterval = DefaultHeartbeatInterval\<rparr>"

definition NewRaftConfigBuilder :: "node_id \<Rightarrow> 's RaftConfigBuilder" where
  "NewRaftConfigBuilder i = \<lparr>bld_config = base_config i\<rparr>"

definition WithPeers :: "node_id list \<Rightarrow> 's RaftConfigBuilder \<Rightarrow> 's RaftConfigBuilder" where
  "WithPeers ps b = b\<lparr>bld_config := (bld_config b)\<lparr>cfg_Peers := ps\<rparr>\<rparr>"

definition WithPeerAddrs :: "(node_id \<rightharpoonup> string) \<Rightarrow> 's RaftConfigBuilder \<Rightarrow> 's RaftConfigBuilder" where
  "WithPeerAddrs addrs b = b\<lparr>bld_config := (bld_config b)\<lparr>cfg_PeerAddrs := addrs\<rparr>\<rparr>"

definition WithStorage :: "'s option \<Rightarrow> 's RaftConfigBuilder \<Rightarrow> 's RaftConfigBuilder" where
  "WithStorage s b = b\<lparr>bld_config := (bld_config b)\<lparr>cfg_Storage := s\<rparr>\<rparr>"

definition WithTransport :: "unit option \<Rightarrow> 's RaftConfigBuilder \<Rightarrow> 's RaftConfigBuilder" where
  "WithTransport t b = b\<lparr>bld_config := (bld_config b)\<lparr>cfg_Transport := t\<rparr>\<rparr>"

definition WithApplyCh :: "nat option \<Rightarrow> 's RaftConfigBuilder \<Rightarrow> 's RaftConfigBuilder" where
  "WithApplyCh ch b = b\<lparr>bld_config := (bld_config b)\<lparr>cfg_ApplyCh := ch\<rparr>\<rparr>"

definition WithElectionTimeout :: "duration \<Rightarrow> duration \<Rightarrow> 's RaftConfigBuilder \<Rightarrow> 's RaftConfigBuilder" where
  "WithElectionTimeout lo hi b =
     b\<lparr>bld_config := (bld_config b)\<lparr>cfg_ElectionTimeoutMin := lo, cfg_ElectionTimeoutMax := hi\<rparr>\<rparr>"

definition WithHeartbeatInterval :: "duration \<Rightarrow> 's RaftConfigBuilder \<Rightarrow> 's RaftConfigBuilder" where
  "WithHeartbeatInterval d b = b\<lparr>bld_config := (bld_config b)\<lparr>cfg_HeartbeatInterval := d\<rparr>\<rparr>"

definition Build :: "'s RaftConfigBuilder \<Rightarrow> string + 's RaftConfig" where
  "Build b =
     (let c = bld_config b
      in if cfg_ID c = [] then Inl ''node ID is required''
         else if cfg_Storage c = None then Inl ''storage is required''
         else if cfg_Transport c = None then Inl ''transport is required''
         else if cfg_ApplyCh c = None then Inl ''apply channel is required''
         else if cfg_ElectionTimeoutMin c \<le> 0 then Inl ''election timeout min must be positive''
         else if cfg_ElectionTimeoutMax c \<le> cfg_ElectionTimeoutMin c
         then Inl ''election timeout max must be greater than min''
         else if cfg_HeartbeatInterval c \<le> 0 then Inl ''heartbeat interval must be positive''
         else if cfg_HeartbeatInterval c \<ge> cfg_ElectionTimeoutMin c
         then Inl ''heartbeat interval must be less than election timeout min''
         else Inr c)"

text \<open>\<^verbatim>\<open>MustBuild\<close> panics (\<open>None\<close>) where \<^verbatim>\<open>Build\<close> fails.\<close>

definition MustBuild :: "'s RaftConfigBuilder \<Rightarrow> 's RaftConfig option" where
  "MustBuild b = (case Build b of Inl _ \<Rightarrow> None | Inr c \<Rightarrow> Some c)"

type_synonym 's RaftOption = "'s RaftConfig \<Rightarrow> 's RaftConfig"

definition WithPeersOption :: "node_id list \<Rightarrow> 's RaftOption" where
  "WithPeersOption ps c = c\<lparr>cfg_Peers := ps\<rparr>"

definition WithPeerAddrsOption :: "(node_id \<rightharpoonup> string) \<Rightarrow> 's RaftOption" where
  "WithPeerAddrsOption addrs c = c\<lparr>cfg_PeerAddrs := addrs\<rparr>"

definition WithStorageOption :: "'s option \<Rightarrow> 's RaftOption" where
  "WithStorageOption s c = c\<lparr>cfg_Storage := s\<rparr>"

definition WithTransportOption :: "unit option \<Rightarrow> 's RaftOption" where
  "WithTransportOption t c = c\<lparr>cfg_Transport := t\<rparr>"

definition WithApplyChOption :: "nat option \<Rightarrow> 's RaftOption" where
  "WithApplyChOption ch c = c\<lparr>cfg_ApplyCh := ch\<rparr>"

definition WithElectionTimeoutOption :: "duration \<Rightarrow> duration \<Rightarrow> 's RaftOption" where
  "WithElectionTimeoutOption lo hi c = c\<lparr>cfg_ElectionTimeoutMin := lo, cfg_ElectionTimeoutMax := hi\<rparr>"

definition WithHeartbeatIntervalOption :: "duration \<Rightarrow> 's RaftOption" where
  "WithHeartbeatIntervalOption d c = c\<lparr>cfg_HeartbeatInterval := d\<rparr>"

definition NewRaftConfig :: "node_id \<Rightarrow> 's RaftOption list \<Rightarrow> string + 's RaftConfig" where
  "NewRaftConfig i opts =
     (let c = foldl (\<lambda>cfg opt. opt cfg) (base_config i) opts
      in if cfg_ID c = [] then Inl ''node ID is required''
         else if cfg_Storage c = None then Inl ''storage is required''
         else if cfg_Transport c = None then Inl ''transport is required''
         else if cfg_ApplyCh c = None then Inl ''apply channel is required''
         else if cfg_ElectionTimeoutMin c \<le> 0 then Inl ''election timeout min must be positive''
         else if cfg_ElectionTimeoutMax c \<le> cfg_ElectionTimeoutMin c
         then Inl ''election timeout max must be greater than min''
         else if cfg_HeartbeatInterval c \<le> 0 then Inl ''heartbeat interval must be positive''
         else if cfg_HeartbeatInterval c \<ge> cfg_ElectionTimeoutMin c
         then Inl ''heartbeat interval must be less than election timeout min''
         else Inr c)"

section \<open>The configuration of a key-value server\<close>

record 's KVServerConfigBuilder =
  kvb_config :: "'s KVServerConfig"

definition base_kv_config :: "'s KVServerConfig" where
  "base_kv_config = \<lparr>kvc_Raft = None, kvc_Storage = None, kvc_OperationTimeout = DefaultOperationTimeout\<rparr>"

definition NewKVServerConfigBuilder :: "'s KVServerConfigBuilder" where
  "NewKVServerConfigBuilder = \<lparr>kvb_config = base_kv_config\<rparr>"

definition KV_WithRaft :: "'s RaftNode option \<Rightarrow> 's KVServerConfigBuilder \<Rightarrow> 's KVServerConfigBuilder" where
  "KV_WithRaft r b = b\<lparr>kvb_config := (kvb_config b)\<lparr>kvc_Raft := r\<rparr>\<rparr>"

definition KV_WithStorage :: "'s option \<Rightarrow> 's KVServerConfigBuilder \<Rightarrow> 's KVServerConfigBuilder" where
  "KV_WithStorage s b = b\<lparr>kvb_config := (kvb_config b)\<lparr>kvc_Storage := s\<rparr>\<rparr>"

definition KV_WithOperationTimeout :: "duration \<Rightarrow> 's KVServerConfigBuilder \<Rightarrow> 's KVServerConfigBuilder" where
  "KV_WithOperationTimeout d b = b\<lparr>kvb_config := (kvb_config b)\<lparr>kvc_OperationTimeout := d\<rparr>\<rparr>"

definition KV_Build :: "'s KVServerConfigBuilder \<Rightarrow> 's KVServerConfig" where
  "KV_Build b = kvb_config b"

type_synonym 's KVServerOption = "'s KVServerConfig \<Rightarrow> 's KVServerConfig"

definition WithRaftOption :: "'s RaftNode option \<Rightarrow> 's KVServerOption" where
  "WithRaftOption r c = c\<lparr>kvc_Raft := r\<rparr>"

definition WithKVStorageOption :: "'s option \<Rightarrow> 's KVServerOption" where
  "WithKVStorageOption s c = c\<lparr>kvc_Storage := s\<rparr>"

definition WithOperationTimeoutOption :: "duration \<Rightarrow> 's KVServerOption" where
  "WithOperationTimeoutOption d c = c\<lparr>kvc_OperationTimeout := d\<rparr>"

definition NewKVServerConfig :: "'s KVServerOption list \<Rightarrow> 's KVServerConfig" where
  "NewKVServerConfig opts = foldl (\<lambda>cfg opt. opt cfg) base_kv_config opts"

section \<open>The configuration file\<close>

record Config =
  NodeID :: string
  DataDir :: string
  RaftAddr :: string
  HTTPAddr :: string
  Peers :: "string list"
  PeerHTTPAddrs :: "(string \<rightharpoonup> string) option"
  ElectionTimeoutMin :: duration
  ElectionTimeoutMax :: duration
  HeartbeatInterval :: duration
  SnapshotThreshold :: int64

definition DefaultConfig :: Config where
  "DefaultConfig = \<lparr>NodeID = ''node1'', DataDir = ''./data'', RaftAddr = '':5000'', HTTPAddr = '':8080'',
     Peers = [], PeerHTTPAddrs = None, ElectionTimeoutMin = 150 * Millisecond,
     ElectionTimeoutMax = 300 * Millisecond, HeartbeatInterval = 50 * Millisecond, SnapshotThreshold = 10000\<rparr>"

text \<open>What \<^verbatim>\<open>Load\<close> uses of viper, after the file was read and the environment bound.\<close>

record viper =
  ReadInConfig :: "string \<Rightarrow> string option"
  IsSet :: "string \<Rightarrow> bool"
  GetString :: "string \<Rightarrow> string"
  GetStringSlice :: "string \<Rightarrow> string list"
  GetStringMapString :: "string \<Rightarrow> (string \<rightharpoonup> string)"
  GetDuration :: "string \<Rightarrow> duration"
  GetInt64 :: "string \<Rightarrow> int64"

definition Load :: "viper \<Rightarrow> string \<Rightarrow> string + Config" where
  "Load v path =
     (case (if path \<noteq> [] then ReadInConfig v path else None) of
        Some err \<Rightarrow> Inl (''failed to read config file: '' @ err)
      | None \<Rightarrow>
          let c0 = DefaultConfig;
              c1 = (if IsSet v ''node_id'' then c0\<lparr>NodeID := GetString v ''node_id''\<rparr> else c0);
              c2 = (if IsSet v ''data_dir'' then c1\<lparr>DataDir := GetString v ''data_dir''\<rparr> else c1);
              c3 = (if IsSet v ''raft_addr'' then c2\<lparr>RaftAddr := GetString v ''raft_addr''\<rparr> else c2);
              c4 = (if IsSet v ''http_addr'' then c3\<lparr>HTTPAddr := GetString v ''http_addr''\<rparr> else c3);
              c5 = (if IsSet v ''peers'' then c4\<lparr>Peers := GetStringSlice v ''peers''\<rparr> else c4);
              c6 = (if IsSet v ''peer_http_addrs''
                    then c5\<lparr>PeerHTTPAddrs := Some (GetStringMapString v ''peer_http_addrs'')\<rparr> else c5);
              c7 = (if IsSet v ''election_timeout_min''
                    then c6\<lparr>ElectionTimeoutMin := GetDuration v ''election_timeout_min''\<rparr> else c6);
              c8 = (if IsSet v ''election_timeout_max''
                    then c7\<lparr>ElectionTimeoutMax := GetDuration v ''election_timeout_max''\<rparr> else c7);
              c9 = (if IsSet v ''heartbeat_interval''
                    then c8\<lparr>HeartbeatInterval := GetDuration v ''heartbeat_interval''\<rparr> else c8);
              c10 = (if IsSet v ''snapshot_threshold''
                     then c9\<lparr>SnapshotThreshold := GetInt64 v ''snapshot_threshold''\<rparr> else c9)
          in Inr c10)"

definition Config_Validate :: "Config \<Rightarrow> string option" where
  "Config_Validate c =
     (if NodeID c = [] then Some ''node_id cannot be empty''
      else if DataDir c = [] then Some ''data_dir cannot be empty''
      else if RaftAddr c = [] then Some ''raft_addr cannot be empty''
      else if HTTPAddr c = [] then Some ''http_addr cannot be empty''
      else if ElectionTimeoutMin c \<le> 0 then Some ''election_timeout_min must be positive''
      else if ElectionTimeoutMax c \<le> ElectionTimeoutMin c
      then Some ''election_timeout_max must be greater than election_timeout_min''
      else if HeartbeatInterval c \<le> 0 then Some ''heartbeat_interval must be positive''
      else if SnapshotThreshold c \<le> 0 then Some ''snapshot_threshold must be positive''
      else None)"

section \<open>Peers\<close>

text \<open>\<^verbatim>\<open>strings.SplitN(s, ":", 2)\<close>: the text before and after the first colon, if there is one.\<close>

definition split_colon :: "string \<Rightarrow> (string \<times> string) option" where
  "split_colon s =
     (case dropWhile (\<lambda>c. c \<noteq> CHR '':'') s of
        [] \<Rightarrow> None
      | _ # port \<Rightarrow> Some (takeWhile (\<lambda>c. c \<noteq> CHR '':'') s, port))"

fun parse_peer_loop ::
    "string list \<Rightarrow> node_id list \<times> (node_id \<rightharpoonup> string) \<Rightarrow> node_id list \<times> (node_id \<rightharpoonup> string)" where
  "parse_peer_loop [] acc = acc"
| "parse_peer_loop (peer # rest) (ids, addrs) =
     (case split_colon peer of
        None \<Rightarrow> parse_peer_loop rest (ids, addrs)
      | Some (peerID, _) \<Rightarrow> parse_peer_loop rest (ids @ [peerID], addrs(peerID \<mapsto> peer)))"

definition parsePeers :: "string list \<Rightarrow> node_id \<Rightarrow> string \<Rightarrow> node_id list \<times> (node_id \<rightharpoonup> string)" where
  "parsePeers ps selfID selfAddr = parse_peer_loop ps ([], [selfID \<mapsto> selfAddr])"

text \<open>The text after the last colon, when there is one.\<close>

definition after_last_colon :: "string \<Rightarrow> string option" where
  "after_last_colon s = (if CHR '':'' \<in> set s then Some (rev (takeWhile (\<lambda>c. c \<noteq> CHR '':'') (rev s))) else None)"

definition derivePeerHTTPAddrs :: "string list \<Rightarrow> node_id \<Rightarrow> string \<Rightarrow> (node_id \<rightharpoonup> string)" where
  "derivePeerHTTPAddrs ps selfID selfHTTPAddr =
     (let httpPort = (case after_last_colon selfHTTPAddr of None \<Rightarrow> ''8080'' | Some p \<Rightarrow> p)
      in foldl (\<lambda>m peer. case split_colon peer of None \<Rightarrow> m
                         | Some (peerID, _) \<Rightarrow> m(peerID \<mapsto> peerID @ '':'' @ httpPort))
           [selfID \<mapsto> selfID @ '':'' @ httpPort] ps)"

section \<open>Wiring\<close>

text \<open>
  What \<^verbatim>\<open>main\<close> builds from a configuration and an opened storage, up to the HTTP handler's
  addresses; an error ends the process.
\<close>

definition main_raft_config :: "Config \<Rightarrow> 's \<Rightarrow> string + 's RaftConfig" where
  "main_raft_config cfg store =
     (case parsePeers (Peers cfg) (NodeID cfg) (RaftAddr cfg) of
        (peerIDs, addrs) \<Rightarrow>
          Build (WithHeartbeatInterval (HeartbeatInterval cfg)
            (WithElectionTimeout (ElectionTimeoutMin cfg) (ElectionTimeoutMax cfg)
            (WithApplyCh (Some 100) (WithTransport (Some ()) (WithStorage (Some store)
            (WithPeerAddrs addrs (WithPeers peerIDs (NewRaftConfigBuilder (NodeID cfg))))))))))"

definition main_setup ::
    "'s storage_ops \<Rightarrow> Config \<Rightarrow> 's \<Rightarrow> string + 's RaftNode \<times> KVServer \<times> (node_id \<rightharpoonup> string)" where
  "main_setup ops cfg store =
     (case Config_Validate cfg of
        Some err \<Rightarrow> Inl err
      | None \<Rightarrow>
          (case main_raft_config cfg store of
             Inl err \<Rightarrow> Inl err
           | Inr rc \<Rightarrow>
               (case NewRaftNode ops rc of
                  Inl _ \<Rightarrow> Inl ''Failed to create Raft node''
                | Inr rn \<Rightarrow>
                    (case NewKVServer (Some \<lparr>kvc_Raft = Some rn, kvc_Storage = Some store,
                               kvc_OperationTimeout = 10000 * Millisecond\<rparr>) of
                       Inl err \<Rightarrow> Inl err
                     | Inr kv \<Rightarrow>
                         Inr (rn, kv, case PeerHTTPAddrs cfg of Some m \<Rightarrow> m
                              | None \<Rightarrow> derivePeerHTTPAddrs (Peers cfg) (NodeID cfg) (HTTPAddr cfg))))))"

section \<open>Two ways to configure a node\<close>

text \<open>One setting, applied through the builder or as an option.\<close>

datatype 's setting =
    SetPeers "node_id list"
  | SetPeerAddrs "node_id \<rightharpoonup> string"
  | SetStorage "'s option"
  | SetTransport "unit option"
  | SetApplyCh "nat option"
  | SetElectionTimeout duration duration
  | SetHeartbeatInterval duration

fun with_setting :: "'s RaftConfigBuilder \<Rightarrow> 's setting \<Rightarrow> 's RaftConfigBuilder" where
  "with_setting b (SetPeers ps) = WithPeers ps b"
| "with_setting b (SetPeerAddrs m) = WithPeerAddrs m b"
| "with_setting b (SetStorage s) = WithStorage s b"
| "with_setting b (SetTransport t) = WithTransport t b"
| "with_setting b (SetApplyCh ch) = WithApplyCh ch b"
| "with_setting b (SetElectionTimeout lo hi) = WithElectionTimeout lo hi b"
| "with_setting b (SetHeartbeatInterval d) = WithHeartbeatInterval d b"

fun option_setting :: "'s setting \<Rightarrow> 's RaftOption" where
  "option_setting (SetPeers ps) = WithPeersOption ps"
| "option_setting (SetPeerAddrs m) = WithPeerAddrsOption m"
| "option_setting (SetStorage s) = WithStorageOption s"
| "option_setting (SetTransport t) = WithTransportOption t"
| "option_setting (SetApplyCh ch) = WithApplyChOption ch"
| "option_setting (SetElectionTimeout lo hi) = WithElectionTimeoutOption lo hi"
| "option_setting (SetHeartbeatInterval d) = WithHeartbeatIntervalOption d"

lemmas builder_defs = WithPeers_def WithPeerAddrs_def WithStorage_def WithTransport_def WithApplyCh_def
  WithElectionTimeout_def WithHeartbeatInterval_def
lemmas option_defs = WithPeersOption_def WithPeerAddrsOption_def WithStorageOption_def WithTransportOption_def
  WithApplyChOption_def WithElectionTimeoutOption_def WithHeartbeatIntervalOption_def

lemma with_setting_option: "bld_config (with_setting b x) = option_setting x (bld_config b)"
  by (cases x) (simp_all add: builder_defs option_defs)

lemma with_settings_option:
  "bld_config (foldl with_setting b xs) = foldl (\<lambda>cfg opt. opt cfg) (bld_config b) (map option_setting xs)"
  by (induction xs arbitrary: b) (simp_all add: with_setting_option)

text \<open>
  The builder and the functional options are the same configuration language: any sequence of
  settings gives the same configuration, or the same error, through either interface.
\<close>

theorem builder_options_agree:
  "NewRaftConfig i (map option_setting xs) = Build (foldl with_setting (NewRaftConfigBuilder i) xs)"
  by (simp add: NewRaftConfig_def Build_def with_settings_option NewRaftConfigBuilder_def)

section \<open>Timeouts\<close>

lemma Build_timing:
  assumes "Build b = Inr c"
  shows "c = bld_config b" "0 < cfg_HeartbeatInterval c" "cfg_HeartbeatInterval c < cfg_ElectionTimeoutMin c"
    "cfg_ElectionTimeoutMin c < cfg_ElectionTimeoutMax c"
  using assms by (auto simp: Build_def Let_def split: if_splits)

lemma NewRaftNode_timing:
  assumes "NewRaftNode ops c = Inr rn"
  shows "electionTimeoutMin rn = cfg_ElectionTimeoutMin c" "electionTimeoutMax rn = cfg_ElectionTimeoutMax c"
    "heartbeatInterval rn = cfg_HeartbeatInterval c"
  using assms by (auto simp: NewRaftNode_def restoreState_def Let_def split: if_splits option.splits sum.splits)

text \<open>
  C39. Election timeouts: on a node built from a configuration that \<^verbatim>\<open>Build\<close> accepts, drawing
  a timeout never panics, and every timeout lies between the two bounds and is longer than the
  heartbeat interval, for any random source with \<^verbatim>\<open>Int63n\<close>'s documented range.
\<close>

theorem election_timeout_bounds:
  assumes "Build b = Inr c" "NewRaftNode ops c = Inr rn" "\<And>d. 0 < d \<Longrightarrow> 0 \<le> int63n d \<and> int63n d < d"
  shows "\<exists>t. randomElectionTimeout rn int63n = Some t
    \<and> heartbeatInterval rn < t \<and> electionTimeoutMin rn \<le> t \<and> t < electionTimeoutMax rn"
proof -
  note c = Build_timing [OF assms(1)] and n = NewRaftNode_timing [OF assms(2)]
  have d: "0 < electionTimeoutMax rn - electionTimeoutMin rn" using c n by simp
  from assms(3) [OF d] d c n show ?thesis by (simp add: randomElectionTimeout_def)
qed

text \<open>A configuration that \<^verbatim>\<open>Build\<close> accepts, on the in-memory storage.\<close>

definition sample_builder :: "MemoryStorage RaftConfigBuilder" where
  "sample_builder = WithApplyCh (Some 100) (WithTransport (Some ()) (WithStorage (Some NewMemoryStorage)
     (NewRaftConfigBuilder ''n'')))"

lemma sample_builds:
  obtains c rn where "Build sample_builder = Inr c" "NewRaftNode mem_ops c = Inr rn"
    "electionTimeoutMin rn = DefaultElectionTimeoutMin" "electionTimeoutMax rn = DefaultElectionTimeoutMax"
proof -
  have b: "Build sample_builder = Inr (bld_config sample_builder)"
    by (simp add: Build_def sample_builder_def builder_defs NewRaftConfigBuilder_def base_config_def timing_consts)
  obtain rn where r: "NewRaftNode mem_ops (bld_config sample_builder) = Inr rn"
    by (simp add: NewRaftNode_def restoreState_def mem_ops_def storage_defs NewMemoryStorage_def Let_def
        sample_builder_def builder_defs NewRaftConfigBuilder_def base_config_def)
  show ?thesis using that [OF b r] NewRaftNode_timing [OF r]
    by (simp add: sample_builder_def builder_defs NewRaftConfigBuilder_def base_config_def)
qed

theorem election_timeout_bounds_witness:
  "\<exists>rn :: MemoryStorage RaftNode. \<exists>t. randomElectionTimeout rn (\<lambda>d. d div 2) = Some t
     \<and> heartbeatInterval rn < t \<and> electionTimeoutMin rn \<le> t \<and> t < electionTimeoutMax rn"
proof -
  obtain c rn where b: "Build sample_builder = Inr c" "NewRaftNode mem_ops c = Inr rn" by (rule sample_builds)
  have "0 \<le> d div 2 \<and> d div 2 < d" if "0 < d" for d :: int using that by presburger
  from election_timeout_bounds [OF b this] show ?thesis by blast
qed

section \<open>Peers\<close>

definition peer_addr :: "string \<times> string \<Rightarrow> string" where
  "peer_addr hp = fst hp @ CHR '':'' # snd hp"

lemma cut_at_colon:
  "CHR '':'' \<notin> set h \<Longrightarrow> dropWhile (\<lambda>c. c \<noteq> CHR '':'') (h @ CHR '':'' # p) = CHR '':'' # p
     \<and> takeWhile (\<lambda>c. c \<noteq> CHR '':'') (h @ CHR '':'' # p) = h"
  by (induction h) auto

lemma split_colon_addr: "CHR '':'' \<notin> set (fst hp) \<Longrightarrow> split_colon (peer_addr hp) = Some hp"
  by (simp add: split_colon_def peer_addr_def cut_at_colon)

lemma parse_peer_loop_eq:
  assumes "\<forall>hp\<in>set hps. CHR '':'' \<notin> set (fst hp)"
  shows "parse_peer_loop (map peer_addr hps) (ids, addrs) =
    (ids @ map fst hps, addrs ++ map_of (rev (map (\<lambda>hp. (fst hp, peer_addr hp)) hps)))"
  using assms by (induction hps arbitrary: ids addrs) (auto simp: split_colon_addr split: prod.split)

text \<open>
  Peer lists: on peers given as host and port with distinct hosts that differ from the node's
  own ID, \<^verbatim>\<open>parsePeers\<close> yields the hosts in order as peer IDs and maps each of them, and the
  node itself, to the right address.
\<close>

theorem parsePeers_hosts:
  assumes "\<forall>hp\<in>set hps. CHR '':'' \<notin> set (fst hp)" "distinct (selfID # map fst hps)"
  shows "fst (parsePeers (map peer_addr hps) selfID selfAddr) = map fst hps
    \<and> snd (parsePeers (map peer_addr hps) selfID selfAddr) selfID = Some selfAddr
    \<and> (\<forall>hp\<in>set hps. snd (parsePeers (map peer_addr hps) selfID selfAddr) (fst hp) = Some (peer_addr hp))"
proof -
  let ?m = "map_of (rev (map (\<lambda>hp. (fst hp, peer_addr hp)) hps))"
  have "distinct (map fst (rev (map (\<lambda>hp. (fst hp, peer_addr hp)) hps)))"
    using assms(2) by (simp add: rev_map [symmetric] comp_def)
  then have "?m (fst hp) = Some (peer_addr hp)" if "hp \<in> set hps" for hp
    using that by (intro map_of_is_SomeI) auto
  moreover have "?m selfID = None" using assms(2) by (force simp: map_of_eq_None_iff)
  ultimately show ?thesis using parse_peer_loop_eq [OF assms(1)]
    by (auto simp: parsePeers_def map_add_def split: option.splits)
qed

theorem parsePeers_hosts_witness:
  "fst (parsePeers [''node2:5001'', ''node3:5001''] ''node1'' '':5001'') = [''node2'', ''node3'']"
  using parsePeers_hosts [of "[(''node2'', ''5001''), (''node3'', ''5001'')]" "''node1''" "'':5001''"]
  by (simp add: peer_addr_def)

text \<open>
  The shipped local configuration does not satisfy this: with the peers of
  \<^verbatim>\<open>configs/node1.yaml\<close> all four peer IDs are \<^verbatim>\<open>localhost\<close>, and all of them have the
  address of the last one.
\<close>

theorem parsePeers_localhost:
  "parsePeers [''localhost:5002'', ''localhost:5003'', ''localhost:5004'', ''localhost:5005''] ''node1'' '':5001''
     = ([''localhost'', ''localhost'', ''localhost'', ''localhost''],
        [''node1'' \<mapsto> '':5001'', ''localhost'' \<mapsto> ''localhost:5005''])"
  by (simp add: parsePeers_def split_colon_def)

section \<open>Start-up\<close>

text \<open>
  Start-up: a configuration that \<^verbatim>\<open>Validate\<close> accepts starts a node, on any storage whose
  state can be loaded, exactly when the heartbeat interval is below the minimal election timeout,
  which \<^verbatim>\<open>Validate\<close> does not check.
\<close>

theorem main_setup_starts:
  assumes "Config_Validate cfg = None" "op_LoadRaftState ops store = Inr st" "op_GetLastLogIndexAndTerm ops store = Inr lt"
  shows "(\<exists>r. main_setup ops cfg store = Inr r) \<longleftrightarrow> HeartbeatInterval cfg < ElectionTimeoutMin cfg"
proof -
  obtain ids addrs where p: "parsePeers (Peers cfg) (NodeID cfg) (RaftAddr cfg) = (ids, addrs)" by fastforce
  have v: "NodeID cfg \<noteq> []" "0 < ElectionTimeoutMin cfg" "ElectionTimeoutMin cfg < ElectionTimeoutMax cfg"
    "0 < HeartbeatInterval cfg" using assms(1) by (auto simp: Config_Validate_def split: if_splits)
  obtain li lte where "lt = (li, lte)" by (cases lt)
  then show ?thesis using assms v p
    by (simp add: main_setup_def main_raft_config_def Build_def builder_defs NewRaftConfigBuilder_def base_config_def
        NewRaftNode_def restoreState_def NewKVServer_def Let_def split: option.split)
qed

theorem main_setup_starts_witness:
  "(\<exists>r. main_setup mem_ops DefaultConfig NewMemoryStorage = Inr r)
   \<and> \<not> (\<exists>r. main_setup mem_ops (DefaultConfig\<lparr>HeartbeatInterval := 200 * Millisecond\<rparr>) NewMemoryStorage = Inr r)"
proof -
  have s: "op_LoadRaftState mem_ops NewMemoryStorage = Inr (Some zero_state)"
    "op_GetLastLogIndexAndTerm mem_ops NewMemoryStorage = Inr (0, 0)"
    by (simp_all add: mem_ops_def storage_defs NewMemoryStorage_def zero_state_def)
  have "Config_Validate DefaultConfig = None"
    "Config_Validate (DefaultConfig\<lparr>HeartbeatInterval := 200 * Millisecond\<rparr>) = None"
    by (simp_all add: Config_Validate_def DefaultConfig_def Millisecond_def)
  from main_setup_starts [OF this(1) s] main_setup_starts [OF this(2) s] show ?thesis
    by (simp add: DefaultConfig_def Millisecond_def)
qed

end
