(* ===== verification/Transport.thy ===== *)
theory Transport
  imports Raft_Types
begin

text \<open>
  \<^verbatim>\<open>internal/transport\<close>: the gRPC transport. The gRPC library and the network are parameters:
  what dialling a peer, listening on an address, the state of a connection and a call return. The
  transport's own state is modelled: the registered handler, the life cycle and the pool of client
  connections, with the connections that are open at present as a heap.
\<close>

section \<open>State\<close>

definition DefaultRPCTimeout :: duration where "DefaultRPCTimeout = 100 * Millisecond"
definition DefaultSnapshotTimeout :: duration where "DefaultSnapshotTimeout = 30000 * Millisecond"
definition DefaultKeepaliveTime :: duration where "DefaultKeepaliveTime = 10000 * Millisecond"
definition DefaultKeepaliveTimeout :: duration where "DefaultKeepaliveTimeout = 3000 * Millisecond"
definition DefaultMaxConcurrentRPCs :: int where "DefaultMaxConcurrentRPCs = 100"

text \<open>The handler interface: an error is \<open>Inl\<close>; a gRPC status has a code and a message.\<close>

datatype rpc_error = StatusError string string | OtherError string

record raft_handler =
  h_RequestVote :: "RequestVoteRequest \<Rightarrow> rpc_error + RequestVoteResponse"
  h_AppendEntries :: "AppendEntriesRequest \<Rightarrow> rpc_error + AppendEntriesResponse"
  h_InstallSnapshot :: "InstallSnapshotRequest \<Rightarrow> rpc_error + InstallSnapshotResponse"

datatype grpc_server = Serving | ServerStopped

text \<open>
  A client connection is a number; \<open>open_conns\<close> maps those that were dialled and not closed to the
  peer they were dialled for.
\<close>

record GRPCTransport =
  gt_addr :: string
  gt_server :: "grpc_server option"
  gt_handler :: "raft_handler option"
  conns :: "string \<rightharpoonup> nat"
  gt_started :: bool
  gt_stopCh :: bool
  open_conns :: "nat \<rightharpoonup> string"
  next_conn :: nat

record GRPCTransportConfig =
  gc_Addr :: string
  gc_KeepaliveTime :: duration
  gc_KeepaliveTimeout :: duration
  gc_MaxConcurrentRPC :: int

definition DefaultGRPCTransportConfig :: "string \<Rightarrow> GRPCTransportConfig" where
  "DefaultGRPCTransportConfig addr = \<lparr>gc_Addr = addr, gc_KeepaliveTime = DefaultKeepaliveTime,
     gc_KeepaliveTimeout = DefaultKeepaliveTimeout, gc_MaxConcurrentRPC = DefaultMaxConcurrentRPCs\<rparr>"

definition NewGRPCTransport :: "GRPCTransportConfig \<Rightarrow> GRPCTransport" where
  "NewGRPCTransport cfg = \<lparr>gt_addr = gc_Addr cfg, gt_server = None, gt_handler = None, conns = Map.empty,
     gt_started = False, gt_stopCh = False, open_conns = Map.empty, next_conn = 0\<rparr>"

definition RegisterRaftHandler :: "raft_handler \<Rightarrow> GRPCTransport \<Rightarrow> GRPCTransport" where
  "RegisterRaftHandler h t = t\<lparr>gt_handler := Some h\<rparr>"

section \<open>Life cycle\<close>

text \<open>\<open>listen\<close> is \<^verbatim>\<open>net.Listen\<close>: the error for an address, if any.\<close>

definition GRPCTransport_Start :: "(string \<Rightarrow> string option) \<Rightarrow> GRPCTransport \<Rightarrow> GRPCTransport \<times> string option" where
  "GRPCTransport_Start listen t =
     (if gt_started t then (t, Some ''transport already started'')
      else case listen (gt_addr t) of
        Some err \<Rightarrow> (t, Some (''failed to listen on '' @ gt_addr t @ '': '' @ err))
      | None \<Rightarrow> (t\<lparr>gt_server := Some Serving, gt_started := True\<rparr>, None))"

text \<open>The loop over the pool that closes its connections, in the order in which the map is iterated.\<close>

fun close_conns :: "string list \<Rightarrow> GRPCTransport \<Rightarrow> GRPCTransport" where
  "close_conns [] t = t"
| "close_conns (p # ps) t =
     close_conns ps (case conns t p of None \<Rightarrow> t
       | Some c \<Rightarrow> t\<lparr>open_conns := (open_conns t)(c := None), conns := (conns t)(p := None)\<rparr>)"

text \<open>
  \<open>None\<close> is the panic of closing \<^verbatim>\<open>stopCh\<close> a second time. Whether the graceful stop ends in time
  or is forced, the server is stopped.
\<close>

definition GRPCTransport_Stop :: "string list \<Rightarrow> GRPCTransport \<Rightarrow> GRPCTransport option" where
  "GRPCTransport_Stop order t =
     (if \<not> gt_started t then Some t
      else
        let t1 = t\<lparr>gt_started := False\<rparr>
        in if gt_stopCh t1 then None
           else Some (close_conns order (t1\<lparr>gt_stopCh := True, gt_server := map_option (\<lambda>_. ServerStopped) (gt_server t1)\<rparr>)))"

section \<open>The connection pool\<close>

datatype connectivity = Idle | Connecting | Ready | TransientFailure | Shutdown

text \<open>\<open>state_of\<close> is \<^verbatim>\<open>conn.GetState\<close> at the moment of the call.\<close>

definition isConnHealthy :: "(nat \<Rightarrow> connectivity) \<Rightarrow> nat option \<Rightarrow> bool" where
  "isConnHealthy state_of conn =
     (case conn of None \<Rightarrow> False
      | Some c \<Rightarrow> state_of c = Ready \<or> state_of c = Idle \<or> state_of c = Connecting)"

text \<open>\<open>dial\<close> is \<^verbatim>\<open>grpc.DialContext\<close>: the error for a peer, if any.\<close>

definition createConnection :: "(string \<Rightarrow> string option) \<Rightarrow> string \<Rightarrow> GRPCTransport \<Rightarrow> GRPCTransport \<times> (string + nat)" where
  "createConnection dial peer t =
     (case dial peer of
        Some err \<Rightarrow> (t, Inl (''failed to connect to peer '' @ peer @ '': '' @ err))
      | None \<Rightarrow> (t\<lparr>open_conns := (open_conns t)(next_conn t \<mapsto> peer), next_conn := Suc (next_conn t)\<rparr>, Inr (next_conn t)))"

text \<open>
  \<^verbatim>\<open>getOrCreateConnection\<close> in its two critical sections: the fast path under the read lock, whose
  health check runs after the lock is released, and the slow path under the write lock.
\<close>

definition getConnection_fast :: "(nat \<Rightarrow> connectivity) \<Rightarrow> string \<Rightarrow> GRPCTransport \<Rightarrow> nat option" where
  "getConnection_fast state_of peer t = (if isConnHealthy state_of (conns t peer) then conns t peer else None)"

definition getConnection_slow ::
    "(nat \<Rightarrow> connectivity) \<Rightarrow> (string \<Rightarrow> string option) \<Rightarrow> string \<Rightarrow> GRPCTransport \<Rightarrow> GRPCTransport \<times> (string + nat)" where
  "getConnection_slow state_of dial peer t =
     (if isConnHealthy state_of (conns t peer) then (t, Inr (the (conns t peer)))
      else
        let t1 = (case conns t peer of None \<Rightarrow> t
                  | Some c \<Rightarrow> t\<lparr>open_conns := (open_conns t)(c := None), conns := (conns t)(peer := None)\<rparr>)
        in case createConnection dial peer t1 of
             (t2, Inl err) \<Rightarrow> (t2, Inl err)
           | (t2, Inr c) \<Rightarrow> (t2\<lparr>conns := (conns t2)(peer \<mapsto> c)\<rparr>, Inr c))"

definition getOrCreateConnection ::
    "(nat \<Rightarrow> connectivity) \<Rightarrow> (string \<Rightarrow> string option) \<Rightarrow> string \<Rightarrow> GRPCTransport \<Rightarrow> GRPCTransport \<times> (string + nat)" where
  "getOrCreateConnection state_of dial peer t =
     (case getConnection_fast state_of peer t of
        Some c \<Rightarrow> (t, Inr c)
      | None \<Rightarrow> getConnection_slow state_of dial peer t)"

definition CloseConnection :: "string \<Rightarrow> GRPCTransport \<Rightarrow> GRPCTransport" where
  "CloseConnection peer t =
     (case conns t peer of None \<Rightarrow> t
      | Some c \<Rightarrow> t\<lparr>open_conns := (open_conns t)(c := None), conns := (conns t)(peer := None)\<rparr>)"

definition GetConnectionCount :: "GRPCTransport \<Rightarrow> nat" where
  "GetConnectionCount t = card (dom (conns t))"

section \<open>Sending\<close>

text \<open>Errors of a call are left to the next attempt's health check.\<close>

definition handleRPCError :: "string \<Rightarrow> string \<Rightarrow> GRPCTransport \<Rightarrow> GRPCTransport" where
  "handleRPCError peer err t = t"

text \<open>
  The common body of the three senders: the name of the RPC, the timeout used when the context has no
  deadline, and the call on a connection with the time left.
\<close>

definition send_rpc ::
    "string \<Rightarrow> duration \<Rightarrow> (nat \<Rightarrow> duration \<Rightarrow> 'q \<Rightarrow> string + 'r) \<Rightarrow> (nat \<Rightarrow> connectivity) \<Rightarrow> (string \<Rightarrow> string option) \<Rightarrow>
     duration option \<Rightarrow> string \<Rightarrow> 'q \<Rightarrow> GRPCTransport \<Rightarrow> GRPCTransport \<times> (string + 'r)" where
  "send_rpc name timeout call state_of dial deadline peer req t =
     (case getOrCreateConnection state_of dial peer t of
        (t', Inl err) \<Rightarrow> (t', Inl err)
      | (t', Inr c) \<Rightarrow>
          (case call c (case deadline of Some d \<Rightarrow> d | None \<Rightarrow> timeout) req of
             Inl err \<Rightarrow> (handleRPCError peer err t', Inl (name @ '' RPC to '' @ peer @ '' failed: '' @ err))
           | Inr resp \<Rightarrow> (t', Inr resp)))"

definition SendRequestVote ::
    "(nat \<Rightarrow> duration \<Rightarrow> RequestVoteRequest \<Rightarrow> string + RequestVoteResponse) \<Rightarrow> (nat \<Rightarrow> connectivity) \<Rightarrow> (string \<Rightarrow> string option) \<Rightarrow>
     duration option \<Rightarrow> string \<Rightarrow> RequestVoteRequest \<Rightarrow> GRPCTransport \<Rightarrow> GRPCTransport \<times> (string + RequestVoteResponse)" where
  "SendRequestVote = send_rpc ''RequestVote'' DefaultRPCTimeout"

definition SendAppendEntries ::
    "(nat \<Rightarrow> duration \<Rightarrow> AppendEntriesRequest \<Rightarrow> string + AppendEntriesResponse) \<Rightarrow> (nat \<Rightarrow> connectivity) \<Rightarrow> (string \<Rightarrow> string option) \<Rightarrow>
     duration option \<Rightarrow> string \<Rightarrow> AppendEntriesRequest \<Rightarrow> GRPCTransport \<Rightarrow> GRPCTransport \<times> (string + AppendEntriesResponse)" where
  "SendAppendEntries = send_rpc ''AppendEntries'' DefaultRPCTimeout"

definition SendInstallSnapshot ::
    "(nat \<Rightarrow> duration \<Rightarrow> InstallSnapshotRequest \<Rightarrow> string + InstallSnapshotResponse) \<Rightarrow> (nat \<Rightarrow> connectivity) \<Rightarrow> (string \<Rightarrow> string option) \<Rightarrow>
     duration option \<Rightarrow> string \<Rightarrow> InstallSnapshotRequest \<Rightarrow> GRPCTransport \<Rightarrow> GRPCTransport \<times> (string + InstallSnapshotResponse)" where
  "SendInstallSnapshot = send_rpc ''InstallSnapshot'' DefaultSnapshotTimeout"

section \<open>Receiving\<close>

definition GRPCTransport_RequestVote :: "GRPCTransport \<Rightarrow> RequestVoteRequest \<Rightarrow> rpc_error + RequestVoteResponse" where
  "GRPCTransport_RequestVote t req =
     (case gt_handler t of None \<Rightarrow> Inl (StatusError ''Unavailable'' ''no handler registered'') | Some h \<Rightarrow> h_RequestVote h req)"

definition GRPCTransport_AppendEntries :: "GRPCTransport \<Rightarrow> AppendEntriesRequest \<Rightarrow> rpc_error + AppendEntriesResponse" where
  "GRPCTransport_AppendEntries t req =
     (case gt_handler t of None \<Rightarrow> Inl (StatusError ''Unavailable'' ''no handler registered'') | Some h \<Rightarrow> h_AppendEntries h req)"

definition GRPCTransport_InstallSnapshot :: "GRPCTransport \<Rightarrow> InstallSnapshotRequest \<Rightarrow> rpc_error + InstallSnapshotResponse" where
  "GRPCTransport_InstallSnapshot t req =
     (case gt_handler t of None \<Rightarrow> Inl (StatusError ''Unavailable'' ''no handler registered'') | Some h \<Rightarrow> h_InstallSnapshot h req)"

section \<open>The pool's invariant\<close>

text \<open>
  Every open connection is in the pool under the peer it was dialled for, and every pooled one is
  open.
\<close>

definition pool_inv :: "GRPCTransport \<Rightarrow> bool" where
  "pool_inv t \<longleftrightarrow> (\<forall>p c. conns t p = Some c \<longleftrightarrow> open_conns t c = Some p) \<and> (\<forall>c\<in>dom (open_conns t). c < next_conn t)"

lemma pool_inv_fields [simp]:
  "pool_inv (t\<lparr>gt_started := a\<rparr>) = pool_inv t" "pool_inv (t\<lparr>gt_stopCh := a\<rparr>) = pool_inv t"
  "pool_inv (t\<lparr>gt_server := s\<rparr>) = pool_inv t" "pool_inv (t\<lparr>gt_handler := h\<rparr>) = pool_inv t"
  by (simp_all add: pool_inv_def)

lemma pool_drop:
  assumes "pool_inv t" "conns t p = Some c"
  shows "pool_inv (t\<lparr>open_conns := (open_conns t)(c := None), conns := (conns t)(p := None)\<rparr>)"
  using assms by (auto simp: pool_inv_def) (metis option.inject)+

lemma CloseConnection_inv: "pool_inv t \<Longrightarrow> pool_inv (CloseConnection peer t)"
  using pool_drop by (auto simp: CloseConnection_def split: option.split)

lemma close_conns_inv: "pool_inv t \<Longrightarrow> pool_inv (close_conns ps t)"
  by (induction ps arbitrary: t) (auto split: option.split intro: pool_drop)

lemma close_conns_dom: "dom (conns (close_conns ps t)) = dom (conns t) - set ps"
  by (induction ps arbitrary: t) (auto split: option.splits)

lemma pool_add:
  assumes "pool_inv t" "conns t p = None"
  shows "pool_inv (t\<lparr>open_conns := (open_conns t)(next_conn t \<mapsto> p), next_conn := Suc (next_conn t), conns := (conns t)(p \<mapsto> next_conn t)\<rparr>)"
proof -
  let ?n = "next_conn t"
  have iff: "conns t q = Some c \<longleftrightarrow> open_conns t c = Some q" for q c using assms(1) by (simp add: pool_inv_def)
  have less: "c < ?n" if "open_conns t c = Some q" for c q using assms(1) that by (auto simp: pool_inv_def)
  have "open_conns t c \<noteq> Some p" for c using iff [of p c] assms(2) by simp
  then have "((conns t)(p \<mapsto> ?n)) q = Some c \<longleftrightarrow> ((open_conns t)(?n \<mapsto> p)) c = Some q" for q c
    using iff [of q c] less [of c q] by auto
  moreover have "c < Suc ?n" if "((open_conns t)(?n \<mapsto> p)) c \<noteq> None" for c
    using that less [of c] by (auto simp: less_Suc_eq split: if_splits)
  ultimately show ?thesis by (simp add: pool_inv_def domIff)
qed

lemma getConnection_slow_inv:
  assumes "pool_inv t"
  shows "pool_inv (fst (getConnection_slow state_of dial peer t))"
proof -
  define t1 where "t1 = (case conns t peer of None \<Rightarrow> t
      | Some c \<Rightarrow> t\<lparr>open_conns := (open_conns t)(c := None), conns := (conns t)(peer := None)\<rparr>)"
  have t1: "pool_inv t1" "conns t1 peer = None" using assms pool_drop by (auto simp: t1_def split: option.split)
  then show ?thesis using assms pool_add [OF t1]
    by (simp add: getConnection_slow_def t1_def [symmetric] createConnection_def split: option.split)
qed

text \<open>The steps of a transport, in any interleaving of its users.\<close>

inductive transport_step :: "GRPCTransport \<Rightarrow> GRPCTransport \<Rightarrow> bool" where
  register: "transport_step t (RegisterRaftHandler h t)"
| start: "transport_step t (fst (GRPCTransport_Start listen t))"
| connect: "transport_step t (fst (getConnection_slow state_of dial peer t))"
| close: "transport_step t (CloseConnection peer t)"
| stop: "set order = dom (conns t) \<Longrightarrow> GRPCTransport_Stop order t = Some t' \<Longrightarrow> transport_step t t'"

lemma transport_step_inv: "transport_step t t' \<Longrightarrow> pool_inv t \<Longrightarrow> pool_inv t'"
proof (induction rule: transport_step.induct)
  case (stop order t t')
  then show ?case by (auto simp: GRPCTransport_Stop_def Let_def close_conns_inv split: if_splits)
qed (auto simp: RegisterRaftHandler_def GRPCTransport_Start_def CloseConnection_inv getConnection_slow_inv split: option.split)

lemma transport_reachable_inv: "transport_step\<^sup>*\<^sup>* (NewGRPCTransport cfg) t \<Longrightarrow> pool_inv t"
proof (induction rule: rtranclp_induct)
  case base
  then show ?case by (simp add: pool_inv_def NewGRPCTransport_def)
qed (rule transport_step_inv)

lemma pool_count:
  assumes "pool_inv t"
  shows "GetConnectionCount t = card (dom (open_conns t))"
proof -
  have "bij_betw (\<lambda>p. the (conns t p)) (dom (conns t)) (dom (open_conns t))"
  proof (rule bij_betwI')
    fix p q assume "p \<in> dom (conns t)" "q \<in> dom (conns t)"
    then obtain c d where "conns t p = Some c" "conns t q = Some d" by blast
    moreover from this have "open_conns t c = Some p" "open_conns t d = Some q" using assms by (simp_all add: pool_inv_def)
    ultimately show "(the (conns t p) = the (conns t q)) = (p = q)" by auto
  next
    fix p assume "p \<in> dom (conns t)"
    then obtain c where c: "conns t p = Some c" by blast
    then have "open_conns t c = Some p" using assms by (simp add: pool_inv_def)
    then show "the (conns t p) \<in> dom (open_conns t)" using c by auto
  next
    fix c assume "c \<in> dom (open_conns t)"
    then obtain p where "open_conns t c = Some p" by auto
    then have "conns t p = Some c" using assms by (simp add: pool_inv_def)
    then show "\<exists>p\<in>dom (conns t). c = the (conns t p)" by force
  qed
  then show ?thesis unfolding GetConnectionCount_def by (rule bij_betw_same_card)
qed

lemma getOrCreate_inv: "pool_inv t \<Longrightarrow> pool_inv (fst (getOrCreateConnection state_of dial peer t))"
  by (simp add: getOrCreateConnection_def getConnection_slow_inv split: option.split)

text \<open>
  C37. The connection pool never leaks and never mixes up peers: whatever was started, stopped,
  closed, dialled or replaced before, a connection that \<^verbatim>\<open>getOrCreateConnection\<close> returns is
  pooled for the peer it was asked for and is healthy or new, exactly the pooled connections are open,
  and \<^verbatim>\<open>GetConnectionCount\<close> counts them. Stopping a started transport leaves none open.
\<close>

theorem connection_pool:
  assumes "transport_step\<^sup>*\<^sup>* (NewGRPCTransport cfg) t" "getOrCreateConnection state_of dial peer t = (t', r)"
  shows "(\<forall>q c. conns t' q = Some c \<longleftrightarrow> open_conns t' c = Some q)
    \<and> GetConnectionCount t' = card (dom (open_conns t'))
    \<and> (\<forall>c. r = Inr c \<longrightarrow> conns t' peer = Some c \<and> (isConnHealthy state_of (Some c) \<or> open_conns t c = None))
    \<and> (\<forall>order t''. set order = dom (conns t') \<longrightarrow> gt_started t' \<longrightarrow> GRPCTransport_Stop order t' = Some t'' \<longrightarrow>
         open_conns t'' = Map.empty)"
proof -
  have inv: "pool_inv t" by (rule transport_reachable_inv [OF assms(1)])
  then have inv': "pool_inv t'" using getOrCreate_inv [of t state_of dial peer] assms(2) by simp
  have new: "open_conns t (next_conn t) = None" using inv by (auto simp: pool_inv_def domIff)
  have "conns t' peer = Some c \<and> (isConnHealthy state_of (Some c) \<or> open_conns t c = None)" if "r = Inr c" for c
    using assms(2) that new
    by (auto simp: getOrCreateConnection_def getConnection_fast_def getConnection_slow_def createConnection_def
        Let_def isConnHealthy_def split: if_splits option.splits)
  moreover have "open_conns t'' = Map.empty"
    if s: "set order = dom (conns t')" "gt_started t'" "GRPCTransport_Stop order t' = Some t''" for order t''
  proof -
    let ?t = "t'\<lparr>gt_started := False, gt_stopCh := True, gt_server := map_option (\<lambda>_. ServerStopped) (gt_server t')\<rparr>"
    have t'': "t'' = close_conns order ?t" using s(2,3) by (auto simp: GRPCTransport_Stop_def Let_def split: if_splits)
    then have "dom (conns t'') = {}" using s(1) by (simp add: close_conns_dom)
    moreover have "pool_inv t''" unfolding t'' using inv' by (intro close_conns_inv) simp
    ultimately show ?thesis unfolding pool_inv_def by (metis domIff empty_iff not_None_eq ext)
  qed
  moreover have "\<forall>q c. conns t' q = Some c \<longleftrightarrow> open_conns t' c = Some q" using inv' by (simp add: pool_inv_def)
  ultimately show ?thesis using pool_count [OF inv'] by blast
qed

definition idle_transport :: GRPCTransport where
  "idle_transport = NewGRPCTransport (DefaultGRPCTransportConfig '':5001'')"

theorem connection_pool_witness:
  "conns (fst (getOrCreateConnection (\<lambda>_. Ready) (\<lambda>_. None) ''b:5001'' idle_transport)) ''b:5001'' = Some 0"
proof -
  have "getOrCreateConnection (\<lambda>_. Ready) (\<lambda>_. None) ''b:5001'' idle_transport
      = (fst (getOrCreateConnection (\<lambda>_. Ready) (\<lambda>_. None) ''b:5001'' idle_transport), Inr 0)"
    by (simp add: idle_transport_def NewGRPCTransport_def getOrCreateConnection_def getConnection_fast_def
        getConnection_slow_def createConnection_def isConnHealthy_def)
  from connection_pool [OF _ this] show ?thesis by (auto simp: idle_transport_def)
qed

text \<open>
  The transport can be stopped only once: it may be started again after \<^verbatim>\<open>Stop\<close>, but the second
  \<^verbatim>\<open>Stop\<close> closes \<^verbatim>\<open>stopCh\<close> again and panics.
\<close>

lemma restarted_transport_panics:
  "GRPCTransport_Stop [] (fst (GRPCTransport_Start (\<lambda>_. None)
     (the (GRPCTransport_Stop [] (fst (GRPCTransport_Start (\<lambda>_. None) idle_transport)))))) = None"
  by (simp add: GRPCTransport_Stop_def GRPCTransport_Start_def idle_transport_def NewGRPCTransport_def)

text \<open>
  Nothing refuses a sender after \<^verbatim>\<open>Stop\<close>: it dials again, and since the transport no longer counts
  as started no later \<^verbatim>\<open>Stop\<close> closes the connection.
\<close>

lemma send_after_stop_leaks:
  fixes t :: GRPCTransport
  defines "t \<equiv> fst (getOrCreateConnection (\<lambda>_. Ready) (\<lambda>_. None) ''b:5001''
     (the (GRPCTransport_Stop [] (fst (GRPCTransport_Start (\<lambda>_. None) idle_transport)))))"
  shows "open_conns t 0 = Some ''b:5001'' \<and> GRPCTransport_Stop order t = Some t"
  by (simp add: t_def GRPCTransport_Stop_def GRPCTransport_Start_def idle_transport_def NewGRPCTransport_def Let_def
      getOrCreateConnection_def getConnection_fast_def getConnection_slow_def createConnection_def isConnHealthy_def)

end
