(* ===== verification/WebSocket.thy ===== *)
theory WebSocket
  imports HTTP_Handler
begin

text \<open>
  \<^verbatim>\<open>internal/server/websocket.go\<close>: the stream of cluster states to WebSocket clients. A
  connection is a number. The goroutines of the handler (one reader per client, the broadcast loop,
  and the caller of \<^verbatim>\<open>Stop\<close>) are interleaved at the points where they can block: taking the
  mutex and entering a client's \<^verbatim>\<open>sync.Once\<close>, which holds other callers until the running one
  has finished. gorilla/websocket appears only through its events: an accepted connection, a failed
  read, a failed write.
\<close>

section \<open>The messages\<close>

record NodeStatus =
  ns_ID :: string
  ns_State :: string
  ns_Term :: int64
  ns_CommitIndex :: int64
  ns_LastApplied :: int64
  ns_IsLeader :: bool

record ClusterState =
  cs_LeaderID :: string
  cs_NodeID :: string
  cs_State :: string
  cs_Term :: int64
  cs_Commit :: int64
  cs_Applied :: int64
  cs_Timestamp :: int64
  cs_Node :: NodeStatus

text \<open>The getters lock the node one by one; \<open>now\<close> is the time in milliseconds.\<close>

definition getClusterState :: "int64 \<Rightarrow> 's RaftNode \<Rightarrow> ClusterState" where
  "getClusterState now rn =
     \<lparr>cs_LeaderID = RaftNode_LeaderID rn, cs_NodeID = RaftNode_ID rn, cs_State = NodeState_String (RaftNode_State rn),
      cs_Term = RaftNode_Term rn, cs_Commit = RaftNode_CommitIndex rn, cs_Applied = RaftNode_LastApplied rn, cs_Timestamp = now,
      cs_Node = \<lparr>ns_ID = RaftNode_ID rn, ns_State = NodeState_String (RaftNode_State rn), ns_Term = RaftNode_Term rn,
        ns_CommitIndex = RaftNode_CommitIndex rn, ns_LastApplied = RaftNode_LastApplied rn, ns_IsLeader = IsLeader rn\<rparr>\<rparr>"

definition NodeStatus_json :: "NodeStatus \<Rightarrow> string" where
  "NodeStatus_json n = json_object [json_member ''id'' (json_quote (ns_ID n)), json_member ''state'' (json_quote (ns_State n)),
     json_member ''term'' (dec_int (ns_Term n)), json_member ''commit_index'' (dec_int (ns_CommitIndex n)),
     json_member ''last_applied'' (dec_int (ns_LastApplied n)), json_member ''is_leader'' (json_bool (ns_IsLeader n))]"

definition ClusterState_json :: "ClusterState \<Rightarrow> string" where
  "ClusterState_json c = json_object [json_member ''leader_id'' (json_quote (cs_LeaderID c)),
     json_member ''node_id'' (json_quote (cs_NodeID c)), json_member ''state'' (json_quote (cs_State c)),
     json_member ''term'' (dec_int (cs_Term c)), json_member ''commit_index'' (dec_int (cs_Commit c)),
     json_member ''last_applied'' (dec_int (cs_Applied c)), json_member ''timestamp'' (dec_int (cs_Timestamp c)),
     json_member ''node'' (NodeStatus_json (cs_Node c))]"

section \<open>State\<close>

datatype once_state = OnceFresh | OnceRunning | OnceDone

text \<open>The goroutines that may call \<^verbatim>\<open>removeClient\<close>: the HTTP handler of a connection, its
  reader, and the broadcast loops (one per call of \<^verbatim>\<open>Start\<close>).\<close>

datatype ws_thread = Handler nat | Reader nat | Loop nat

text \<open>
  Where a call of \<^verbatim>\<open>removeClient\<close> is: before \<^verbatim>\<open>closeOnce.Do\<close>, inside it before
  \<^verbatim>\<open>mu.Lock\<close>, or inside it before \<^verbatim>\<open>conn.Close\<close>.
\<close>

datatype remove_pc = EnterOnce | WantLock | Closing

datatype handler_pc = Register | InitialSend | StartReader | HandlerDone

datatype reader_pc = ReadMessage | Deferred | ReaderDone

datatype loop_pc = Select | Sending "nat list" | LoopDone

text \<open>Where \<^verbatim>\<open>Stop\<close> is; \<open>CloseClients\<close> is its loop, which holds the mutex.\<close>

datatype stop_pc = NotStopping | CloseClients "nat list" | Signalling | Joining | StopReturned | StopPanicked

text \<open>
  \<open>ws_mu\<close> is set while \<^verbatim>\<open>Stop\<close> holds the mutex; every other critical section contains no
  blocking call and is one step. \<open>ws_closes\<close> counts the calls of \<^verbatim>\<open>conn.Close\<close>.
\<close>

record WebSocketHandler =
  ws_clients :: "nat set"
  ws_mu :: bool
  ws_stopCh :: bool
  ws_wg :: nat
  ws_updateInterval :: duration
  ws_allowedOrigins :: "string list"
  ws_once :: "nat \<Rightarrow> once_state"
  ws_closes :: "nat \<Rightarrow> nat"
  ws_removing :: "ws_thread \<rightharpoonup> nat \<times> remove_pc"
  ws_handler :: "nat \<rightharpoonup> handler_pc"
  ws_reader :: "nat \<rightharpoonup> reader_pc"
  ws_loop :: "nat \<rightharpoonup> loop_pc"
  ws_stop :: stop_pc

definition NewWebSocketHandlerWithConfig :: "string list \<Rightarrow> duration \<Rightarrow> WebSocketHandler" where
  "NewWebSocketHandlerWithConfig origins interval =
     \<lparr>ws_clients = {}, ws_mu = False, ws_stopCh = False, ws_wg = 0,
      ws_updateInterval = (if interval = 0 then 500 * Millisecond else interval), ws_allowedOrigins = origins,
      ws_once = (\<lambda>_. OnceFresh), ws_closes = (\<lambda>_. 0), ws_removing = Map.empty, ws_handler = Map.empty,
      ws_reader = Map.empty, ws_loop = Map.empty, ws_stop = NotStopping\<rparr>"

definition NewWebSocketHandler :: WebSocketHandler where
  "NewWebSocketHandler = NewWebSocketHandlerWithConfig [] 0"

definition checkOrigin :: "WebSocketHandler \<Rightarrow> HTTPRequest \<Rightarrow> bool" where
  "checkOrigin h r =
     (if ws_allowedOrigins h = [] then True
      else list_ex (\<lambda>allowed. header_get (r_Headers r) ''Origin'' = allowed) (ws_allowedOrigins h))"

section \<open>Steps of the goroutines\<close>

text \<open>A step is \<open>None\<close> when the goroutine is blocked or has no such step.\<close>

text \<open>\<^verbatim>\<open>Start\<close>: the loop gets the number \<open>k\<close>, which no loop had before.\<close>

definition WebSocketHandler_Start :: "nat \<Rightarrow> WebSocketHandler \<Rightarrow> WebSocketHandler option" where
  "WebSocketHandler_Start k h =
     (if ws_loop h k \<noteq> None then None
      else Some (h\<lparr>ws_wg := Suc (ws_wg h), ws_loop := (ws_loop h)(k \<mapsto> Select)\<rparr>))"

text \<open>\<^verbatim>\<open>removeClient\<close>: \<^verbatim>\<open>closeOnce.Do\<close> blocks while another call runs the function.\<close>

definition removeClient :: "ws_thread \<Rightarrow> WebSocketHandler \<Rightarrow> WebSocketHandler option" where
  "removeClient t h =
     (case ws_removing h t of
        None \<Rightarrow> None
      | Some (c, EnterOnce) \<Rightarrow>
          (case ws_once h c of
             OnceFresh \<Rightarrow> Some (h\<lparr>ws_once := (ws_once h)(c := OnceRunning), ws_removing := (ws_removing h)(t \<mapsto> (c, WantLock))\<rparr>)
           | OnceRunning \<Rightarrow> None
           | OnceDone \<Rightarrow> Some (h\<lparr>ws_removing := (ws_removing h)(t := None)\<rparr>))
      | Some (c, WantLock) \<Rightarrow>
          if ws_mu h then None
          else Some (h\<lparr>ws_clients := ws_clients h - {c}, ws_removing := (ws_removing h)(t \<mapsto> (c, Closing))\<rparr>)
      | Some (c, Closing) \<Rightarrow>
          Some (h\<lparr>ws_closes := (ws_closes h)(c := Suc (ws_closes h c)), ws_once := (ws_once h)(c := OnceDone),
                  ws_removing := (ws_removing h)(t := None)\<rparr>))"

text \<open>\<^verbatim>\<open>sendToClient\<close>: \<open>ok\<close> is the outcome of \<^verbatim>\<open>conn.WriteMessage\<close>; on a failure the
  client is looked up under the read lock and, when it is still registered, removed.\<close>

definition sendToClient :: "bool \<Rightarrow> ws_thread \<Rightarrow> nat \<Rightarrow> WebSocketHandler \<Rightarrow> WebSocketHandler option" where
  "sendToClient ok t c h =
     (if ok then Some h
      else if ws_mu h then None
      else if c \<in> ws_clients h then Some (h\<lparr>ws_removing := (ws_removing h)(t \<mapsto> (c, EnterOnce))\<rparr>)
      else Some h)"

text \<open>
  \<^verbatim>\<open>HandleWebSocket\<close>: a refused upgrade changes nothing; an accepted one is a connection number
  \<open>c\<close> that has not been used.
\<close>

definition HandleWebSocket_upgrade :: "HTTPRequest \<Rightarrow> nat \<Rightarrow> WebSocketHandler \<Rightarrow> WebSocketHandler option" where
  "HandleWebSocket_upgrade r c h =
     (if \<not> checkOrigin h r then Some h
      else if ws_handler h c \<noteq> None then None
      else Some (h\<lparr>ws_handler := (ws_handler h)(c \<mapsto> Register)\<rparr>))"

definition HandleWebSocket :: "bool \<Rightarrow> nat \<Rightarrow> WebSocketHandler \<Rightarrow> WebSocketHandler option" where
  "HandleWebSocket ok c h =
     (if ws_removing h (Handler c) \<noteq> None then None
      else case ws_handler h c of
        None \<Rightarrow> None
      | Some Register \<Rightarrow>
          if ws_mu h then None
          else Some (h\<lparr>ws_clients := insert c (ws_clients h), ws_handler := (ws_handler h)(c \<mapsto> InitialSend)\<rparr>)
      | Some InitialSend \<Rightarrow> sendToClient ok (Handler c) c (h\<lparr>ws_handler := (ws_handler h)(c \<mapsto> StartReader)\<rparr>)
      | Some StartReader \<Rightarrow>
          Some (h\<lparr>ws_wg := Suc (ws_wg h), ws_handler := (ws_handler h)(c \<mapsto> HandlerDone),
                  ws_reader := (ws_reader h)(c \<mapsto> ReadMessage)\<rparr>)
      | Some HandlerDone \<Rightarrow> None)"

text \<open>\<^verbatim>\<open>handleClient\<close>: a failed read ends the loop, and the deferred calls run.\<close>

definition handleClient :: "nat \<Rightarrow> WebSocketHandler \<Rightarrow> WebSocketHandler option" where
  "handleClient c h =
     (if ws_removing h (Reader c) \<noteq> None then None
      else case ws_reader h c of
        Some ReadMessage \<Rightarrow>
          Some (h\<lparr>ws_reader := (ws_reader h)(c \<mapsto> Deferred), ws_removing := (ws_removing h)(Reader c \<mapsto> (c, EnterOnce))\<rparr>)
      | Some Deferred \<Rightarrow> Some (h\<lparr>ws_wg := ws_wg h - 1, ws_reader := (ws_reader h)(c \<mapsto> ReaderDone)\<rparr>)
      | _ \<Rightarrow> None)"

text \<open>
  \<^verbatim>\<open>broadcastLoop\<close> and \<^verbatim>\<open>broadcast\<close>: when both cases of the \<^verbatim>\<open>select\<close> are
  ready either may be taken (\<open>tick\<close>); \<open>order\<close> is the iteration order of the map.
\<close>

definition broadcastLoop :: "bool \<Rightarrow> nat list \<Rightarrow> bool \<Rightarrow> nat \<Rightarrow> WebSocketHandler \<Rightarrow> WebSocketHandler option" where
  "broadcastLoop tick order ok k h =
     (if ws_removing h (Loop k) \<noteq> None then None
      else case ws_loop h k of
        Some Select \<Rightarrow>
          if tick then
            if ws_mu h \<or> set order \<noteq> ws_clients h then None
            else Some (h\<lparr>ws_loop := (ws_loop h)(k \<mapsto> Sending order)\<rparr>)
          else if ws_stopCh h then Some (h\<lparr>ws_wg := ws_wg h - 1, ws_loop := (ws_loop h)(k \<mapsto> LoopDone)\<rparr>)
          else None
      | Some (Sending []) \<Rightarrow> Some (h\<lparr>ws_loop := (ws_loop h)(k \<mapsto> Select)\<rparr>)
      | Some (Sending (c # cs)) \<Rightarrow> sendToClient ok (Loop k) c (h\<lparr>ws_loop := (ws_loop h)(k \<mapsto> Sending cs)\<rparr>)
      | _ \<Rightarrow> None)"

text \<open>\<^verbatim>\<open>Stop\<close>, which may be called again; closing a closed channel panics.\<close>

definition WebSocketHandler_Stop :: "nat list \<Rightarrow> WebSocketHandler \<Rightarrow> WebSocketHandler option" where
  "WebSocketHandler_Stop order h =
     (case ws_stop h of
        CloseClients (c # cs) \<Rightarrow>
          (case ws_once h c of
             OnceFresh \<Rightarrow> Some (h\<lparr>ws_closes := (ws_closes h)(c := Suc (ws_closes h c)),
                               ws_once := (ws_once h)(c := OnceDone), ws_stop := CloseClients cs\<rparr>)
           | OnceRunning \<Rightarrow> None
           | OnceDone \<Rightarrow> Some (h\<lparr>ws_stop := CloseClients cs\<rparr>))
      | CloseClients [] \<Rightarrow> Some (h\<lparr>ws_clients := {}, ws_mu := False, ws_stop := Signalling\<rparr>)
      | Signalling \<Rightarrow>
          if ws_stopCh h then Some (h\<lparr>ws_stop := StopPanicked\<rparr>) else Some (h\<lparr>ws_stopCh := True, ws_stop := Joining\<rparr>)
      | Joining \<Rightarrow> if ws_wg h = 0 then Some (h\<lparr>ws_stop := StopReturned\<rparr>) else None
      | StopPanicked \<Rightarrow> None
      | _ \<Rightarrow>
          if ws_mu h \<or> set order \<noteq> ws_clients h then None
          else Some (h\<lparr>ws_mu := True, ws_stop := CloseClients order\<rparr>))"

inductive ws_step :: "WebSocketHandler \<Rightarrow> WebSocketHandler \<Rightarrow> bool" where
  start: "WebSocketHandler_Start k h = Some h' \<Longrightarrow> ws_step h h'"
| upgrade: "HandleWebSocket_upgrade r c h = Some h' \<Longrightarrow> ws_step h h'"
| handler: "HandleWebSocket ok c h = Some h' \<Longrightarrow> ws_step h h'"
| reader: "handleClient c h = Some h' \<Longrightarrow> ws_step h h'"
| loop: "broadcastLoop tick order ok k h = Some h' \<Longrightarrow> ws_step h h'"
| remove: "removeClient t h = Some h' \<Longrightarrow> ws_step h h'"
| stop: "WebSocketHandler_Stop order h = Some h' \<Longrightarrow> ws_step h h'"

lemmas ws_defs = WebSocketHandler_Start_def HandleWebSocket_upgrade_def HandleWebSocket_def handleClient_def
  broadcastLoop_def removeClient_def WebSocketHandler_Stop_def sendToClient_def

lemmas ws_splits = if_splits option.splits prod.splits handler_pc.splits reader_pc.splits loop_pc.splits
  stop_pc.splits list.splits remove_pc.splits once_state.splits

section \<open>Connections are closed once\<close>

text \<open>
  The close function of a connection has run when its once is done; at most one call of
  \<^verbatim>\<open>removeClient\<close> is inside the once of a connection.
\<close>

definition once_inv :: "WebSocketHandler \<Rightarrow> bool" where
  "once_inv h \<longleftrightarrow> (\<forall>c. ws_closes h c = (if ws_once h c = OnceDone then 1 else 0))
     \<and> (\<forall>t c pc. ws_removing h t = Some (c, pc) \<longrightarrow> pc \<noteq> EnterOnce \<longrightarrow> ws_once h c = OnceRunning)
     \<and> (\<forall>t t' c pc pc'. ws_removing h t = Some (c, pc) \<longrightarrow> pc \<noteq> EnterOnce \<longrightarrow>
          ws_removing h t' = Some (c, pc') \<longrightarrow> pc' \<noteq> EnterOnce \<longrightarrow> t = t')"

lemma once_invD:
  assumes "once_inv h"
  shows "ws_closes h c = (if ws_once h c = OnceDone then 1 else 0)"
    and "ws_removing h t = Some (c, pc) \<Longrightarrow> pc \<noteq> EnterOnce \<Longrightarrow> ws_once h c = OnceRunning"
    and "ws_removing h t = Some (c, pc) \<Longrightarrow> pc \<noteq> EnterOnce \<Longrightarrow> ws_removing h t' = Some (c, pc') \<Longrightarrow>
      pc' \<noteq> EnterOnce \<Longrightarrow> t = t'"
  using assms unfolding once_inv_def by blast+

lemma once_invI:
  assumes "\<And>c. ws_closes h c = (if ws_once h c = OnceDone then 1 else 0)"
    and "\<And>t c pc. ws_removing h t = Some (c, pc) \<Longrightarrow> pc \<noteq> EnterOnce \<Longrightarrow> ws_once h c = OnceRunning"
    and "\<And>t t' c pc pc'. ws_removing h t = Some (c, pc) \<Longrightarrow> pc \<noteq> EnterOnce \<Longrightarrow> ws_removing h t' = Some (c, pc') \<Longrightarrow>
      pc' \<noteq> EnterOnce \<Longrightarrow> t = t'"
  shows "once_inv h"
  using assms unfolding once_inv_def by blast

text \<open>What a step that neither enters nor leaves a once does.\<close>

lemma once_inv_frame:
  assumes "once_inv h" "ws_closes h' = ws_closes h" "ws_once h' = ws_once h"
    and "\<And>t. ws_removing h' t = ws_removing h t \<or> (\<exists>c. ws_removing h' t = Some (c, EnterOnce))"
  shows "once_inv h'"
proof -
  have old: "ws_removing h t = Some (c, pc)" if "ws_removing h' t = Some (c, pc)" "pc \<noteq> EnterOnce" for t c pc
    using assms(4) [of t] that by auto
  show ?thesis
    by (intro once_invI) (auto simp: assms(2,3) once_invD(1) [OF assms(1)] dest!: old dest: once_invD(2,3) [OF assms(1)])
qed

lemma once_inv_remove:
  assumes inv: "once_inv h" and step: "removeClient t h = Some h'"
  shows "once_inv h'"
proof -
  obtain c pc where at: "ws_removing h t = Some (c, pc)"
    using step by (auto simp: removeClient_def split: option.splits)
  note D = once_invD [OF inv]
  show ?thesis
  proof (cases pc)
    case EnterOnce
    show ?thesis
    proof (cases "ws_once h c")
      case OnceFresh
      then have "\<And>t' pc'. ws_removing h t' = Some (c, pc') \<Longrightarrow> pc' = EnterOnce"
        using D(2) [of _ c] by fastforce
      with OnceFresh at EnterOnce step D show ?thesis
        by (intro once_invI) (auto simp: removeClient_def split: if_splits)
    next
      case OnceDone
      with at EnterOnce step D(1) show ?thesis
        by (intro once_invI) (auto simp: removeClient_def split: if_splits dest: D(2,3))
    qed (use at EnterOnce step in \<open>simp add: removeClient_def\<close>)
  next
    case WantLock
    with at have run: "ws_once h c = OnceRunning" and alone: "\<And>t' pc'. ws_removing h t' = Some (c, pc') \<Longrightarrow> pc' \<noteq> EnterOnce \<Longrightarrow> t' = t"
      using D(2,3) by blast+
    from WantLock at step D(1) run show ?thesis
      by (intro once_invI) (auto simp: removeClient_def split: if_splits dest: D(2,3) alone)
  next
    case Closing
    with at have run: "ws_once h c = OnceRunning" and alone: "\<And>t' pc'. ws_removing h t' = Some (c, pc') \<Longrightarrow> pc' \<noteq> EnterOnce \<Longrightarrow> t' = t"
      using D(2,3) by blast+
    from Closing at step D(1) run show ?thesis
      by (intro once_invI) (auto simp: removeClient_def split: if_splits dest: D(2,3) alone)
  qed
qed

lemma once_inv_stop:
  assumes inv: "once_inv h" and step: "WebSocketHandler_Stop order h = Some h'"
  shows "once_inv h'"
proof (cases "\<exists>c cs. ws_stop h = CloseClients (c # cs) \<and> ws_once h c = OnceFresh")
  case True
  then obtain c cs where at: "ws_stop h = CloseClients (c # cs)" and fresh: "ws_once h c = OnceFresh" by blast
  have "\<And>t pc. ws_removing h t = Some (c, pc) \<Longrightarrow> pc = EnterOnce"
    using once_invD(2) [OF inv, of _ c] fresh by fastforce
  with at fresh step once_invD(1) [OF inv] show ?thesis
    by (intro once_invI) (auto simp: WebSocketHandler_Stop_def split: if_splits dest: once_invD(2,3) [OF inv])
next
  case False
  show ?thesis
    by (rule once_inv_frame [OF inv])
      (use step False in \<open>auto simp: WebSocketHandler_Stop_def split: stop_pc.splits list.splits once_state.splits if_splits\<close>)
qed

lemma once_inv_step: "ws_step h h' \<Longrightarrow> once_inv h \<Longrightarrow> once_inv h'"
proof (induction rule: ws_step.induct)
  case (start k h h')
  then show ?case by (auto simp: WebSocketHandler_Start_def split: if_splits intro: once_inv_frame)
next
  case (upgrade r c h h')
  then show ?case by (auto simp: HandleWebSocket_upgrade_def split: if_splits intro: once_inv_frame)
next
  case (handler ok c h h')
  show ?case
    by (rule once_inv_frame [OF handler(2)])
      (use handler(1) in \<open>auto simp: HandleWebSocket_def sendToClient_def split: option.splits handler_pc.splits if_splits\<close>)
next
  case (reader c h h')
  show ?case
    by (rule once_inv_frame [OF reader(2)])
      (use reader(1) in \<open>auto simp: handleClient_def split: option.splits reader_pc.splits if_splits\<close>)
next
  case (loop tick order ok k h h')
  show ?case
    by (rule once_inv_frame [OF loop(2)])
      (use loop(1) in \<open>auto simp: broadcastLoop_def sendToClient_def split: option.splits loop_pc.splits list.splits if_splits\<close>)
qed (auto intro: once_inv_remove once_inv_stop)

lemma once_inv_init: "once_inv (NewWebSocketHandlerWithConfig origins interval)"
  by (simp add: once_inv_def NewWebSocketHandlerWithConfig_def)

section \<open>What a returned Stop guarantees\<close>

text \<open>A reader leaves only after its connection's once has run.\<close>

definition reader_inv :: "WebSocketHandler \<Rightarrow> bool" where
  "reader_inv h \<longleftrightarrow> (\<forall>c. (\<forall>d pc. ws_removing h (Reader c) = Some (d, pc) \<longrightarrow> d = c \<and> ws_reader h c = Some Deferred)
     \<and> (ws_reader h c = Some Deferred \<longrightarrow> ws_removing h (Reader c) = None \<longrightarrow> ws_once h c = OnceDone)
     \<and> (ws_reader h c = Some ReaderDone \<longrightarrow> ws_once h c = OnceDone)
     \<and> (ws_reader h c \<noteq> None \<longrightarrow> ws_handler h c = Some HandlerDone))"

lemma reader_inv_init: "reader_inv (NewWebSocketHandlerWithConfig origins interval)"
  by (simp add: reader_inv_def NewWebSocketHandlerWithConfig_def)

lemma reader_inv_step: "ws_step h h' \<Longrightarrow> once_inv h \<Longrightarrow> reader_inv h \<Longrightarrow> reader_inv h'"
proof (induction rule: ws_step.induct)
  case (start k h h')
  then show ?case by (auto simp: WebSocketHandler_Start_def reader_inv_def split: if_splits)
next
  case (upgrade r c h h')
  then show ?case by (auto simp: HandleWebSocket_upgrade_def reader_inv_def split: if_splits)
next
  case (handler ok c h h')
  from handler(1,3) show ?case
    by (auto simp: HandleWebSocket_def sendToClient_def reader_inv_def split: option.splits handler_pc.splits if_splits)
next
  case (reader c h h')
  from reader(1,3) show ?case
    by (auto simp: handleClient_def reader_inv_def split: option.splits reader_pc.splits if_splits)
next
  case (loop tick order ok k h h')
  from loop(1,3) show ?case
    by (auto simp: broadcastLoop_def sendToClient_def reader_inv_def split: option.splits loop_pc.splits list.splits if_splits)
next
  case (remove t h h')
  have own: "d = c" if "ws_removing h (Reader c) = Some (d, pc)" for c d pc
    using remove(3) that unfolding reader_inv_def by blast
  from remove(1,3) once_invD(2) [OF remove(2)] show ?case
    by (auto simp: removeClient_def reader_inv_def split: option.splits remove_pc.splits once_state.splits if_splits) (metis own)+
next
  case (stop order h h')
  from stop(1,3) show ?case
    by (auto simp: WebSocketHandler_Stop_def reader_inv_def split: stop_pc.splits list.splits once_state.splits if_splits)
qed

text \<open>The wait group counts the goroutines that have not called \<^verbatim>\<open>Done\<close>.\<close>

abbreviation live_readers :: "WebSocketHandler \<Rightarrow> nat set" where
  "live_readers h \<equiv> {c. ws_reader h c = Some ReadMessage \<or> ws_reader h c = Some Deferred}"

abbreviation live_loops :: "WebSocketHandler \<Rightarrow> nat set" where
  "live_loops h \<equiv> {k. ws_loop h k \<noteq> None \<and> ws_loop h k \<noteq> Some LoopDone}"

definition wg_inv :: "WebSocketHandler \<Rightarrow> bool" where
  "wg_inv h \<longleftrightarrow> finite (live_readers h) \<and> finite (live_loops h) \<and> ws_wg h = card (live_readers h) + card (live_loops h)"

lemma wg_inv_init: "wg_inv (NewWebSocketHandlerWithConfig origins interval)"
  by (simp add: wg_inv_def NewWebSocketHandlerWithConfig_def)

lemma wg_inv_frame:
  "\<lbrakk>wg_inv h; ws_wg h' = ws_wg h; live_readers h' = live_readers h; live_loops h' = live_loops h\<rbrakk> \<Longrightarrow> wg_inv h'"
  by (simp add: wg_inv_def)

lemma wg_inv_add_reader:
  "\<lbrakk>wg_inv h; ws_wg h' = Suc (ws_wg h); c \<notin> live_readers h; live_readers h' = insert c (live_readers h);
    live_loops h' = live_loops h\<rbrakk> \<Longrightarrow> wg_inv h'"
  by (simp only: wg_inv_def finite_insert card_insert_disjoint) simp

lemma wg_inv_add_loop:
  "\<lbrakk>wg_inv h; ws_wg h' = Suc (ws_wg h); k \<notin> live_loops h; live_loops h' = insert k (live_loops h);
    live_readers h' = live_readers h\<rbrakk> \<Longrightarrow> wg_inv h'"
  by (simp only: wg_inv_def finite_insert card_insert_disjoint) simp

lemma wg_inv_del_reader:
  "\<lbrakk>wg_inv h; ws_wg h' = ws_wg h - 1; c \<in> live_readers h; live_readers h' = live_readers h - {c};
    live_loops h' = live_loops h\<rbrakk> \<Longrightarrow> wg_inv h'"
  using card_gt_0_iff [of "live_readers h"]
  by (simp only: wg_inv_def finite_Diff card_Diff_singleton) auto

lemma wg_inv_del_loop:
  "\<lbrakk>wg_inv h; ws_wg h' = ws_wg h - 1; k \<in> live_loops h; live_loops h' = live_loops h - {k};
    live_readers h' = live_readers h\<rbrakk> \<Longrightarrow> wg_inv h'"
  using card_gt_0_iff [of "live_loops h"]
  by (simp only: wg_inv_def finite_Diff card_Diff_singleton) auto

lemma wg_inv_step: "ws_step h h' \<Longrightarrow> reader_inv h \<Longrightarrow> wg_inv h \<Longrightarrow> wg_inv h'"
proof (induction rule: ws_step.induct)
  case (start k h h')
  show ?case
    by (rule wg_inv_add_loop [OF start(3), of _ k]) (use start(1) in \<open>auto simp: WebSocketHandler_Start_def split: if_splits\<close>)
next
  case (upgrade r c h h')
  show ?case
    by (rule wg_inv_frame [OF upgrade(3)]) (use upgrade(1) in \<open>auto simp: HandleWebSocket_upgrade_def split: if_splits\<close>)
next
  case (handler ok c h h')
  show ?case
  proof (cases "ws_handler h c = Some StartReader")
    case True
    then have "ws_reader h c = None"
      using handler(2) unfolding reader_inv_def by fastforce
    note reader = this
    show ?thesis
      by (rule wg_inv_add_reader [OF handler(3), of _ c]) (use reader True handler(1) in \<open>auto simp: HandleWebSocket_def split: if_splits\<close>)
  next
    case False
    show ?thesis
      by (rule wg_inv_frame [OF handler(3)])
        (use handler(1) False in \<open>auto simp: HandleWebSocket_def sendToClient_def split: option.splits handler_pc.splits if_splits\<close>)
  qed
next
  case (reader c h h')
  show ?case
  proof (cases "ws_reader h c = Some Deferred")
    case True
    show ?thesis
      by (rule wg_inv_del_reader [OF reader(3), of _ c]) (use reader(1) True in \<open>auto simp: handleClient_def split: if_splits\<close>)
  next
    case False
    show ?thesis
      by (rule wg_inv_frame [OF reader(3)])
        (use reader(1) False in \<open>auto simp: handleClient_def split: option.splits reader_pc.splits if_splits\<close>)
  qed
next
  case (loop tick order ok k h h')
  show ?case
  proof (cases "ws_loop h k = Some Select \<and> \<not> tick")
    case True
    show ?thesis
      by (rule wg_inv_del_loop [OF loop(3), of _ k]) (use loop(1) True in \<open>auto simp: broadcastLoop_def split: if_splits\<close>)
  next
    case False
    show ?thesis
      by (rule wg_inv_frame [OF loop(3)])
        (use loop(1) False in \<open>auto simp: broadcastLoop_def sendToClient_def split: option.splits loop_pc.splits list.splits if_splits\<close>)
  qed
next
  case (remove t h h')
  show ?case
    by (rule wg_inv_frame [OF remove(3)])
      (use remove(1) in \<open>auto simp: removeClient_def split: option.splits remove_pc.splits once_state.splits if_splits\<close>)
next
  case (stop order h h')
  show ?case
    by (rule wg_inv_frame [OF stop(3)])
      (use stop(1) in \<open>auto simp: WebSocketHandler_Stop_def split: stop_pc.splits list.splits once_state.splits if_splits\<close>)
qed

definition ws_reachable :: "string list \<Rightarrow> duration \<Rightarrow> WebSocketHandler \<Rightarrow> bool" where
  "ws_reachable origins interval = ws_step\<^sup>*\<^sup>* (NewWebSocketHandlerWithConfig origins interval)"

lemma ws_reachable_inv:
  assumes "ws_reachable origins interval h"
  shows "once_inv h \<and> reader_inv h \<and> wg_inv h"
  using assms unfolding ws_reachable_def
  by (induction rule: rtranclp_induct)
    (blast intro: once_inv_init reader_inv_init wg_inv_init once_inv_step reader_inv_step wg_inv_step)+

text \<open>
  C38. In every reachable state of the WebSocket handler no connection has been closed twice, whatever
  the interleaving of its readers, failed writes, broadcast loops and calls of Stop; and when Stop
  returns, every connection whose reader was started has been closed exactly once and no broadcast
  loop runs.
\<close>

theorem websocket_close_once:
  assumes "ws_reachable origins interval h"
  shows "ws_closes h c \<le> 1 \<and>
    (ws_stop h = Joining \<longrightarrow> WebSocketHandler_Stop order h = Some h' \<longrightarrow>
      ws_stop h' = StopReturned \<and> (ws_reader h' c \<noteq> None \<longrightarrow> ws_reader h' c = Some ReaderDone \<and> ws_closes h' c = 1) \<and>
      (\<forall>k. ws_loop h' k = None \<or> ws_loop h' k = Some LoopDone))"
proof (intro conjI impI)
  from ws_reachable_inv [OF assms] have inv: "once_inv h" "reader_inv h" "wg_inv h" by auto
  show "ws_closes h c \<le> 1" using once_invD(1) [OF inv(1)] by simp
  assume at: "ws_stop h = Joining" and step: "WebSocketHandler_Stop order h = Some h'"
  then have "ws_wg h = 0" and h': "h' = h\<lparr>ws_stop := StopReturned\<rparr>"
    by (auto simp: WebSocketHandler_Stop_def split: if_splits)
  then have none: "live_readers h = {}" "live_loops h = {}" using inv(3) by (auto simp: wg_inv_def)
  show "ws_stop h' = StopReturned" "\<forall>k. ws_loop h' k = None \<or> ws_loop h' k = Some LoopDone"
    using none(2) by (auto simp: h')
  assume "ws_reader h' c \<noteq> None"
  then show "ws_reader h' c = Some ReaderDone"
    using none(1) by (auto simp: h') (metis reader_pc.exhaust)
  with inv(2) have "ws_once h c = OnceDone" unfolding reader_inv_def by (simp add: h')
  then show "ws_closes h' c = 1" using once_invD(1) [OF inv(1), of c] by (simp add: h')
qed

section \<open>Runs\<close>

datatype ws_action = A_start nat | A_upgrade HTTPRequest nat | A_handler bool nat | A_reader nat
  | A_loop bool "nat list" bool nat | A_remove ws_thread | A_stop "nat list"

fun ws_exec :: "ws_action \<Rightarrow> WebSocketHandler \<Rightarrow> WebSocketHandler option" where
  "ws_exec (A_start k) h = WebSocketHandler_Start k h"
| "ws_exec (A_upgrade r c) h = HandleWebSocket_upgrade r c h"
| "ws_exec (A_handler ok c) h = HandleWebSocket ok c h"
| "ws_exec (A_reader c) h = handleClient c h"
| "ws_exec (A_loop tick order ok k) h = broadcastLoop tick order ok k h"
| "ws_exec (A_remove t) h = removeClient t h"
| "ws_exec (A_stop order) h = WebSocketHandler_Stop order h"

fun ws_run :: "ws_action list \<Rightarrow> WebSocketHandler \<Rightarrow> WebSocketHandler option" where
  "ws_run [] h = Some h"
| "ws_run (a # as) h = (case ws_exec a h of None \<Rightarrow> None | Some h' \<Rightarrow> ws_run as h')"

lemma ws_exec_step: "ws_exec a h = Some h' \<Longrightarrow> ws_step h h'"
  by (cases a) (auto intro: ws_step.intros)

lemma ws_run_steps: "ws_run as h = Some h' \<Longrightarrow> ws_step\<^sup>*\<^sup>* h h'"
  by (induction "as" arbitrary: h) (auto split: option.splits intro: ws_exec_step converse_rtranclp_into_rtranclp)

definition ws_request :: HTTPRequest where
  "ws_request = \<lparr>r_Method = ''GET'', r_Path = ''/ws/cluster'', r_RawQuery = [], r_Headers = [], r_Body = [], r_BodyErr = False\<rparr>"

text \<open>One client connects.\<close>

definition ws_connect :: "ws_action list" where
  "ws_connect = [A_start 0, A_upgrade ws_request 0, A_handler True 0, A_handler True 0, A_handler True 0]"

text \<open>\<^verbatim>\<open>Stop\<close> closes its connection, the reader and the loop leave.\<close>

definition ws_shutdown :: "ws_action list" where
  "ws_shutdown = [A_stop [0], A_stop [], A_stop [], A_stop [], A_reader 0, A_remove (Reader 0), A_reader 0, A_loop False [] True 0]"

text \<open>The client disconnects, its reader enters the once, and \<^verbatim>\<open>Stop\<close> takes the mutex before it.\<close>

definition ws_race :: "ws_action list" where
  "ws_race = [A_reader 0, A_remove (Reader 0), A_stop [0]]"

definition ws_joining :: WebSocketHandler where
  "ws_joining = the (ws_run (ws_connect @ ws_shutdown) NewWebSocketHandler)"

definition ws_stuck :: WebSocketHandler where
  "ws_stuck = the (ws_run (ws_connect @ ws_race) NewWebSocketHandler)"

lemmas ws_eval = ws_defs ws_connect_def ws_shutdown_def ws_race_def NewWebSocketHandlerWithConfig_def
  NewWebSocketHandler_def checkOrigin_def

lemma ws_joining_run: "ws_run (ws_connect @ ws_shutdown) NewWebSocketHandler = Some ws_joining"
  unfolding ws_joining_def by (simp add: ws_eval)

lemma ws_stuck_run: "ws_run (ws_connect @ ws_race) NewWebSocketHandler = Some ws_stuck"
  unfolding ws_stuck_def by (simp add: ws_eval)

theorem websocket_close_once_witness:
  "ws_stop ws_joining = Joining \<and> (\<exists>h'. WebSocketHandler_Stop [] ws_joining = Some h' \<and>
     ws_stop h' = StopReturned \<and> ws_reader h' 0 = Some ReaderDone \<and> ws_closes h' 0 = 1)"
proof -
  have reach: "ws_reachable [] 0 ws_joining"
    using ws_run_steps [OF ws_joining_run] by (simp add: ws_reachable_def NewWebSocketHandler_def)
  have at: "ws_stop ws_joining = Joining" "ws_wg ws_joining = 0" "ws_reader ws_joining 0 \<noteq> None"
    by (simp_all add: ws_joining_def ws_eval)
  then obtain h' where h': "WebSocketHandler_Stop [] ws_joining = Some h'" "ws_reader h' 0 \<noteq> None"
    by (auto simp: WebSocketHandler_Stop_def)
  with at websocket_close_once [OF reach, of 0 "[]" h'] show ?thesis by auto
qed

section \<open>Stop can wait for ever\<close>

text \<open>
  A reader inside the once of connection 0 waits for the mutex, and \<^verbatim>\<open>Stop\<close>, which holds the
  mutex, waits for the once.
\<close>

definition lock_cycle :: "WebSocketHandler \<Rightarrow> bool" where
  "lock_cycle h \<longleftrightarrow> ws_mu h \<and> ws_stop h = CloseClients [0] \<and> ws_once h 0 = OnceRunning
     \<and> ws_removing h (Reader 0) = Some (0, WantLock)
     \<and> (\<forall>t pc. ws_removing h t = Some (0, pc) \<longrightarrow> t \<noteq> Reader 0 \<longrightarrow> pc = EnterOnce)"

lemma lock_cycle_step: "ws_step h h' \<Longrightarrow> lock_cycle h \<Longrightarrow> lock_cycle h'"
proof (induction rule: ws_step.induct)
  case (remove t h h')
  then have other: "t \<noteq> Reader 0 \<Longrightarrow> ws_removing h t \<noteq> Some (0, Closing)" unfolding lock_cycle_def by blast
  from remove show ?case
    by (cases "t = Reader 0")
      (use other in \<open>auto simp: removeClient_def lock_cycle_def split: option.splits remove_pc.splits once_state.splits if_splits intro!: gr0I\<close>)
qed (auto simp: WebSocketHandler_Start_def HandleWebSocket_upgrade_def HandleWebSocket_def handleClient_def
  broadcastLoop_def WebSocketHandler_Stop_def sendToClient_def lock_cycle_def
  split: option.splits handler_pc.splits reader_pc.splits loop_pc.splits list.splits if_splits intro!: gr0I)

text \<open>
  \<^verbatim>\<open>Stop\<close> takes \<^verbatim>\<open>mu\<close> and then a client's once, \<^verbatim>\<open>removeClient\<close> the once
  and then \<^verbatim>\<open>mu\<close>: there is a run after which no continuation lets \<^verbatim>\<open>Stop\<close> return.
\<close>

theorem websocket_stop_deadlock:
  "ws_step\<^sup>*\<^sup>* NewWebSocketHandler ws_stuck \<and> (\<forall>h'. ws_step\<^sup>*\<^sup>* ws_stuck h' \<longrightarrow> ws_stop h' = CloseClients [0])"
proof (intro conjI allI impI)
  show "ws_step\<^sup>*\<^sup>* NewWebSocketHandler ws_stuck" by (rule ws_run_steps [OF ws_stuck_run])
  fix h' assume "ws_step\<^sup>*\<^sup>* ws_stuck h'"
  moreover have "lock_cycle ws_stuck"
    by (simp add: ws_stuck_def ws_eval lock_cycle_def split: if_splits)
  ultimately have "lock_cycle h'" by (induction rule: rtranclp_induct) (blast intro: lock_cycle_step)+
  then show "ws_stop h' = CloseClients [0]" by (simp add: lock_cycle_def)
qed

end
