(* ===== verification/Server_Process.thy ===== *)
theory Server_Process
  imports Configuration Transport WebSocket KV_System
begin

text \<open>
  The server process: \<^verbatim>\<open>main\<close> after the wiring of \<open>main_setup\<close>, with the components it
  starts and stops. Between two steps of \<^verbatim>\<open>main\<close> the goroutines of the node, the key-value
  server, the WebSocket handler and the HTTP server make any number of theirs. A call of
  \<^verbatim>\<open>Stop\<close> that waits for loops is one step, made when they have ended; the WebSocket handler's
  is the machine of its theory, since it can block.
\<close>

section \<open>State\<close>

text \<open>Where \<^verbatim>\<open>main\<close> is: the call it makes next.\<close>

datatype main_pc =
    AtTransportStart | AtRaftStart | AtKVStart | AtWSStart | AtServe | AtSignal
  | AtHTTPShutdown | AtHTTPDrain | AtWSStop | AtKVStop | AtRaftStop | AtTransportStop | AtStoreClose
  | MainReturned | MainFatal string | MainPanicked

datatype http_server = HTTPUnstarted | HTTPStarting | HTTPListening | HTTPFailed | HTTPClosed

text \<open>The node's storage is the one \<^verbatim>\<open>main\<close> opened and the key-value server uses.\<close>

record 's process =
  p_main :: main_pc
  p_sys :: "'s kv_system"
  p_trans :: GRPCTransport
  p_ws :: WebSocketHandler
  p_http :: http_server
  p_peerHTTP :: "node_id \<rightharpoonup> string"

text \<open>What \<^verbatim>\<open>main\<close> has built when it starts the transport; an error ends the process.\<close>

definition main_build :: "'s storage_ops \<Rightarrow> Config \<Rightarrow> 's \<Rightarrow> string + 's process" where
  "main_build ops cfg store =
     (case main_setup ops cfg store of
        Inl err \<Rightarrow> Inl err
      | Inr (rn, kv, addrs) \<Rightarrow>
          Inr \<lparr>p_main = AtTransportStart,
               p_sys = \<lparr>sys_kv = kv, sys_node = rn, sys_inbox = [], sys_handled = [], sys_clients = Map.empty\<rparr>,
               p_trans = NewGRPCTransport (DefaultGRPCTransportConfig (RaftAddr cfg)),
               p_ws = NewWebSocketHandler, p_http = HTTPUnstarted, p_peerHTTP = addrs\<rparr>)"

section \<open>The main goroutine\<close>

text \<open>
  What the environment decides: whether an address can be listened on, the order in which maps are
  iterated, and whether the shutdown context expires.
\<close>

record main_input =
  in_listen :: "string \<Rightarrow> string option"
  in_pending :: "nat list"
  in_clients :: "nat list"
  in_pool :: "string list"
  in_expired :: bool

text \<open>An HTTP request that is inside the key-value server.\<close>

fun in_flight :: "client \<Rightarrow> bool" where
  "in_flight (Returned cmd err) = False"
| "in_flight _ = True"

definition start_transport :: "main_input \<Rightarrow> 's process \<Rightarrow> 's process" where
  "start_transport inp p =
     (case GRPCTransport_Start (in_listen inp) (p_trans p) of
        (t, Some err) \<Rightarrow> p\<lparr>p_trans := t, p_main := MainFatal ''Failed to start transport''\<rparr>
      | (t, None) \<Rightarrow> p\<lparr>p_trans := t, p_main := AtRaftStart\<rparr>)"

definition stop_transport :: "string list \<Rightarrow> main_pc \<Rightarrow> 's process \<Rightarrow> 's process" where
  "stop_transport order next p =
     (case GRPCTransport_Stop order (p_trans p) of
        None \<Rightarrow> p\<lparr>p_main := MainPanicked\<rparr>
      | Some t \<Rightarrow> p\<lparr>p_trans := t, p_main := next\<rparr>)"

definition start_raft :: "main_input \<Rightarrow> 's process \<Rightarrow> 's process" where
  "start_raft inp p =
     (case RaftNode_Start (sys_node (p_sys p)) of
        (rn, Some err) \<Rightarrow> stop_transport (in_pool inp) (MainFatal ''Failed to start Raft node'') p
      | (rn, None) \<Rightarrow> p\<lparr>p_sys := set_raft rn (p_sys p), p_main := AtKVStart\<rparr>)"

text \<open>\<^verbatim>\<open>KVServer.Start\<close> returns no error.\<close>

definition start_kv :: "'s process \<Rightarrow> 's process" where
  "start_kv p = p\<lparr>p_sys := (p_sys p)\<lparr>sys_kv := KVServer_Start (sys_kv (p_sys p))\<rparr>, p_main := AtWSStart\<rparr>"

definition start_ws :: "'s process \<Rightarrow> 's process option" where
  "start_ws p = map_option (\<lambda>h. p\<lparr>p_ws := h, p_main := AtServe\<rparr>) (WebSocketHandler_Start 0 (p_ws p))"

text \<open>\<^verbatim>\<open>httpServer.Shutdown\<close> closes the listener and waits for the requests, or for the context.\<close>

definition drain_http :: "main_input \<Rightarrow> 's process \<Rightarrow> 's process option" where
  "drain_http inp p =
     (if in_expired inp \<or> (\<forall>cl\<in>ran (sys_clients (p_sys p)). \<not> in_flight cl) then Some (p\<lparr>p_main := AtWSStop\<rparr>) else None)"

definition stop_ws :: "main_input \<Rightarrow> 's process \<Rightarrow> 's process option" where
  "stop_ws inp p =
     (if ws_stop (p_ws p) = StopReturned then Some (p\<lparr>p_main := AtKVStop\<rparr>)
      else if ws_stop (p_ws p) = StopPanicked then Some (p\<lparr>p_main := MainPanicked\<rparr>)
      else map_option (\<lambda>h. p\<lparr>p_ws := h\<rparr>) (WebSocketHandler_Stop (in_clients inp) (p_ws p)))"

definition stop_kv :: "main_input \<Rightarrow> 's process \<Rightarrow> 's process option" where
  "stop_kv inp p =
     (if set (in_pending inp) \<noteq> ran (pendingOps (sys_kv (p_sys p))) then None
      else Some (case KVServer_Stop (in_pending inp) (sys_kv (p_sys p)) of
        None \<Rightarrow> p\<lparr>p_main := MainPanicked\<rparr>
      | Some kv \<Rightarrow> p\<lparr>p_sys := (p_sys p)\<lparr>sys_kv := kv\<rparr>, p_main := AtRaftStop\<rparr>))"

definition stop_raft :: "'s process \<Rightarrow> 's process" where
  "stop_raft p = p\<lparr>p_sys := set_raft (RaftNode_Stop (sys_node (p_sys p))) (p_sys p), p_main := AtTransportStop\<rparr>"

definition close_store :: "'s storage_ops \<Rightarrow> 's process \<Rightarrow> 's process" where
  "close_store ops p =
     (let rn = sys_node (p_sys p)
      in p\<lparr>p_sys := set_raft (rn\<lparr>rn_storage := fst (op_Close ops (rn_storage rn))\<rparr>) (p_sys p), p_main := MainReturned\<rparr>)"

text \<open>One step of \<^verbatim>\<open>main\<close>; \<open>None\<close> when it waits.\<close>

definition main_step :: "'s storage_ops \<Rightarrow> main_input \<Rightarrow> 's process \<Rightarrow> 's process option" where
  "main_step ops inp p =
     (case p_main p of
        AtTransportStart \<Rightarrow> Some (start_transport inp p)
      | AtRaftStart \<Rightarrow> Some (start_raft inp p)
      | AtKVStart \<Rightarrow> Some (start_kv p)
      | AtWSStart \<Rightarrow> start_ws p
      | AtServe \<Rightarrow> Some (p\<lparr>p_http := HTTPStarting, p_main := AtSignal\<rparr>)
      | AtSignal \<Rightarrow> Some (p\<lparr>p_main := AtHTTPShutdown\<rparr>)
      | AtHTTPShutdown \<Rightarrow> Some (p\<lparr>p_http := HTTPClosed, p_main := AtHTTPDrain\<rparr>)
      | AtHTTPDrain \<Rightarrow> drain_http inp p
      | AtWSStop \<Rightarrow> stop_ws inp p
      | AtKVStop \<Rightarrow> stop_kv inp p
      | AtRaftStop \<Rightarrow> Some (stop_raft p)
      | AtTransportStop \<Rightarrow>
          if set (in_pool inp) \<noteq> dom (conns (p_trans p)) then None
          else Some (stop_transport (in_pool inp) AtStoreClose p)
      | AtStoreClose \<Rightarrow> Some (close_store ops p)
      | _ \<Rightarrow> None)"

section \<open>The other goroutines\<close>

text \<open>
  The goroutine of an event exists: requests come while the HTTP server listens, elections and
  applications are made by the loops, remote calls are answered while the gRPC server serves. The
  goroutines that send requests to peers and handle the responses are not waited for by
  \<^verbatim>\<open>Stop\<close> and may run at any time once the node was started.
\<close>

fun alive :: "'s process \<Rightarrow> kv_event \<Rightarrow> bool" where
  "alive p (CallPut c k v) = (p_http p = HTTPListening)"
| "alive p (CallDelete c k) = (p_http p = HTTPListening)"
| "alive p (Submit c) = True"
| "alive p (Await c w) = True"
| "alive p NodeApply = (0 < applyLoops (sys_node (p_sys p)))"
| "alive p HandleNext = True"
| "alive p (StopServer order) = False"
| "alive p NodeTimeout = (0 < electionTimers (sys_node (p_sys p)))"
| "alive p (NodeFinish t v) = (0 < electionTimers (sys_node (p_sys p)))"
| "alive p (NodeVoteRequest req) = (gt_server (p_trans p) = Some Serving \<and> registered (sys_node (p_sys p)))"
| "alive p (NodeAppend req) = (gt_server (p_trans p) = Some Serving \<and> registered (sys_node (p_sys p)))"
| "alive p _ = registered (sys_node (p_sys p))"

text \<open>A WebSocket request comes through the HTTP server; starting and stopping is \<^verbatim>\<open>main\<close>'s.\<close>

fun ws_alive :: "'s process \<Rightarrow> ws_action \<Rightarrow> bool" where
  "ws_alive p (A_upgrade r c) = (p_http p = HTTPListening)"
| "ws_alive p (A_start k) = False"
| "ws_alive p (A_stop order) = False"
| "ws_alive p _ = True"

datatype process_event =
    Main main_input
  | Serve "string option"
  | Store kv_event
  | Socket ws_action
  | Dial "nat \<Rightarrow> connectivity" "string \<Rightarrow> string option" string

text \<open>The goroutine of \<^verbatim>\<open>ListenAndServe\<close>; its error is only logged.\<close>

definition http_serve :: "string option \<Rightarrow> 's process \<Rightarrow> 's process option" where
  "http_serve err p =
     (if p_http p = HTTPStarting then Some (p\<lparr>p_http := (if err = None then HTTPListening else HTTPFailed)\<rparr>) else None)"

fun process_exec :: "'s storage_ops \<Rightarrow> process_event \<Rightarrow> 's process \<Rightarrow> 's process option" where
  "process_exec ops (Main inp) p = main_step ops inp p"
| "process_exec ops (Serve err) p = http_serve err p"
| "process_exec ops (Store ev) p =
     (if alive p ev then map_option (\<lambda>s. p\<lparr>p_sys := s\<rparr>) (kv_exec ops ev (p_sys p)) else None)"
| "process_exec ops (Socket a) p =
     (if ws_alive p a then map_option (\<lambda>h. p\<lparr>p_ws := h\<rparr>) (ws_exec a (p_ws p)) else None)"
| "process_exec ops (Dial state_of dial peer) p =
     (if registered (sys_node (p_sys p))
      then Some (p\<lparr>p_trans := fst (getOrCreateConnection state_of dial peer (p_trans p))\<rparr>) else None)"

fun process_run :: "'s storage_ops \<Rightarrow> process_event list \<Rightarrow> 's process \<Rightarrow> 's process option" where
  "process_run ops [] p = Some p"
| "process_run ops (ev # evs) p = (case process_exec ops ev p of None \<Rightarrow> None | Some p' \<Rightarrow> process_run ops evs p')"

section \<open>What the node's goroutines leave alone\<close>

text \<open>The life cycle of the node: only \<^verbatim>\<open>Start\<close> and \<^verbatim>\<open>Stop\<close> change it.\<close>

definition node_life :: "'s RaftNode \<Rightarrow> bool \<times> bool \<times> nat \<times> nat \<times> bool" where
  "node_life rn = (started rn, stopCh rn, electionTimers rn, applyLoops rn, registered rn)"

lemma node_life_simps [simp]:
  "node_life (rn\<lparr>currentTerm := t\<rparr>) = node_life rn" "node_life (rn\<lparr>votedFor := v\<rparr>) = node_life rn"
  "node_life (rn\<lparr>rn_log := l\<rparr>) = node_life rn" "node_life (rn\<lparr>commitIndex := k\<rparr>) = node_life rn"
  "node_life (rn\<lparr>lastApplied := k\<rparr>) = node_life rn" "node_life (rn\<lparr>nextIndex := m\<rparr>) = node_life rn"
  "node_life (rn\<lparr>matchIndex := m\<rparr>) = node_life rn" "node_life (rn\<lparr>nstate := st\<rparr>) = node_life rn"
  "node_life (rn\<lparr>leaderId := v\<rparr>) = node_life rn" "node_life (rn\<lparr>rn_storage := s\<rparr>) = node_life rn"
  "node_life (rn\<lparr>resetTimerCh := b\<rparr>) = node_life rn" "node_life (rn\<lparr>newEntryCh := b\<rparr>) = node_life rn"
  "node_life (rn\<lparr>stepDownCh := b\<rparr>) = node_life rn" "node_life (rn\<lparr>leaderLoops := n\<rparr>) = node_life rn"
  by (simp_all add: node_life_def)

lemma persistState_life [simp]: "node_life (fst (persistState ops rn)) = node_life rn"
  by (simp add: persistState_def case_prod_unfold Let_def)

lemma stepDown_life [simp]: "node_life (stepDown ops rn t) = node_life rn"
  by (simp add: stepDown_def signalStepDown_def case_prod_unfold Let_def)

lemma becomeLeader_life [simp]: "node_life (becomeLeader ops rn) = node_life rn"
  by (simp add: becomeLeader_def Let_def triggerReplication_def case_prod_unfold split: option.split)

lemma HandleRequestVote_life [simp]: "node_life (fst (HandleRequestVote ops rn req)) = node_life rn"
  by (simp add: HandleRequestVote_def isLogUpToDate_def Let_def resetElectionTimer_def case_prod_unfold split: option.split)

lemma startElection_begin_life [simp]: "node_life (fst (startElection_begin ops rn)) = node_life rn"
  by (simp add: startElection_begin_def Let_def resetElectionTimer_def case_prod_unfold split: option.split)

lemma sendRequestVote_resp_life [simp]: "node_life (fst (sendRequestVote_resp ops rn t v resp)) = node_life rn"
  by (simp add: sendRequestVote_resp_def Let_def)

lemma startElection_finish_life [simp]: "node_life (startElection_finish ops rn t v) = node_life rn"
  by (simp add: startElection_finish_def)

lemma process_entries_life [simp]: "node_life (fst (process_entries ops rn es)) = node_life rn"
  by (induction es arbitrary: rn) (simp_all add: Let_def case_prod_unfold split: option.split)

lemma check_prev_life [simp]: "node_life (fst (check_prev ops rn req)) = node_life rn"
  by (simp add: check_prev_def Let_def case_prod_unfold split: option.split)

lemma HandleAppendEntries_life [simp]: "node_life (fst (HandleAppendEntries ops rn req)) = node_life rn"
  by (simp add: HandleAppendEntries_def Let_def resetElectionTimer_def case_prod_unfold split: option.split bool.split)

lemma sendAppendEntries_req_life [simp]: "node_life (fst (sendAppendEntries_req ops rn p t c)) = node_life rn"
  by (simp add: sendAppendEntries_req_def Let_def case_prod_unfold)

lemma checkCommit_life [simp]: "node_life (checkCommit ops rn) = node_life rn"
proof -
  have "node_life (checkCommit_loop ops rn ns) = node_life rn" for ns
    by (induction ns arbitrary: rn) (simp_all add: Let_def case_prod_unfold)
  then show ?thesis by (simp add: checkCommit_def)
qed

lemma sendAppendEntries_resp_life [simp]: "node_life (sendAppendEntries_resp ops rn p t prev n resp) = node_life rn"
  by (simp add: sendAppendEntries_resp_def backup_nextIndex_def Let_def case_prod_unfold)

lemma Propose_life: "node_life (fst (Propose ops rn cmd)) = node_life rn"
  by (simp add: Propose_def Let_def triggerReplication_def case_prod_unfold split: option.split)

lemma applyLoop_pass_life: "node_life (fst (applyLoop_pass ops rn)) = node_life rn"
proof -
  have "node_life (fst (applyLoop_collect ops rn ns)) = node_life rn" for ns
    by (induction ns arbitrary: rn) (simp_all add: Let_def case_prod_unfold split: option.split)
  then show ?thesis by (simp add: applyLoop_pass_def)
qed

text \<open>Likewise for the key-value server, whose clients and apply loop leave its life cycle alone.\<close>

definition kv_life :: "KVServer \<Rightarrow> nat \<times> bool" where
  "kv_life kv = (kv_applyLoops kv, kv_stopCh kv)"

lemma kv_life_simps [simp]:
  "kv_life (kv\<lparr>pendingOps := m\<rparr>) = kv_life kv" "kv_life (kv\<lparr>chans := c\<rparr>) = kv_life kv"
  "kv_life (kv\<lparr>nextChan := n\<rparr>) = kv_life kv" "kv_life (kv\<lparr>nextRequestID := r\<rparr>) = kv_life kv"
  by (simp_all add: kv_life_def)

lemma try_send_life [simp]: "kv_life (try_send ch r kv) = kv_life kv"
  by (simp add: kv_life_def)

lemma handleApplyMsg_life: "kv_life (fst (handleApplyMsg ops kv s msg)) = kv_life kv"
  by (simp add: handleApplyMsg_def applySnapshot_def notify_def Let_def case_prod_unfold split: option.split)

lemma forget_life [simp]: "kv_life (forget r kv) = kv_life kv"
  by (simp add: forget_def)

lemma propose_wait_life: "propose_wait kv r ch w = Some (kv', e) \<Longrightarrow> kv_life kv' = kv_life kv"
  by (auto simp: propose_wait_def split: wait_case.splits if_splits option.splits)

lemma propose_register_life: "kv_life (fst (propose_register kv cmd)) = kv_life kv"
  by (simp add: propose_register_def Let_def)

lemma propose_submit_life:
  "propose_submit ops kv rn cmd = (kv', rn', e) \<Longrightarrow> kv_life kv' = kv_life kv \<and> node_life rn' = node_life rn"
  using Propose_life [of ops rn "Command_Encode cmd"]
  by (auto simp: propose_submit_def split: prod.splits sum.splits)

lemma store_life:
  assumes "alive p ev" "kv_exec ops ev (p_sys p) = Some sys"
  shows "kv_life (sys_kv sys) = kv_life (sys_kv (p_sys p)) \<and> node_life (sys_node sys) = node_life (sys_node (p_sys p))"
proof (cases ev)
  case (Submit c)
  then show ?thesis using assms(2) by (auto split: option.splits client.splits prod.splits dest!: propose_submit_life)
next
  case (Await c w)
  then show ?thesis using assms(2) by (auto split: option.splits client.splits prod.splits dest!: propose_wait_life)
next
  case NodeApply
  then show ?thesis using assms(2) applyLoop_pass_life [of ops "sys_node (p_sys p)"] by (auto split: prod.splits)
next
  case HandleNext
  then obtain msg rest where "sys_inbox (p_sys p) = msg # rest" using assms(2) by (cases "sys_inbox (p_sys p)") (auto split: if_splits)
  then show ?thesis using HandleNext assms(2) handleApplyMsg_life [of ops "sys_kv (p_sys p)" "rn_storage (sys_node (p_sys p))" msg]
    by (auto split: if_splits prod.splits)
next
  case (CallPut c k v)
  then show ?thesis using assms(2) propose_register_life [of "sys_kv (p_sys p)" "put_command k v"]
    by (auto simp: start_client_def split: if_splits prod.splits)
next
  case (CallDelete c k)
  then show ?thesis using assms(2) propose_register_life [of "sys_kv (p_sys p)" "delete_command k"]
    by (auto simp: start_client_def split: if_splits prod.splits)
qed (use assms in \<open>auto simp: set_raft_def\<close>)

section \<open>An invariant of the process\<close>

text \<open>How far \<^verbatim>\<open>main\<close> has come; nothing has been started when the transport cannot start.\<close>

fun phase :: "main_pc \<Rightarrow> nat" where
  "phase AtTransportStart = 0"
| "phase (MainFatal err) = 0"
| "phase AtRaftStart = 1"
| "phase AtKVStart = 2"
| "phase AtWSStart = 3"
| "phase AtServe = 4"
| "phase AtSignal = 5"
| "phase AtHTTPShutdown = 6"
| "phase AtHTTPDrain = 7"
| "phase AtWSStop = 8"
| "phase AtKVStop = 9"
| "phase AtRaftStop = 10"
| "phase AtTransportStop = 11"
| "phase AtStoreClose = 12"
| "phase MainReturned = 13"
| "phase MainPanicked = 14"

definition trans_inv :: "nat \<Rightarrow> GRPCTransport \<Rightarrow> bool" where
  "trans_inv n t \<longleftrightarrow>
     (if n = 0 then \<not> gt_started t \<and> gt_server t = None \<and> \<not> gt_stopCh t
      else if n \<le> 11 then gt_started t \<and> gt_server t = Some Serving \<and> \<not> gt_stopCh t
      else \<not> gt_started t \<and> gt_server t = Some ServerStopped)"

definition node_inv :: "nat \<Rightarrow> 's RaftNode \<Rightarrow> bool" where
  "node_inv n rn \<longleftrightarrow> node_life rn =
     (if n \<le> 1 then (False, False, 0, 0, False) else if n \<le> 10 then (True, False, 1, 1, True) else (False, True, 0, 0, True))"

definition server_inv :: "nat \<Rightarrow> KVServer \<Rightarrow> bool" where
  "server_inv n kv \<longleftrightarrow> kv_life kv = (if n \<le> 2 then (0, False) else if n \<le> 9 then (1, False) else (0, True))"

definition http_inv :: "nat \<Rightarrow> http_server \<Rightarrow> bool" where
  "http_inv n h \<longleftrightarrow> (if n \<le> 4 then h = HTTPUnstarted else if n \<le> 6 then h \<noteq> HTTPUnstarted \<and> h \<noteq> HTTPClosed else h = HTTPClosed)"

definition loops_done :: "WebSocketHandler \<Rightarrow> bool" where
  "loops_done h \<longleftrightarrow> (\<forall>k. ws_loop h k = None \<or> ws_loop h k = Some LoopDone)"

definition sockets_inv :: "nat \<Rightarrow> WebSocketHandler \<Rightarrow> bool" where
  "sockets_inv n h \<longleftrightarrow> ws_reachable [] 0 h \<and> (n \<le> 3 \<longrightarrow> ws_loop h = Map.empty)
     \<and> (if n \<le> 7 then ws_stop h = NotStopping \<and> \<not> ws_stopCh h
        else if n = 8 then (ws_stop h \<in> {NotStopping, Signalling} \<union> range CloseClients \<and> \<not> ws_stopCh h)
          \<or> (ws_stop h = Joining \<and> ws_stopCh h) \<or> (ws_stop h = StopReturned \<and> ws_stopCh h \<and> loops_done h)
        else ws_stop h = StopReturned \<and> ws_stopCh h \<and> loops_done h)"

definition process_inv :: "'s process \<Rightarrow> bool" where
  "process_inv p \<longleftrightarrow> (let n = phase (p_main p) in n \<le> 13 \<and> trans_inv n (p_trans p) \<and> node_inv n (sys_node (p_sys p))
     \<and> server_inv n (sys_kv (p_sys p)) \<and> http_inv n (p_http p) \<and> sockets_inv n (p_ws p))"

lemma process_invD:
  assumes "process_inv p"
  shows "phase (p_main p) \<le> 13" "trans_inv (phase (p_main p)) (p_trans p)" "node_inv (phase (p_main p)) (sys_node (p_sys p))"
    "server_inv (phase (p_main p)) (sys_kv (p_sys p))" "http_inv (phase (p_main p)) (p_http p)" "sockets_inv (phase (p_main p)) (p_ws p)"
  using assms by (simp_all add: process_inv_def Let_def)

lemma restoreState_life: "restoreState ops rn = Inr rn' \<Longrightarrow> node_life rn' = node_life rn"
  by (auto simp: restoreState_def Let_def split: sum.splits option.splits)

lemma NewRaftNode_life: "NewRaftNode ops rc = Inr rn \<Longrightarrow> node_life rn = (False, False, 0, 0, False)"
  by (auto simp: NewRaftNode_def Let_def split: option.splits sum.splits if_splits dest!: restoreState_life)
    (simp add: node_life_def)

lemma NewKVServer_life: "NewKVServer cfg = Inr kv \<Longrightarrow> kv_life kv = (0, False)"
  by (auto simp: NewKVServer_def kv_life_def Let_def split: option.splits if_splits)

lemma main_build_inv:
  assumes "main_build ops cfg store = Inr p"
  shows "process_inv p"
proof -
  obtain rn kv addrs where s: "main_setup ops cfg store = Inr (rn, kv, addrs)"
    using assms by (auto simp: main_build_def split: sum.splits)
  then have "node_life rn = (False, False, 0, 0, False)" "kv_life kv = (0, False)"
    using NewRaftNode_life NewKVServer_life unfolding main_setup_def by (force split: option.splits sum.splits)+
  moreover have "ws_reachable [] 0 NewWebSocketHandler" by (simp add: ws_reachable_def NewWebSocketHandler_def)
  ultimately show ?thesis using assms s
    by (auto simp: main_build_def process_inv_def trans_inv_def node_inv_def server_inv_def http_inv_def sockets_inv_def
        NewGRPCTransport_def NewWebSocketHandler_def NewWebSocketHandlerWithConfig_def)
qed

text \<open>The life cycle calls in terms of the invariant.\<close>

lemma RaftNode_Start_inv: "node_inv 1 rn \<Longrightarrow> RaftNode_Start rn = (rn', err) \<Longrightarrow> err = None \<and> node_inv 2 rn'"
  by (auto simp: RaftNode_Start_def node_inv_def node_life_def split: if_splits)

lemma RaftNode_Stop_inv: "node_inv 10 rn \<Longrightarrow> node_inv 11 (RaftNode_Stop rn)"
  by (simp add: RaftNode_Stop_def node_inv_def node_life_def)

lemma Transport_Start_inv:
  "trans_inv 0 t \<Longrightarrow> GRPCTransport_Start listen t = (t', err) \<Longrightarrow> trans_inv (if err = None then 1 else 0) t'"
  by (auto simp: GRPCTransport_Start_def trans_inv_def split: if_splits option.splits)

lemma close_conns_life [simp]:
  "gt_started (close_conns ps t) = gt_started t" "gt_server (close_conns ps t) = gt_server t"
  "gt_stopCh (close_conns ps t) = gt_stopCh t"
  by (induction ps arbitrary: t) (simp_all split: option.split)

lemma Transport_Stop_inv: "trans_inv 11 t \<Longrightarrow> \<exists>t'. GRPCTransport_Stop order t = Some t' \<and> trans_inv 12 t'"
  by (simp add: GRPCTransport_Stop_def trans_inv_def Let_def)

lemma KVServer_Start_inv: "server_inv 2 kv \<Longrightarrow> server_inv 3 (KVServer_Start kv)"
  by (simp add: KVServer_Start_def server_inv_def kv_life_def)

lemma KVServer_Stop_inv: "server_inv 9 kv \<Longrightarrow> \<exists>kv'. KVServer_Stop order kv = Some kv' \<and> server_inv 10 kv'"
  by (simp add: KVServer_Stop_def server_inv_def kv_life_def)

lemma ws_reachable_step: "ws_reachable os d h \<Longrightarrow> ws_step h h' \<Longrightarrow> ws_reachable os d h'"
  unfolding ws_reachable_def by (rule rtranclp.rtrancl_into_rtrancl)

lemma sockets_start: "sockets_inv 3 h \<Longrightarrow> WebSocketHandler_Start k h = Some h' \<Longrightarrow> sockets_inv 4 h'"
  using ws_reachable_step [OF _ ws_step.start]
  by (auto simp: sockets_inv_def WebSocketHandler_Start_def)

text \<open>When nothing is left to wait for, no broadcast loop runs.\<close>

lemma joined_loops: "ws_reachable os d h \<Longrightarrow> ws_wg h = 0 \<Longrightarrow> loops_done h"
  using ws_reachable_inv [of os d h] by (auto simp: wg_inv_def loops_done_def)

lemma sockets_stop:
  assumes "sockets_inv 8 h" "WebSocketHandler_Stop order h = Some h'" "ws_stop h \<noteq> StopReturned"
  shows "sockets_inv 8 h'"
proof -
  have "ws_reachable [] 0 h'" using assms(1,2) ws_reachable_step [OF _ ws_step.stop] by (auto simp: sockets_inv_def)
  then show ?thesis using assms joined_loops
    by (auto simp: sockets_inv_def WebSocketHandler_Stop_def split: stop_pc.splits list.splits once_state.splits if_splits)
qed

text \<open>An action of the WebSocket goroutines neither stops the handler nor starts a loop.\<close>

definition socket_calm :: "WebSocketHandler \<Rightarrow> WebSocketHandler \<Rightarrow> bool" where
  "socket_calm h h' \<longleftrightarrow> ws_stop h' = ws_stop h \<and> ws_stopCh h' = ws_stopCh h
     \<and> (\<forall>k. ws_loop h k \<in> {None, Some LoopDone} \<longrightarrow> ws_loop h' k = ws_loop h k)"

lemma socket_action:
  assumes "ws_alive p a" "ws_exec a h = Some h'"
  shows "socket_calm h h'"
proof (cases a)
  case (A_remove t)
  with assms show ?thesis
    by (auto simp: socket_calm_def removeClient_def split: option.splits remove_pc.splits once_state.splits if_splits)
next
  case (A_loop tick order ok k)
  with assms show ?thesis
    by (auto simp: socket_calm_def broadcastLoop_def sendToClient_def split: option.splits loop_pc.splits list.splits if_splits)
next
  case (A_handler ok c)
  with assms show ?thesis
    by (auto simp: socket_calm_def HandleWebSocket_def sendToClient_def split: option.splits handler_pc.splits if_splits)
next
  case (A_reader c)
  with assms show ?thesis
    by (auto simp: socket_calm_def handleClient_def split: option.splits reader_pc.splits if_splits)
qed (use assms in \<open>auto simp: socket_calm_def HandleWebSocket_upgrade_def split: if_splits\<close>)

lemma calm_loops: "socket_calm h h' \<Longrightarrow> loops_done h \<Longrightarrow> loops_done h'"
  by (auto simp: socket_calm_def loops_done_def)

lemma calm_inv:
  assumes "socket_calm h h'" "ws_reachable [] 0 h'" "sockets_inv n h"
  shows "sockets_inv n h'"
proof -
  have "ws_loop h' = Map.empty" if "ws_loop h = Map.empty" using that assms(1) by (auto simp: socket_calm_def)
  moreover have "ws_stop h' = ws_stop h" "ws_stopCh h' = ws_stopCh h" using assms(1) by (simp_all add: socket_calm_def)
  ultimately show ?thesis using assms(2,3) calm_loops [OF assms(1)] by (auto simp: sockets_inv_def)
qed

lemma sockets_action: "ws_alive p a \<Longrightarrow> ws_exec a h = Some h' \<Longrightarrow> sockets_inv n h \<Longrightarrow> sockets_inv n h'"
  by (rule calm_inv [OF socket_action]) (auto simp: sockets_inv_def intro: ws_reachable_step ws_exec_step)

lemma sockets_next: "sockets_inv n h \<Longrightarrow> n \<noteq> 8 \<Longrightarrow> sockets_inv (Suc n) h"
  by (auto simp: sockets_inv_def)

lemma sockets_returned: "sockets_inv 8 h \<Longrightarrow> ws_stop h = StopReturned \<Longrightarrow> sockets_inv 9 h"
  "sockets_inv 8 h \<Longrightarrow> ws_stop h \<noteq> StopPanicked"
  by (auto simp: sockets_inv_def)

lemma dial_life:
  "gt_started (fst (getOrCreateConnection state_of dial peer t)) = gt_started t"
  "gt_server (fst (getOrCreateConnection state_of dial peer t)) = gt_server t"
  "gt_stopCh (fst (getOrCreateConnection state_of dial peer t)) = gt_stopCh t"
  by (simp_all add: getOrCreateConnection_def getConnection_slow_def createConnection_def Let_def split: option.split)

lemmas inv_tables = trans_inv_def node_inv_def server_inv_def http_inv_def

lemma main_step_inv:
  assumes inv: "process_inv p" and step: "main_step ops inp p = Some p'"
  shows "process_inv p'"
proof -
  note i = process_invD [OF inv] sockets_next [OF process_invD(6) [OF inv]]
  show ?thesis
  proof (cases "p_main p")
    case AtTransportStart
    obtain t err where t: "GRPCTransport_Start (in_listen inp) (p_trans p) = (t, err)" by fastforce
    with Transport_Start_inv [OF _ t] AtTransportStart i step show ?thesis
      by (cases err) (auto simp: main_step_def start_transport_def process_inv_def inv_tables)
  next
    case AtRaftStart
    obtain rn err where r: "RaftNode_Start (sys_node (p_sys p)) = (rn, err)" by fastforce
    with RaftNode_Start_inv [OF _ r] AtRaftStart i step show ?thesis
      by (auto simp: main_step_def start_raft_def set_raft_def process_inv_def inv_tables numeral_2_eq_2)
  next
    case AtKVStart
    with KVServer_Start_inv i step show ?thesis
      by (auto simp: main_step_def start_kv_def process_inv_def inv_tables)
  next
    case AtWSStart
    with sockets_start i step show ?thesis
      by (auto simp: main_step_def start_ws_def process_inv_def inv_tables)
  next
    case AtWSStop
    then have i8: "sockets_inv 8 (p_ws p)" using i(6) by simp
    with sockets_stop [OF i8] sockets_returned [OF i8] AtWSStop i(1-5) step show ?thesis
      by (auto simp: main_step_def stop_ws_def process_inv_def inv_tables split: if_splits)
  next
    case AtKVStop
    with KVServer_Stop_inv [of "sys_kv (p_sys p)" "in_pending inp"] i step show ?thesis
      by (auto simp: main_step_def stop_kv_def process_inv_def inv_tables split: if_splits)
  next
    case AtRaftStop
    with RaftNode_Stop_inv i step show ?thesis
      by (auto simp: main_step_def stop_raft_def set_raft_def process_inv_def inv_tables)
  next
    case AtTransportStop
    with Transport_Stop_inv [of "p_trans p" "in_pool inp"] i step show ?thesis
      by (auto simp: main_step_def stop_transport_def process_inv_def inv_tables split: if_splits)
  qed (use i step in \<open>auto simp: main_step_def drain_http_def close_store_def set_raft_def process_inv_def inv_tables Let_def split: if_splits\<close>)
qed

lemma process_exec_inv:
  assumes inv: "process_inv p" and step: "process_exec ops ev p = Some p'"
  shows "process_inv p'"
proof -
  note i = process_invD [OF inv]
  show ?thesis
  proof (cases ev)
    case (Main inp)
    then show ?thesis using main_step_inv [OF inv] step by simp
  next
    case (Store kev)
    then show ?thesis using step i store_life [of p kev ops]
      by (auto simp: process_inv_def node_inv_def server_inv_def split: if_splits)
  next
    case (Socket a)
    then show ?thesis using step i sockets_action by (auto simp: process_inv_def Let_def split: if_splits)
  qed (use step i in \<open>auto simp: process_inv_def http_serve_def http_inv_def trans_inv_def dial_life split: if_splits\<close>)
qed

lemma process_run_inv: "process_inv p \<Longrightarrow> process_run ops evs p = Some p' \<Longrightarrow> process_inv p'"
  by (induction evs arbitrary: p) (auto split: option.splits intro: process_exec_inv)

section \<open>Start and shutdown\<close>

lemma other_main: "process_exec ops ev p = Some p' \<Longrightarrow> \<forall>inp. ev \<noteq> Main inp \<Longrightarrow> p_main p' = p_main p"
  by (cases ev) (auto simp: http_serve_def split: if_splits)

definition fatal_ok :: "main_pc \<Rightarrow> bool" where
  "fatal_ok pc \<longleftrightarrow> (\<forall>err. pc = MainFatal err \<longrightarrow> err = ''Failed to start transport'')"

lemma main_fatal:
  assumes "process_inv p" "main_step ops inp p = Some p'"
  shows "fatal_ok (p_main p')"
proof (cases "p_main p = AtRaftStart")
  case True
  obtain rn err where r: "RaftNode_Start (sys_node (p_sys p)) = (rn, err)" by fastforce
  with RaftNode_Start_inv [OF _ r] True process_invD(3) [OF assms(1)] assms(2) show ?thesis
    by (auto simp: main_step_def start_raft_def fatal_ok_def)
qed (use assms(2) in \<open>auto simp: main_step_def start_transport_def start_kv_def start_ws_def drain_http_def stop_ws_def
      stop_kv_def stop_raft_def stop_transport_def close_store_def Let_def fatal_ok_def
      split: main_pc.splits if_splits option.splits prod.splits\<close>)

lemma process_fatal: "process_inv p \<Longrightarrow> fatal_ok (p_main p) \<Longrightarrow> process_run ops evs p = Some p' \<Longrightarrow> fatal_ok (p_main p')"
proof (induction evs arbitrary: p)
  case (Cons ev evs)
  obtain q where q: "process_exec ops ev p = Some q" "process_run ops evs q = Some p'"
    using Cons.prems(3) by (auto split: option.splits)
  moreover have "fatal_ok (p_main q)"
    using main_fatal [OF Cons.prems(1)] other_main [OF q(1)] q(1) Cons.prems(2) by (cases "\<exists>inp. ev = Main inp") auto
  ultimately show ?case using Cons.IH process_exec_inv [OF Cons.prems(1) q(1)] by blast
qed simp

text \<open>
  C33. Start and shutdown of the process, in any interleaving with its goroutines: \<^verbatim>\<open>main\<close>
  never panics; it dies only because the transport cannot listen, and then nothing was started; when it
  returns, the HTTP server is closed, no broadcast loop, apply loop or election timer is left, the
  gRPC server is stopped, and the key-value server refuses its clients.
\<close>

theorem process_shutdown:
  assumes "main_build ops cfg store = Inr p0" "process_run ops evs p0 = Some p"
  shows "p_main p \<noteq> MainPanicked
    \<and> (\<forall>err. p_main p = MainFatal err \<longrightarrow> err = ''Failed to start transport'' \<and> gt_server (p_trans p) = None
         \<and> \<not> started (sys_node (p_sys p)) \<and> kv_applyLoops (sys_kv (p_sys p)) = 0 \<and> p_http p = HTTPUnstarted)
    \<and> (p_main p = MainReturned \<longrightarrow> p_http p = HTTPClosed \<and> loops_done (p_ws p)
         \<and> kv_applyLoops (sys_kv (p_sys p)) = 0 \<and> kv_stopCh (sys_kv (p_sys p))
         \<and> electionTimers (sys_node (p_sys p)) = 0 \<and> applyLoops (sys_node (p_sys p)) = 0 \<and> \<not> started (sys_node (p_sys p))
         \<and> gt_server (p_trans p) = Some ServerStopped \<and> \<not> gt_started (p_trans p))"
proof -
  have p0: "p_main p0 = AtTransportStart" using assms(1) by (auto simp: main_build_def split: sum.splits)
  note inv0 = main_build_inv [OF assms(1)]
  note i = process_invD [OF process_run_inv [OF inv0 assms(2)]]
  have "fatal_ok (p_main p)" by (rule process_fatal [OF inv0 _ assms(2)]) (simp add: p0 fatal_ok_def)
  then show ?thesis using i
    by (auto simp: inv_tables sockets_inv_def node_life_def kv_life_def fatal_ok_def)
qed

section \<open>The content of the store\<close>

lemma main_setup_store: "main_setup ops cfg store = Inr (rn, kv, addrs) \<Longrightarrow> rn_storage rn = store"
  by (auto simp: main_setup_def main_raft_config_def Build_def builder_defs NewRaftConfigBuilder_def base_config_def
      NewRaftNode_def restoreState_def Let_def split: option.splits sum.splits if_splits prod.splits)

lemma main_build_store: "main_build ops cfg store = Inr p \<Longrightarrow> rn_storage (sys_node (p_sys p)) = store \<and> sys_handled (p_sys p) = []"
  by (auto simp: main_build_def split: sum.splits dest: main_setup_store)

text \<open>Until it closes the store, \<^verbatim>\<open>main\<close> itself neither writes to it nor handles messages.\<close>

lemma main_keeps_store:
  assumes "main_step ops inp p = Some p'" "p_main p' \<noteq> MainReturned"
  shows "rn_storage (sys_node (p_sys p')) = rn_storage (sys_node (p_sys p)) \<and> sys_handled (p_sys p') = sys_handled (p_sys p)"
  using assms
  by (cases "p_main p") (auto simp: main_step_def start_transport_def start_raft_def start_kv_def start_ws_def drain_http_def
      stop_ws_def stop_kv_def stop_raft_def stop_transport_def close_store_def set_raft_def RaftNode_Start_def RaftNode_Stop_def
      Let_def split: if_splits option.splits prod.splits)

lemma returned_stays: "p_main p = MainReturned \<Longrightarrow> process_run ops evs p = Some p' \<Longrightarrow> p_main p' = MainReturned"
proof (induction evs arbitrary: p)
  case (Cons ev evs)
  then obtain q where q: "process_exec ops ev p = Some q" "process_run ops evs q = Some p'" by (auto split: option.splits)
  then have "p_main q = MainReturned"
    using other_main [OF q(1)] Cons.prems(1) by (cases "\<exists>inp. ev = Main inp") (auto simp: main_step_def)
  then show ?case using Cons.IH q(2) by blast
qed simp

text \<open>Once the key-value server's loop has ended, no message is handled.\<close>

lemma store_handled: "kv_exec ops ev sys = Some sys' \<Longrightarrow> kv_applyLoops (sys_kv sys) = 0 \<Longrightarrow> sys_handled sys' = sys_handled sys"
  by (cases ev) (auto simp: start_client_def set_raft_def split: option.splits client.splits prod.splits if_splits)

context shared_store
begin

lemma process_content_exec:
  assumes inv: "content_inv live kv m0 (p_sys p)" and step: "process_exec ops ev p = Some p'" "p_main p' \<noteq> MainReturned"
  shows "content_inv live kv m0 (p_sys p')"
proof (cases ev)
  case (Main inp)
  then show ?thesis using main_keeps_store [of ops inp p p'] step inv by (simp add: content_inv_def)
next
  case (Store kev)
  then show ?thesis using content_exec [OF inv] step(1) by (auto split: if_splits)
qed (use step inv in \<open>auto simp: http_serve_def split: if_splits\<close>)

lemma process_content_run:
  "content_inv live kv m0 (p_sys p) \<Longrightarrow> process_run ops evs p = Some p' \<Longrightarrow> p_main p' \<noteq> MainReturned \<Longrightarrow>
    content_inv live kv m0 (p_sys p')"
proof (induction evs arbitrary: p)
  case (Cons ev evs)
  then obtain q where q: "process_exec ops ev p = Some q" "process_run ops evs q = Some p'" by (auto split: option.splits)
  then have "p_main q \<noteq> MainReturned" using returned_stays Cons.prems(3) by blast
  then show ?case using Cons.IH process_content_exec [OF Cons.prems(1) q(1)] q(2) Cons.prems(3) by blast
qed simp

end

text \<open>The phases after the key-value server was stopped; \<^verbatim>\<open>main\<close> does not go back.\<close>

lemma stopped_phase:
  assumes "process_inv p" "10 \<le> phase (p_main p)" "process_exec ops ev p = Some p'" "p_main p' \<noteq> MainReturned"
  shows "10 \<le> phase (p_main p')" "sys_handled (p_sys p') = sys_handled (p_sys p)"
proof -
  have "kv_applyLoops (sys_kv (p_sys p)) = 0" using process_invD(4) [OF assms(1)] assms(2) by (simp add: server_inv_def kv_life_def)
  then show "sys_handled (p_sys p') = sys_handled (p_sys p)"
    using assms(3,4) by (cases ev) (auto simp: http_serve_def split: if_splits dest: main_keeps_store store_handled)
  show "10 \<le> phase (p_main p')"
  proof (cases "\<exists>inp. ev = Main inp")
    case True
    with assms(2,3) show ?thesis
      by (cases "p_main p") (auto simp: main_step_def stop_raft_def stop_transport_def close_store_def Let_def split: if_splits option.splits)
  qed (use other_main [OF assms(3)] assms(2) in auto)
qed

lemma stopped_handled:
  "process_inv p \<Longrightarrow> 10 \<le> phase (p_main p) \<Longrightarrow> process_run ops evs p = Some p' \<Longrightarrow> p_main p' \<noteq> MainReturned \<Longrightarrow>
    sys_handled (p_sys p') = sys_handled (p_sys p)"
proof (induction evs arbitrary: p)
  case (Cons ev evs)
  then obtain q where q: "process_exec ops ev p = Some q" "process_run ops evs q = Some p'" by (auto split: option.splits)
  then have "p_main q \<noteq> MainReturned" using returned_stays Cons.prems(4) by blast
  note s = stopped_phase [OF Cons.prems(1,2) q(1) this]
  show ?case using Cons.IH [OF process_exec_inv [OF Cons.prems(1) q(1)] s(1) q(2) Cons.prems(4)] s(2) by simp
qed simp

text \<open>
  C34. In the whole process, from its start until it closes the store, the key-value content is the
  content it was opened with followed by the effects of the handled messages; and from the moment the
  key-value server was stopped the content does not change any more, although the Raft node, its
  RPC handlers and its senders may still run.
\<close>

theorem process_store_frozen:
  assumes store: "shared_store ops live kv" "live store"
    and r: "main_build ops cfg store = Inr p0" "process_run ops evs p0 = Some p" "p_main p \<noteq> MainReturned"
  shows "kv (rn_storage (sys_node (p_sys p))) = fold kv_effect (sys_handled (p_sys p)) (kv store)
    \<and> (p_main p \<in> {AtRaftStop, AtTransportStop, AtStoreClose} \<longrightarrow> process_run ops evs' p = Some p' \<longrightarrow> p_main p' \<noteq> MainReturned \<longrightarrow>
         kv (rn_storage (sys_node (p_sys p'))) = kv (rn_storage (sys_node (p_sys p))))"
proof (intro conjI impI)
  have "content_inv live kv (kv store) (p_sys p0)" using main_build_store [OF r(1)] store(2) by (simp add: content_inv_def)
  note c = shared_store.process_content_run [OF store(1) this r(2,3)]
  then show "kv (rn_storage (sys_node (p_sys p))) = fold kv_effect (sys_handled (p_sys p)) (kv store)" by (simp add: content_inv_def)
  assume p: "p_main p \<in> {AtRaftStop, AtTransportStop, AtStoreClose}" and r': "process_run ops evs' p = Some p'" "p_main p' \<noteq> MainReturned"
  have "sys_handled (p_sys p') = sys_handled (p_sys p)"
    by (rule stopped_handled [OF process_run_inv [OF main_build_inv [OF r(1)] r(2)] _ r']) (use p in auto)
  with shared_store.process_content_run [OF store(1) c r'] c
  show "kv (rn_storage (sys_node (p_sys p'))) = kv (rn_storage (sys_node (p_sys p)))" by (simp add: content_inv_def)
qed

section \<open>Runs\<close>

definition sample_config :: Config where
  "sample_config = DefaultConfig\<lparr>NodeID := ''a'', Peers := [''b:5001'', ''c:5001''], PeerHTTPAddrs := Some Map.empty\<rparr>"

definition sample_store :: MemoryStorage where
  "sample_store = fst (MemoryStorage_Put NewMemoryStorage ''k'' ''v'')"

definition sample_process :: "MemoryStorage process" where
  "sample_process = (case main_build mem_ops sample_config sample_store of Inr p \<Rightarrow> p)"

definition calm :: process_event where
  "calm = Main \<lparr>in_listen = (\<lambda>_. None), in_pending = [], in_clients = [], in_pool = [], in_expired = False\<rparr>"

definition boot :: "process_event list" where
  "boot = replicate 5 calm @ [Serve None]"

text \<open>The shutdown up to the node's \<^verbatim>\<open>Stop\<close>, and the rest of it up to the store.\<close>

definition halt :: "process_event list" where
  "halt = replicate 6 calm @ [Socket (A_loop False [] True 0)] @ replicate 3 calm"

lemmas boot_defs = sample_config_def DefaultConfig_def Config_Validate_def main_build_def main_setup_def
  main_raft_config_def Build_def builder_defs NewRaftConfigBuilder_def base_config_def parsePeers_def split_colon_def
  NewRaftNode_def restoreState_def NewLog_def NewKVServer_def sample_store_def mem_ops_def storage_defs
  NewMemoryStorage_def zero_state_def Millisecond_def Let_def

lemma sample_build: "main_build mem_ops sample_config sample_store = Inr sample_process"
proof -
  have "case main_build mem_ops sample_config sample_store of Inl _ \<Rightarrow> False | Inr _ \<Rightarrow> True" by (simp add: boot_defs)
  then show ?thesis by (simp add: sample_process_def split: sum.splits)
qed

lemmas main_defs = main_step_def start_transport_def start_raft_def start_kv_def start_ws_def drain_http_def stop_ws_def
  stop_kv_def stop_raft_def stop_transport_def close_store_def http_serve_def set_raft_def GRPCTransport_Start_def
  GRPCTransport_Stop_def NewGRPCTransport_def RaftNode_Start_def RaftNode_Stop_def KVServer_Start_def KVServer_Stop_def
  NewWebSocketHandler_def NewWebSocketHandlerWithConfig_def WebSocketHandler_Start_def WebSocketHandler_Stop_def
  broadcastLoop_def startElection_begin_def persistState_def resetElectionTimer_def Log_LastIndex_def Log_LastTerm_def
  sendRequestVote_resp_def quorumSize_def becomeLeader_def Log_NextIndex_def Log_Append_def append_entry_def
  cacheEntry_def triggerReplication_def

definition late_vote :: process_event where
  "late_vote = Store (NodeVoteResponse 1 1 \<lparr>rvr_Term = 1, rvr_VoteGranted = True\<rparr>)"

lemmas run_defs = boot_def halt_def calm_def late_vote_def sample_process_def boot_defs main_defs numeral_eq_Suc

lemma shutdown_eval:
  "case process_run mem_ops (boot @ halt @ replicate 3 calm) sample_process of None \<Rightarrow> False | Some p \<Rightarrow> p_main p = MainReturned"
  by (simp add: run_defs)

theorem process_shutdown_witness:
  "\<exists>p. process_run mem_ops (boot @ halt @ replicate 3 calm) sample_process = Some p \<and> p_main p = MainReturned
     \<and> p_http p = HTTPClosed \<and> gt_server (p_trans p) = Some ServerStopped"
proof -
  obtain p where p: "process_run mem_ops (boot @ halt @ replicate 3 calm) sample_process = Some p" "p_main p = MainReturned"
    using shutdown_eval by (auto split: option.splits)
  with process_shutdown [OF sample_build p(1)] show ?thesis by auto
qed

text \<open>The node becomes a candidate, and everything up to the node is stopped.\<close>

lemma frozen_eval:
  "case process_run mem_ops (boot @ [Store NodeTimeout] @ halt) sample_process of None \<Rightarrow> False
   | Some p \<Rightarrow> p_main p = AtRaftStop \<and>
       (case process_run mem_ops [calm, calm, late_vote] p of None \<Rightarrow> False
        | Some p' \<Rightarrow> p_main p' = AtStoreClose \<and> nstate (sys_node (p_sys p')) = Leader
            \<and> leaderLoops (sys_node (p_sys p')) = 1 \<and> logEntries (rn_storage (sys_node (p_sys p'))) \<noteq> [])"
  by (simp add: run_defs)

lemma frozen_run:
  obtains p p' where "process_run mem_ops (boot @ [Store NodeTimeout] @ halt) sample_process = Some p" "p_main p = AtRaftStop"
    "process_run mem_ops [calm, calm, late_vote] p = Some p'" "p_main p' = AtStoreClose" "nstate (sys_node (p_sys p')) = Leader"
    "leaderLoops (sys_node (p_sys p')) = 1" "logEntries (rn_storage (sys_node (p_sys p'))) \<noteq> []"
  using frozen_eval by (auto split: option.splits)

theorem process_store_frozen_witness:
  "\<exists>p p'. process_run mem_ops (boot @ [Store NodeTimeout] @ halt) sample_process = Some p
     \<and> process_run mem_ops [calm, calm, late_vote] p = Some p' \<and> nstate (sys_node (p_sys p')) = Leader
     \<and> data (rn_storage (sys_node (p_sys p'))) = data (rn_storage (sys_node (p_sys p)))"
proof -
  obtain p p' where p: "process_run mem_ops (boot @ [Store NodeTimeout] @ halt) sample_process = Some p" "p_main p = AtRaftStop"
    "process_run mem_ops [calm, calm, late_vote] p = Some p'" "p_main p' = AtStoreClose" "nstate (sys_node (p_sys p')) = Leader"
    by (rule frozen_run)
  have "\<not> closed sample_store" by (simp add: sample_store_def storage_defs NewMemoryStorage_def)
  from process_store_frozen [OF mem_shared.shared_store_axioms this sample_build p(1), of "[calm, calm, late_vote]" p'] p
  show ?thesis by auto
qed

section \<open>Two shutdowns\<close>

text \<open>
  \<^verbatim>\<open>RaftNode.Stop\<close> waits for its loops, but not for the goroutines that wait for votes: a vote
  that arrives when the node and the transport have been stopped makes the node leader, appends to its
  log and starts a leader loop.
\<close>

theorem leader_after_stop:
  "\<exists>p. process_run mem_ops (boot @ [Store NodeTimeout] @ halt @ [calm, calm, late_vote]) sample_process = Some p
     \<and> p_main p = AtStoreClose \<and> \<not> started (sys_node (p_sys p)) \<and> gt_server (p_trans p) = Some ServerStopped
     \<and> nstate (sys_node (p_sys p)) = Leader \<and> leaderLoops (sys_node (p_sys p)) = 1
     \<and> logEntries (rn_storage (sys_node (p_sys p))) \<noteq> []"
proof -
  have "case process_run mem_ops (boot @ [Store NodeTimeout] @ halt @ [calm, calm, late_vote]) sample_process of None \<Rightarrow> False
    | Some p \<Rightarrow> p_main p = AtStoreClose \<and> \<not> started (sys_node (p_sys p)) \<and> gt_server (p_trans p) = Some ServerStopped
     \<and> nstate (sys_node (p_sys p)) = Leader \<and> leaderLoops (sys_node (p_sys p)) = 1
     \<and> logEntries (rn_storage (sys_node (p_sys p))) \<noteq> []"
    by (simp add: run_defs)
  then show ?thesis by (simp split: option.splits)
qed

text \<open>
  A client that disconnects while the WebSocket handler is being stopped: \<^verbatim>\<open>main\<close> waits for
  ever and stops neither the key-value server nor the node, and never closes the store.
\<close>

definition race :: "process_event list" where
  "race = map Socket [A_upgrade ws_request 0, A_handler True 0, A_handler True 0, A_handler True 0] @ replicate 3 calm
     @ map Socket [A_reader 0, A_remove (Reader 0)]
     @ [Main \<lparr>in_listen = (\<lambda>_. None), in_pending = [], in_clients = [0], in_pool = [], in_expired = False\<rparr>]"

lemma hang_exec:
  assumes "p_main p = AtWSStop" "lock_cycle (p_ws p)" "process_exec ops ev p = Some p'"
  shows "p_main p' = AtWSStop \<and> lock_cycle (p_ws p')"
proof (cases ev)
  case (Main inp)
  then have "p_main p' = AtWSStop" "WebSocketHandler_Stop (in_clients inp) (p_ws p) = Some (p_ws p')"
    using assms by (auto simp: main_step_def stop_ws_def lock_cycle_def split: if_splits)
  then show ?thesis using lock_cycle_step [OF ws_step.stop assms(2)] by blast
next
  case (Socket a)
  then show ?thesis using assms lock_cycle_step [OF ws_exec_step] by (auto split: if_splits)
qed (use assms in \<open>auto simp: http_serve_def split: if_splits\<close>)

lemma hang_run:
  "p_main p = AtWSStop \<Longrightarrow> lock_cycle (p_ws p) \<Longrightarrow> process_run ops evs p = Some p' \<Longrightarrow> p_main p' = AtWSStop"
  by (induction evs arbitrary: p) (auto split: option.splits dest: hang_exec)

lemma race_eval:
  "case process_run mem_ops (boot @ race) sample_process of None \<Rightarrow> False | Some p \<Rightarrow> p_main p = AtWSStop \<and> lock_cycle (p_ws p)"
  by (simp add: run_defs race_def ws_request_def HandleWebSocket_upgrade_def checkOrigin_def HandleWebSocket_def sendToClient_def
      handleClient_def removeClient_def lock_cycle_def)

theorem shutdown_hangs:
  "\<exists>p. process_run mem_ops (boot @ race) sample_process = Some p
     \<and> (\<forall>evs p'. process_run mem_ops evs p = Some p' \<longrightarrow> p_main p' = AtWSStop)"
  using race_eval hang_run by (auto split: option.splits)

end
