(* ===== verification/Test_Wait.thy ===== *)
theory Test_Wait
  imports Raft_Types
begin

text \<open>
  \<^verbatim>\<open>pkg/testutil/wait.go\<close> and \<^verbatim>\<open>network.go\<close>: polling loops with a deadline, receiving
  from the apply channel, and free addresses. A loop consumes a list with what each of its iterations
  observes: first the time that passed before it looks at the clock, then what the called function or
  the \<^verbatim>\<open>select\<close> gives. A loop that has used up the list without returning is \<open>None\<close>.
\<close>

section \<open>Polling\<close>

fun wait_loop :: "duration \<Rightarrow> duration \<Rightarrow> duration \<Rightarrow> (nat \<times> bool) list \<Rightarrow> bool option" where
  "wait_loop deadline interval now [] = None"
| "wait_loop deadline interval now ((delay, ok) # obs) =
     (if now + int delay < deadline then
        if ok then Some True else wait_loop deadline interval (now + int delay + interval) obs
      else Some False)"

definition WaitForConditionWithInterval :: "duration \<Rightarrow> duration \<Rightarrow> duration \<Rightarrow> (nat \<times> bool) list \<Rightarrow> bool option" where
  "WaitForConditionWithInterval start timeout interval obs = wait_loop (start + timeout) interval start obs"

definition WaitForCondition :: "duration \<Rightarrow> duration \<Rightarrow> (nat \<times> bool) list \<Rightarrow> bool option" where
  "WaitForCondition start timeout obs = WaitForConditionWithInterval start timeout (10 * Millisecond) obs"

text \<open>An attempt returns an error or nil.\<close>

fun eventually_loop ::
    "duration \<Rightarrow> duration \<Rightarrow> duration \<Rightarrow> string option \<Rightarrow> (nat \<times> string option) list \<Rightarrow> string option option" where
  "eventually_loop deadline interval now lastErr [] = None"
| "eventually_loop deadline interval now lastErr ((delay, err) # obs) =
     (if now + int delay < deadline then
        case err of None \<Rightarrow> Some None
        | Some e \<Rightarrow> eventually_loop deadline interval (now + int delay + interval) (Some e) obs
      else Some lastErr)"

definition EventuallyWithInterval ::
    "duration \<Rightarrow> duration \<Rightarrow> duration \<Rightarrow> (nat \<times> string option) list \<Rightarrow> string option option" where
  "EventuallyWithInterval start timeout interval obs =
     (if timeout \<le> 0 then Some (Some ''timeout must be positive'')
      else eventually_loop (start + timeout) interval start None obs)"

definition Eventually :: "duration \<Rightarrow> duration \<Rightarrow> (nat \<times> string option) list \<Rightarrow> string option option" where
  "Eventually start timeout obs = EventuallyWithInterval start timeout (10 * Millisecond) obs"

section \<open>The apply channel\<close>

text \<open>
  What an iteration of \<^verbatim>\<open>WaitForApplyFunc\<close> observes: the time that passed, the messages that
  were sent meanwhile, and the case its \<^verbatim>\<open>select\<close> takes.
\<close>

datatype apply_case = Received | TimerFired

fun apply_loop ::
    "duration \<Rightarrow> (ApplyMsg \<Rightarrow> bool) \<Rightarrow> duration \<Rightarrow> ApplyMsg list \<Rightarrow> (nat \<times> ApplyMsg list \<times> apply_case) list \<Rightarrow>
     (ApplyMsg list \<times> ApplyMsg option) option" where
  "apply_loop deadline pred now ch [] = None"
| "apply_loop deadline pred now ch ((delay, arrived, sel) # obs) =
     (if now + int delay < deadline then
        case sel of
          Received \<Rightarrow>
            (case ch @ arrived of
               [] \<Rightarrow> None
             | msg # rest \<Rightarrow> if pred msg then Some (rest, Some msg) else apply_loop deadline pred (now + int delay) rest obs)
        | TimerFired \<Rightarrow> apply_loop deadline pred (now + int delay) (ch @ arrived) obs
      else Some (ch @ arrived, None))"

definition WaitForApplyFunc ::
    "duration \<Rightarrow> ApplyMsg list \<Rightarrow> (ApplyMsg \<Rightarrow> bool) \<Rightarrow> duration \<Rightarrow> (nat \<times> ApplyMsg list \<times> apply_case) list \<Rightarrow>
     (ApplyMsg list \<times> ApplyMsg option) option" where
  "WaitForApplyFunc start ch pred timeout obs = apply_loop (start + timeout) pred start ch obs"

definition WaitForApply ::
    "duration \<Rightarrow> ApplyMsg list \<Rightarrow> int64 \<Rightarrow> duration \<Rightarrow> (nat \<times> ApplyMsg list \<times> apply_case) list \<Rightarrow>
     (ApplyMsg list \<times> ApplyMsg option) option" where
  "WaitForApply start ch index timeout obs = apply_loop (start + timeout) (\<lambda>msg. CommandIndex msg = index) start ch obs"

text \<open>\<^verbatim>\<open>DrainChannel\<close> receives until nothing is ready; others may send while it runs.\<close>

fun drain_loop :: "'a list \<Rightarrow> 'a list \<Rightarrow> 'a list list \<Rightarrow> 'a list option" where
  "drain_loop items ch [] = None"
| "drain_loop items ch (arrived # obs) =
     (case ch @ arrived of
        [] \<Rightarrow> Some items
      | item # rest \<Rightarrow> drain_loop (items @ [item]) rest obs)"

definition DrainChannel :: "'a list \<Rightarrow> 'a list list \<Rightarrow> 'a list option" where
  "DrainChannel ch obs = drain_loop [] ch obs"

section \<open>Free addresses\<close>

text \<open>
  The listeners that are open, with their addresses; a listener is the number of the call that
  created it. The function \<open>listen\<close> is \<^verbatim>\<open>net.Listen\<close> on a port of the system's choice, by the
  number of the call. \<open>Inl\<close> is a panic.
\<close>

record network =
  nw_calls :: nat
  nw_open :: "nat \<rightharpoonup> string"

definition GetFreeListener :: "(nat \<Rightarrow> string + string) \<Rightarrow> network \<Rightarrow> network \<times> (string + nat)" where
  "GetFreeListener listen nw =
     (let k = nw_calls nw
      in case listen k of
           Inl err \<Rightarrow> (nw\<lparr>nw_calls := Suc k\<rparr>, Inl err)
         | Inr addr \<Rightarrow> (nw\<lparr>nw_calls := Suc k, nw_open := (nw_open nw)(k \<mapsto> addr)\<rparr>, Inr k))"

definition close_listener :: "nat \<Rightarrow> network \<Rightarrow> network" where
  "close_listener k nw = nw\<lparr>nw_open := (nw_open nw)(k := None)\<rparr>"

definition ListenerAddr :: "network \<Rightarrow> nat \<Rightarrow> string" where
  "ListenerAddr nw k = go_get_str (nw_open nw) k"

definition GetFreeAddr :: "(nat \<Rightarrow> string + string) \<Rightarrow> network \<Rightarrow> network \<times> (string + string)" where
  "GetFreeAddr listen nw =
     (case GetFreeListener listen nw of
        (nw1, Inl err) \<Rightarrow> (nw1, Inl err)
      | (nw1, Inr k) \<Rightarrow> (close_listener k nw1, Inr (ListenerAddr nw1 k)))"

fun addr_loop :: "(nat \<Rightarrow> string + string) \<Rightarrow> nat \<Rightarrow> string list \<Rightarrow> network \<Rightarrow> network \<times> (string + string list)" where
  "addr_loop listen 0 addrs nw = (nw, Inr addrs)"
| "addr_loop listen (Suc n) addrs nw =
     (case GetFreeAddr listen nw of
        (nw1, Inl err) \<Rightarrow> (nw1, Inl err)
      | (nw1, Inr a) \<Rightarrow> addr_loop listen n (addrs @ [a]) nw1)"

definition GetFreeAddrs :: "(nat \<Rightarrow> string + string) \<Rightarrow> int \<Rightarrow> network \<Rightarrow> network \<times> (string + string list)" where
  "GetFreeAddrs listen n nw = (if n < 0 then (nw, Inl ''n must be non-negative'') else addr_loop listen (nat n) [] nw)"

text \<open>The deferred function closes the listeners created so far and panics again.\<close>

fun listener_loop :: "(nat \<Rightarrow> string + string) \<Rightarrow> nat \<Rightarrow> nat list \<Rightarrow> network \<Rightarrow> network \<times> (string + nat list)" where
  "listener_loop listen 0 ls nw = (nw, Inr ls)"
| "listener_loop listen (Suc n) ls nw =
     (case GetFreeListener listen nw of
        (nw1, Inl err) \<Rightarrow> (fold close_listener ls nw1, Inl err)
      | (nw1, Inr k) \<Rightarrow> listener_loop listen n (ls @ [k]) nw1)"

definition GetFreeListeners :: "(nat \<Rightarrow> string + string) \<Rightarrow> int \<Rightarrow> network \<Rightarrow> network \<times> (string + nat list)" where
  "GetFreeListeners listen n nw = (if n < 0 then (nw, Inl ''n must be non-negative'') else listener_loop listen (nat n) [] nw)"

section \<open>Polling ends and reports the first success\<close>

text \<open>The readings of the clock, with what the condition gave at each.\<close>

fun stamped :: "duration \<Rightarrow> duration \<Rightarrow> (nat \<times> bool) list \<Rightarrow> (duration \<times> bool) list" where
  "stamped interval now [] = []"
| "stamped interval now ((delay, ok) # obs) = (now + int delay, ok) # stamped interval (now + int delay + interval) obs"

lemma wait_loop_result: "wait_loop deadline interval now obs = Some b \<Longrightarrow>
    b \<longleftrightarrow> (\<exists>(t, ok)\<in>set (takeWhile (\<lambda>(t, ok). t < deadline) (stamped interval now obs)). ok)"
  by (induction deadline interval now obs rule: wait_loop.induct) (auto split: if_splits)

lemma wait_loop_returns:
  "obs \<noteq> [] \<Longrightarrow> deadline - now \<le> (int (length obs) - 1) * interval \<Longrightarrow> \<exists>b. wait_loop deadline interval now obs = Some b"
proof (induction deadline interval now obs rule: wait_loop.induct)
  case (2 deadline interval now delay ok obs)
  show ?case
  proof (cases "now + int delay < deadline \<and> \<not> ok")
    case True
    have "obs \<noteq> []" using 2 True by auto
    moreover have "deadline - (now + int delay + interval) \<le> (int (length obs) - 1) * interval"
      using "2.prems"(2) by (simp add: algebra_simps)
    ultimately show ?thesis using 2 True by simp
  qed auto
qed simp

text \<open>
  Waiting for a condition ends: as soon as the poll intervals of the iterations add up to the
  timeout, one more iteration is enough. It reports whether the condition held at one of the readings
  of the clock before the deadline.
\<close>

theorem WaitForCondition_returns:
  assumes "obs \<noteq> []" "timeout \<le> (int (length obs) - 1) * interval"
  shows "WaitForConditionWithInterval start timeout interval obs =
    Some (\<exists>(t, ok)\<in>set (takeWhile (\<lambda>(t, ok). t < start + timeout) (stamped interval start obs)). ok)"
proof -
  obtain b where b: "wait_loop (start + timeout) interval start obs = Some b"
    using wait_loop_returns [OF assms(1), of "start + timeout" start interval] assms(2) by auto
  from wait_loop_result [OF b] b show ?thesis by (simp add: WaitForConditionWithInterval_def)
qed

theorem WaitForCondition_returns_witness:
  "WaitForConditionWithInterval 0 20 10 [(1, False), (2, True), (3, True)] = Some True"
  using WaitForCondition_returns [of "[(1, False), (2, True), (3, True)]" 20 10 0] by simp

text \<open>
  When the first look at the clock is already past the deadline, \<^verbatim>\<open>EventuallyWithInterval\<close> returns
  nil although the function was never called.
\<close>

theorem eventually_without_attempt:
  assumes "0 < timeout" "timeout \<le> int delay"
  shows "EventuallyWithInterval start timeout interval ((delay, err) # obs) = Some None"
  using assms by (simp add: EventuallyWithInterval_def)

section \<open>Receiving\<close>

text \<open>What a successful wait takes out of the channel.\<close>

lemma apply_loop_found:
  assumes "apply_loop deadline pred now ch obs = Some (rest, Some msg)"
  shows "\<exists>arrived dropped. ch @ arrived = dropped @ msg # rest \<and> pred msg \<and> (\<forall>m\<in>set dropped. \<not> pred m)"
  using assms
proof (induction deadline pred now ch obs rule: apply_loop.induct)
  case (2 deadline pred now ch delay arrived sel obs)
  have t: "now + int delay < deadline" using "2.prems" by (auto split: if_splits)
  show ?case
  proof (cases sel)
    case Received
    then obtain m r where m: "ch @ arrived = m # r" using "2.prems" t by (auto split: list.splits)
    show ?thesis
    proof (cases "pred m")
      case True
      then show ?thesis using "2.prems" t Received m by (intro exI [of _ arrived] exI [of _ "[]"]) simp
    next
      case False
      then obtain a d where "r @ a = d @ msg # rest" "pred msg" "\<forall>m\<in>set d. \<not> pred m"
        using 2 t Received m by auto
      then show ?thesis using m False by (intro exI [of _ "arrived @ a"] exI [of _ "m # d"]) (simp flip: append_assoc)
    qed
  next
    case TimerFired
    then obtain a d where "(ch @ arrived) @ a = d @ msg # rest" "pred msg" "\<forall>m\<in>set d. \<not> pred m"
      using 2 t by auto
    then show ?thesis by (intro exI [of _ "arrived @ a"] exI [of _ d]) simp
  qed
qed simp

lemma drain_loop_result: "drain_loop items ch obs = Some out \<Longrightarrow> \<exists>arrived. out = items @ ch @ arrived"
proof (induction items ch obs rule: drain_loop.induct)
  case (2 items ch arrived obs)
  then show ?case
    by (cases "ch @ arrived") (auto, metis append_Cons append_assoc append_eq_Cons_conv)
qed simp

section \<open>No listener is leaked\<close>

lemma fold_close: "nw_open (fold close_listener ls nw) = (nw_open nw) |` (- set ls)"
  by (induction ls arbitrary: nw) (auto simp: close_listener_def restrict_map_def fun_eq_iff)

text \<open>The numbers of the open listeners are those of earlier calls.\<close>

definition net_ok :: "network \<Rightarrow> bool" where
  "net_ok nw \<longleftrightarrow> (\<forall>k. nw_calls nw \<le> k \<longrightarrow> nw_open nw k = None)"

lemma GetFreeAddr_open: "net_ok nw \<Longrightarrow> GetFreeAddr listen nw = (nw', r) \<Longrightarrow> nw_open nw' = nw_open nw \<and> net_ok nw'"
  by (auto simp: net_ok_def GetFreeAddr_def GetFreeListener_def close_listener_def Let_def split: sum.splits)

lemma addr_loop_open: "net_ok nw \<Longrightarrow> addr_loop listen n addrs nw = (nw', r) \<Longrightarrow> nw_open nw' = nw_open nw"
proof (induction n arbitrary: addrs nw)
  case (Suc n)
  obtain nw1 x where a: "GetFreeAddr listen nw = (nw1, x)" by fastforce
  from GetFreeAddr_open [OF Suc.prems(1) a] Suc a show ?case by (cases x) auto
qed simp

text \<open>The listeners a loop has created so far are those of the last calls.\<close>

lemma listener_loop_open:
  assumes "net_ok nw" "nw_open nw = nw_open nw0 ++ (\<lambda>k. if k \<in> set ls then Some (addr k) else None)"
    "\<forall>k\<in>set ls. nw_open nw0 k = None \<and> listen k = Inr (addr k)" "distinct ls" "\<forall>k\<in>set ls. k < nw_calls nw"
    "listener_loop listen n ls nw = (nw', r)" "addr = (\<lambda>k. projr (listen k))"
  shows "case r of Inl err \<Rightarrow> nw_open nw' = nw_open nw0
    | Inr ls' \<Rightarrow> length ls' = length ls + n \<and> distinct ls' \<and> (\<forall>k\<in>set ls'. nw_open nw0 k = None \<and> listen k = Inr (addr k))
        \<and> nw_open nw' = nw_open nw0 ++ (\<lambda>k. if k \<in> set ls' then Some (addr k) else None)"
  using assms
proof (induction n arbitrary: ls nw)
  case (Suc n)
  let ?k = "nw_calls nw"
  show ?case
  proof (cases "listen ?k")
    case (Inl err)
    with Suc.prems(2,3,6) show ?thesis
      by (auto simp: GetFreeListener_def Let_def fold_close restrict_map_def map_add_def fun_eq_iff)
  next
    case (Inr a)
    let ?nw = "nw\<lparr>nw_calls := Suc ?k, nw_open := (nw_open nw)(?k \<mapsto> a)\<rparr>"
    have new: "nw_open nw0 ?k = None" "?k \<notin> set ls" "a = addr ?k"
      using Suc.prems(1,2,5,7) Inr by (auto simp: net_ok_def map_add_def split: if_splits option.splits)
    have "case r of Inl err \<Rightarrow> nw_open nw' = nw_open nw0
      | Inr ls' \<Rightarrow> length ls' = length (ls @ [?k]) + n \<and> distinct ls' \<and> (\<forall>k\<in>set ls'. nw_open nw0 k = None \<and> listen k = Inr (addr k))
        \<and> nw_open nw' = nw_open nw0 ++ (\<lambda>k. if k \<in> set ls' then Some (addr k) else None)"
    proof (rule Suc.IH)
      show "net_ok ?nw" using Suc.prems(1) by (simp add: net_ok_def)
      show "nw_open ?nw = nw_open nw0 ++ (\<lambda>k. if k \<in> set (ls @ [?k]) then Some (addr k) else None)"
        using Suc.prems(2) new by (auto simp: map_add_def fun_eq_iff split: option.split)
      show "listener_loop listen n (ls @ [?k]) ?nw = (nw', r)" using Suc.prems(6) Inr by (simp add: GetFreeListener_def Let_def)
      show "\<forall>k\<in>set (ls @ [?k]). nw_open nw0 k = None \<and> listen k = Inr (addr k)" using Suc.prems(3) new Inr by simp
      show "distinct (ls @ [?k])" using Suc.prems(4) new by simp
      show "\<forall>k\<in>set (ls @ [?k]). k < nw_calls ?nw" using Suc.prems(5) by (auto simp: less_Suc_eq)
      show "addr = (\<lambda>k. projr (listen k))" by (rule Suc.prems(7))
    qed
    then show ?thesis by (simp split: sum.splits)
  qed
next
  case 0
  from "0.prems"(6) have "r = Inr ls" "nw' = nw" by auto
  moreover from "0.prems"(3) have "\<forall>k\<in>set ls. nw_open nw0 k = None \<and> listen k = Inr (addr k)" .
  ultimately show ?case using "0.prems"(2,4) by auto
qed

text \<open>
  Free addresses: \<^verbatim>\<open>GetFreeAddrs\<close> leaves no listener open, and \<^verbatim>\<open>GetFreeListeners\<close>
  either creates as many distinct listeners as asked for and opens nothing else, or it panics and
  every listener it had created is closed again.
\<close>

theorem listeners_not_leaked:
  assumes "net_ok nw"
  shows "nw_open (fst (GetFreeAddrs listen n nw)) = nw_open nw
    \<and> (case GetFreeListeners listen n nw of
         (nw', Inl err) \<Rightarrow> nw_open nw' = nw_open nw
       | (nw', Inr ls) \<Rightarrow> int (length ls) = n \<and> distinct ls \<and> (\<forall>k\<in>set ls. nw_open nw k = None)
           \<and> nw_open nw' = nw_open nw ++ (\<lambda>k. if k \<in> set ls then Some (projr (listen k)) else None))"
proof -
  obtain nw1 r1 where a: "GetFreeAddrs listen n nw = (nw1, r1)" by fastforce
  then have "nw_open nw1 = nw_open nw"
    using addr_loop_open [OF assms] by (auto simp: GetFreeAddrs_def split: if_splits)
  moreover obtain nw2 r2 where l: "GetFreeListeners listen n nw = (nw2, r2)" by fastforce
  moreover have "case r2 of Inl err \<Rightarrow> nw_open nw2 = nw_open nw
    | Inr ls \<Rightarrow> int (length ls) = n \<and> distinct ls \<and> (\<forall>k\<in>set ls. nw_open nw k = None)
        \<and> nw_open nw2 = nw_open nw ++ (\<lambda>k. if k \<in> set ls then Some (projr (listen k)) else None)"
  proof (cases "n < 0")
    case False
    with l have "listener_loop listen (nat n) [] nw = (nw2, r2)" by (simp add: GetFreeListeners_def)
    from listener_loop_open [OF assms, of nw "[]" "\<lambda>k. projr (listen k)" listen, OF _ _ _ _ this] False show ?thesis
      by (auto simp: map_add_def fun_eq_iff split: sum.splits)
  qed (use l in \<open>auto simp: GetFreeListeners_def\<close>)
  ultimately show ?thesis using a by (simp split: sum.split)
qed

theorem listeners_not_leaked_witness:
  "snd (GetFreeListeners (\<lambda>k. if k < 2 then Inr ''127.0.0.1:0'' else Inl ''no port'') 3 \<lparr>nw_calls = 0, nw_open = Map.empty\<rparr>)
     = Inl ''no port''
   \<and> nw_open (fst (GetFreeListeners (\<lambda>k. if k < 2 then Inr ''127.0.0.1:0'' else Inl ''no port'') 3 \<lparr>nw_calls = 0, nw_open = Map.empty\<rparr>))
     = Map.empty"
proof -
  let ?l = "\<lambda>k. if k < 2 then Inr ''127.0.0.1:0'' else Inl ''no port''" and ?nw = "\<lparr>nw_calls = 0, nw_open = Map.empty\<rparr>"
  have r: "snd (GetFreeListeners ?l 3 ?nw) = Inl ''no port''"
    by (simp add: GetFreeListeners_def GetFreeListener_def numeral_eq_Suc)
  have "net_ok ?nw" by (simp add: net_ok_def)
  from listeners_not_leaked [OF this, of ?l 3] r show ?thesis by (auto split: prod.splits sum.splits)
qed

end
