(* ===== verification/Test_Cluster.thy ===== *)
theory Test_Cluster
  imports Test_Wait Transport Codec_Roundtrip Raft_Theorems
begin

text \<open>
  \<^verbatim>\<open>pkg/testutil/node.go\<close> and \<^verbatim>\<open>cluster.go\<close>: the clusters of nodes on in-memory storage that
  the repository's integration tests run. The storage of a test node is the one of its Raft node. The
  order in which a map is iterated is an argument, as are the addresses that \<^verbatim>\<open>GetFreeAddr\<close>
  yields and whether an address can be listened on.
\<close>

section \<open>Test nodes\<close>

record TestNode =
  tn_ID :: node_id
  tn_Node :: "MemoryStorage RaftNode"
  tn_Transport :: GRPCTransport
  tn_Addr :: string
  tn_ApplyCh :: "ApplyMsg list"
  tn_storageOwned :: bool

definition tn_Storage :: "TestNode \<Rightarrow> MemoryStorage" where
  "tn_Storage n = rn_storage (tn_Node n)"

record TestNodeConfig =
  tc_ID :: node_id
  tc_Addr :: string
  tc_Peers :: "node_id list"
  tc_PeerAddrs :: "node_id \<rightharpoonup> string"
  tc_Storage :: "MemoryStorage option"
  tc_ApplyCh :: "ApplyMsg list option"
  tc_ElectionTimeoutMin :: duration
  tc_ElectionTimeoutMax :: duration
  tc_HeartbeatInterval :: duration

definition DefaultTestNodeConfig :: TestNodeConfig where
  "DefaultTestNodeConfig = \<lparr>tc_ID = [], tc_Addr = [], tc_Peers = [], tc_PeerAddrs = Map.empty, tc_Storage = None,
     tc_ApplyCh = None, tc_ElectionTimeoutMin = 150 * Millisecond, tc_ElectionTimeoutMax = 300 * Millisecond,
     tc_HeartbeatInterval = 50 * Millisecond\<rparr>"

definition node_raft_config :: "TestNodeConfig \<Rightarrow> MemoryStorage RaftConfig" where
  "node_raft_config cfg =
     \<lparr>cfg_ID = tc_ID cfg, cfg_Peers = tc_Peers cfg, cfg_PeerAddrs = tc_PeerAddrs cfg,
      cfg_Storage = Some (case tc_Storage cfg of None \<Rightarrow> NewMemoryStorage | Some s \<Rightarrow> s),
      cfg_Transport = Some (), cfg_ApplyCh = Some 100,
      cfg_ElectionTimeoutMin = (if tc_ElectionTimeoutMin cfg = 0 then 150 * Millisecond else tc_ElectionTimeoutMin cfg),
      cfg_ElectionTimeoutMax = (if tc_ElectionTimeoutMax cfg = 0 then 300 * Millisecond else tc_ElectionTimeoutMax cfg),
      cfg_HeartbeatInterval = (if tc_HeartbeatInterval cfg = 0 then 50 * Millisecond else tc_HeartbeatInterval cfg)\<rparr>"

text \<open>
  On an error the transport, which was not started, and a storage of its own are given up; nothing of
  them is reachable.
\<close>

definition NewTestNode :: "TestNodeConfig \<Rightarrow> raft_error + TestNode" where
  "NewTestNode cfg =
     (case NewRaftNode mem_ops (node_raft_config cfg) of
        Inl err \<Rightarrow> Inl err
      | Inr node \<Rightarrow>
          Inr \<lparr>tn_ID = tc_ID cfg, tn_Node = node,
               tn_Transport = NewGRPCTransport (DefaultGRPCTransportConfig (tc_Addr cfg)), tn_Addr = tc_Addr cfg,
               tn_ApplyCh = (case tc_ApplyCh cfg of None \<Rightarrow> [] | Some ch \<Rightarrow> ch),
               tn_storageOwned = (tc_Storage cfg = None)\<rparr>)"

datatype test_error =
    TransportFailed string
  | RaftFailed raft_error
  | TransportOf node_id string
  | RaftOf node_id raft_error
  | NodeNotFound node_id
  | NoLeaderAvailable

text \<open>\<open>None\<close> is the panic of a transport that is stopped a second time.\<close>

definition TestNode_Stop :: "string list \<Rightarrow> TestNode \<Rightarrow> TestNode option" where
  "TestNode_Stop order n =
     map_option (\<lambda>t. n\<lparr>tn_Node := RaftNode_Stop (tn_Node n), tn_Transport := t\<rparr>) (GRPCTransport_Stop order (tn_Transport n))"

definition TestNode_Start :: "(string \<Rightarrow> string option) \<Rightarrow> string list \<Rightarrow> TestNode \<Rightarrow> (TestNode \<times> test_error option) option" where
  "TestNode_Start listen order n =
     (case GRPCTransport_Start listen (tn_Transport n) of
        (t, Some err) \<Rightarrow> Some (n\<lparr>tn_Transport := t\<rparr>, Some (TransportFailed err))
      | (t, None) \<Rightarrow>
          (case RaftNode_Start (tn_Node n) of
             (rn, Some err) \<Rightarrow>
               map_option (\<lambda>t'. (n\<lparr>tn_Transport := t'\<rparr>, Some (RaftFailed err))) (GRPCTransport_Stop order t)
           | (rn, None) \<Rightarrow> Some (n\<lparr>tn_Node := rn, tn_Transport := t\<rparr>, None)))"

definition close_storage :: "TestNode \<Rightarrow> TestNode" where
  "close_storage n = n\<lparr>tn_Node := (tn_Node n)\<lparr>rn_storage := fst (MemoryStorage_Close (tn_Storage n))\<rparr>\<rparr>"

definition TestNode_Close :: "string list \<Rightarrow> TestNode \<Rightarrow> TestNode option" where
  "TestNode_Close order n =
     map_option (\<lambda>n'. if tn_storageOwned n' then close_storage n' else n') (TestNode_Stop order n)"

definition TestNode_IsLeader :: "TestNode \<Rightarrow> bool" where
  "TestNode_IsLeader n \<longleftrightarrow> RaftNode_State (tn_Node n) = Leader"

definition TestNode_IsFollower :: "TestNode \<Rightarrow> bool" where
  "TestNode_IsFollower n \<longleftrightarrow> RaftNode_State (tn_Node n) = Follower"

definition TestNode_State :: "TestNode \<Rightarrow> NodeState" where
  "TestNode_State n = RaftNode_State (tn_Node n)"

definition TestNode_Term :: "TestNode \<Rightarrow> int64" where
  "TestNode_Term n = RaftNode_Term (tn_Node n)"

definition TestNode_CommitIndex :: "TestNode \<Rightarrow> int64" where
  "TestNode_CommitIndex n = RaftNode_CommitIndex (tn_Node n)"

section \<open>Test clusters\<close>

record ClusterConfig =
  cc_NumNodes :: int
  cc_ElectionTimeoutMin :: duration
  cc_ElectionTimeoutMax :: duration
  cc_HeartbeatInterval :: duration

definition DefaultClusterConfig :: "int \<Rightarrow> ClusterConfig" where
  "DefaultClusterConfig numNodes = \<lparr>cc_NumNodes = numNodes, cc_ElectionTimeoutMin = 150 * Millisecond,
     cc_ElectionTimeoutMax = 300 * Millisecond, cc_HeartbeatInterval = 50 * Millisecond\<rparr>"

record TestCluster =
  tcl_nodes :: "node_id \<rightharpoonup> TestNode"
  nodeOrder :: "node_id list"
  stoppedNodes :: "node_id set"
  tcl_started :: bool
  initialized :: bool
  tcl_config :: ClusterConfig

definition node_name :: "nat \<Rightarrow> node_id" where
  "node_name i = ''node'' @ dec_nat (Suc i)"

text \<open>The configuration of a node in the constructor's loop; \<open>addrs\<close> are the addresses by number.\<close>

definition new_node_config :: "(nat \<Rightarrow> string) \<Rightarrow> ClusterConfig \<Rightarrow> nat \<Rightarrow> TestNodeConfig" where
  "new_node_config addrs cfg i =
     (let nodeIDs = map node_name [0..<nat (cc_NumNodes cfg)];
          nodeAddrs = map_of (map (\<lambda>k. (node_name k, addrs k)) [0..<nat (cc_NumNodes cfg)]);
          nodeID = node_name i
      in \<lparr>tc_ID = nodeID, tc_Addr = go_get_str nodeAddrs nodeID, tc_Peers = filter (\<lambda>j. j \<noteq> nodeID) nodeIDs,
          tc_PeerAddrs = nodeAddrs, tc_Storage = None, tc_ApplyCh = None,
          tc_ElectionTimeoutMin = cc_ElectionTimeoutMin cfg, tc_ElectionTimeoutMax = cc_ElectionTimeoutMax cfg,
          tc_HeartbeatInterval = cc_HeartbeatInterval cfg\<rparr>)"

fun create_nodes :: "(nat \<Rightarrow> string) \<Rightarrow> nat list \<Rightarrow> TestCluster \<Rightarrow> raft_error + TestCluster" where
  "create_nodes addrs [] c = Inr c"
| "create_nodes addrs (i # is) c =
     (case NewTestNode (new_node_config addrs (tcl_config c) i) of
        Inl err \<Rightarrow> Inl err
      | Inr n \<Rightarrow> create_nodes addrs is
          (c\<lparr>tcl_nodes := (tcl_nodes c)(node_name i \<mapsto> n), nodeOrder := nodeOrder c @ [node_name i]\<rparr>))"

text \<open>A negative number of nodes or a node that cannot be created panics.\<close>

definition NewTestClusterWithConfig :: "(nat \<Rightarrow> string) \<Rightarrow> ClusterConfig \<Rightarrow> TestCluster option" where
  "NewTestClusterWithConfig addrs cfg =
     (if cc_NumNodes cfg < 0 then None
      else case create_nodes addrs [0..<nat (cc_NumNodes cfg)]
             \<lparr>tcl_nodes = Map.empty, nodeOrder = [], stoppedNodes = {}, tcl_started = False, initialized = False, tcl_config = cfg\<rparr> of
           Inl err \<Rightarrow> None
         | Inr c \<Rightarrow> Some c)"

definition NewTestCluster :: "(nat \<Rightarrow> string) \<Rightarrow> int \<Rightarrow> TestCluster option" where
  "NewTestCluster addrs n = NewTestClusterWithConfig addrs (DefaultClusterConfig n)"

text \<open>The configuration for a node that is created again; \<open>order\<close> is the iteration order of the map.\<close>

definition again_config :: "node_id list \<Rightarrow> TestNode \<Rightarrow> TestCluster \<Rightarrow> node_id \<Rightarrow> TestNodeConfig" where
  "again_config order old c i =
     \<lparr>tc_ID = i, tc_Addr = tn_Addr old, tc_Peers = filter (\<lambda>j. j \<noteq> i) order,
      tc_PeerAddrs = (\<lambda>j. map_option tn_Addr (tcl_nodes c j)), tc_Storage = Some (tn_Storage old),
      tc_ApplyCh = Some (tn_ApplyCh old), tc_ElectionTimeoutMin = cc_ElectionTimeoutMin (tcl_config c),
      tc_ElectionTimeoutMax = cc_ElectionTimeoutMax (tcl_config c), tc_HeartbeatInterval = cc_HeartbeatInterval (tcl_config c)\<rparr>"





text \<open>\<open>pools\<close> are the orders in which the transports' pools are iterated.\<close>

fun stop_nodes :: "(node_id \<Rightarrow> string list) \<Rightarrow> node_id list \<Rightarrow> TestCluster \<Rightarrow> TestCluster option" where
  "stop_nodes pools [] c = Some c"
| "stop_nodes pools (i # is) c =
     (case tcl_nodes c i of
        None \<Rightarrow> stop_nodes pools is c
      | Some n \<Rightarrow>
          (case TestNode_Stop (pools i) n of
             None \<Rightarrow> None
           | Some n' \<Rightarrow> stop_nodes pools is (c\<lparr>tcl_nodes := (tcl_nodes c)(i \<mapsto> n')\<rparr>)))"

definition TestCluster_Stop :: "(node_id \<Rightarrow> string list) \<Rightarrow> node_id list \<Rightarrow> TestCluster \<Rightarrow> TestCluster option" where
  "TestCluster_Stop pools order c =
     (if \<not> tcl_started c then Some c else map_option (\<lambda>c'. c'\<lparr>tcl_started := False\<rparr>) (stop_nodes pools order c))"



definition RestartNode ::
    "(string \<Rightarrow> string option) \<Rightarrow> node_id list \<Rightarrow> node_id \<Rightarrow> TestCluster \<Rightarrow> (TestCluster \<times> test_error option) option" where
  "RestartNode listen order i c =
     (case tcl_nodes c i of
        None \<Rightarrow> Some (c, Some (NodeNotFound i))
      | Some old \<Rightarrow>
          (case NewTestNode (again_config order old c i) of
             Inl err \<Rightarrow> Some (c, Some (RaftFailed err))
           | Inr n \<Rightarrow>
               map_option (\<lambda>(n', err). case err of
                   Some e \<Rightarrow> (c, Some e)
                 | None \<Rightarrow> (c\<lparr>tcl_nodes := (tcl_nodes c)(i \<mapsto> n'), stoppedNodes := stoppedNodes c - {i}\<rparr>, None))
                 (TestNode_Start listen [] n)))"

section \<open>Queries\<close>

definition GetNode :: "TestCluster \<Rightarrow> node_id \<Rightarrow> TestNode option" where
  "GetNode c i = tcl_nodes c i"

definition TestCluster_Nodes :: "TestCluster \<Rightarrow> TestNode list" where
  "TestCluster_Nodes c = List.map_filter (tcl_nodes c) (nodeOrder c)"

definition running :: "TestCluster \<Rightarrow> TestNode list" where
  "running c = List.map_filter (tcl_nodes c) (filter (\<lambda>i. i \<notin> stoppedNodes c) (nodeOrder c))"

definition TestCluster_Leader :: "TestCluster \<Rightarrow> TestNode option" where
  "TestCluster_Leader c = find TestNode_IsLeader (running c)"


definition AllNodesHaveEntry :: "int64 \<Rightarrow> TestCluster \<Rightarrow> bool" where
  "AllNodesHaveEntry index c \<longleftrightarrow> list_all (\<lambda>n. \<not> TestNode_CommitIndex n < index) (running c)"

definition NodeCount :: "TestCluster \<Rightarrow> int" where
  "NodeCount c = int (card (dom (tcl_nodes c)))"

definition RunningNodeCount :: "TestCluster \<Rightarrow> int" where
  "RunningNodeCount c = int (card (dom (tcl_nodes c))) - int (card (stoppedNodes c))"

text \<open>The loops that wait look at the cluster as it is at each iteration.\<close>

definition WaitForLeader :: "duration \<Rightarrow> duration \<Rightarrow> (nat \<times> TestCluster) list \<Rightarrow> TestNode option option" where
  "WaitForLeader start timeout obs =
     map_option (\<lambda>found. if found then (case find (\<lambda>(delay, c). TestCluster_Leader c \<noteq> None) obs of
                            Some (delay, c) \<Rightarrow> TestCluster_Leader c | None \<Rightarrow> None) else None)
       (WaitForCondition start timeout (map (map_prod id (\<lambda>c. TestCluster_Leader c \<noteq> None)) obs))"

definition WaitForCommit :: "duration \<Rightarrow> int64 \<Rightarrow> duration \<Rightarrow> (nat \<times> TestCluster) list \<Rightarrow> bool option" where
  "WaitForCommit start index timeout obs = WaitForCondition start timeout (map (map_prod id (AllNodesHaveEntry index)) obs)"



section \<open>Well-formed clusters\<close>

text \<open>What no operation changes of a node: its identity, its peers and the addresses.\<close>

definition same_member :: "TestNode \<Rightarrow> TestNode \<Rightarrow> bool" where
  "same_member n n' \<longleftrightarrow> tn_ID n' = tn_ID n \<and> tn_Addr n' = tn_Addr n \<and> gt_addr (tn_Transport n') = gt_addr (tn_Transport n)
     \<and> rn_id (tn_Node n') = rn_id (tn_Node n) \<and> peers (tn_Node n') = peers (tn_Node n)
     \<and> peerAddrs (tn_Node n') = peerAddrs (tn_Node n)"

text \<open>A member knows the other members, each under its address, and listens on its own.\<close>

definition member_ok :: "(node_id \<rightharpoonup> string) \<Rightarrow> node_id \<Rightarrow> TestNode \<Rightarrow> bool" where
  "member_ok addrs i n \<longleftrightarrow> i \<noteq> [] \<and> tn_ID n = i \<and> rn_id (tn_Node n) = i \<and> gt_addr (tn_Transport n) = tn_Addr n
     \<and> addrs i = Some (tn_Addr n) \<and> distinct (peers (tn_Node n)) \<and> set (peers (tn_Node n)) = dom addrs - {i}
     \<and> peerAddrs (tn_Node n) = addrs"

definition addresses :: "TestCluster \<Rightarrow> node_id \<rightharpoonup> string" where
  "addresses c = (\<lambda>i. map_option tn_Addr (tcl_nodes c i))"

definition cluster_wf :: "TestCluster \<Rightarrow> bool" where
  "cluster_wf c \<longleftrightarrow> distinct (nodeOrder c) \<and> set (nodeOrder c) = dom (tcl_nodes c) \<and> stoppedNodes c \<subseteq> dom (tcl_nodes c)
     \<and> (\<forall>i n. tcl_nodes c i = Some n \<longrightarrow> member_ok (addresses c) i n)"

lemma dom_addresses [simp]: "dom (addresses c) = dom (tcl_nodes c)"
  by (auto simp: addresses_def)

lemma same_member_refl [simp]: "same_member n n"
  by (simp add: same_member_def)



text \<open>How an operation changes a cluster: member by member.\<close>

definition cluster_keeps :: "TestCluster \<Rightarrow> TestCluster \<Rightarrow> bool" where
  "cluster_keeps c c' \<longleftrightarrow> nodeOrder c' = nodeOrder c \<and> tcl_config c' = tcl_config c \<and> dom (tcl_nodes c') = dom (tcl_nodes c)
     \<and> addresses c' = addresses c \<and> (stoppedNodes c \<subseteq> dom (tcl_nodes c) \<longrightarrow> stoppedNodes c' \<subseteq> dom (tcl_nodes c))
     \<and> (\<forall>i n'. tcl_nodes c' i = Some n' \<longrightarrow> member_ok (addresses c) i n' \<or> (\<exists>n. tcl_nodes c i = Some n \<and> same_member n n'))"


lemma keeps_refl [simp]: "cluster_keeps c c"
  by (auto simp: cluster_keeps_def)








section \<open>Operations keep clusters well-formed\<close>

lemma NewRaftNode_member:
  "NewRaftNode ops cfg = Inr rn \<Longrightarrow> cfg_ID cfg \<noteq> [] \<and> rn_id rn = cfg_ID cfg \<and> peers rn = cfg_Peers cfg \<and> peerAddrs rn = cfg_PeerAddrs cfg"
  by (auto simp: NewRaftNode_def restoreState_def Let_def split: if_splits option.splits sum.splits)

lemma NewTestNode_member:
  assumes "NewTestNode cfg = Inr n"
  shows "tc_ID cfg \<noteq> []" "tn_ID n = tc_ID cfg" "rn_id (tn_Node n) = tc_ID cfg" "peers (tn_Node n) = tc_Peers cfg"
    "peerAddrs (tn_Node n) = tc_PeerAddrs cfg" "tn_Addr n = tc_Addr cfg" "gt_addr (tn_Transport n) = tc_Addr cfg"
  using assms
  by (auto simp: NewTestNode_def node_raft_config_def NewGRPCTransport_def DefaultGRPCTransportConfig_def
      split: sum.splits dest!: NewRaftNode_member)


lemma RaftNode_Stop_member [simp]:
  "rn_id (RaftNode_Stop rn) = rn_id rn" "peers (RaftNode_Stop rn) = peers rn" "peerAddrs (RaftNode_Stop rn) = peerAddrs rn"
  by (simp_all add: RaftNode_Stop_def)

lemma close_conns_addr [simp]: "gt_addr (close_conns ps t) = gt_addr t"
  by (induction ps arbitrary: t) (simp_all split: option.split)






lemma close_storage_same [simp]: "same_member n (close_storage n)"
  by (simp add: same_member_def close_storage_def)


















section \<open>New clusters\<close>

lemma node_name_inject [simp]: "node_name i = node_name j \<longleftrightarrow> i = j"
  by (metis append_same_eq digits_val_dec_nat node_name_def old.nat.inject same_append_eq)

lemma node_name_not_nil [simp]: "node_name i \<noteq> []"
  by (simp add: node_name_def)

lemma new_nodeaddrs: "map_of (map (\<lambda>k. (node_name k, addrs k)) ks) (node_name i) = (if i \<in> set ks then Some (addrs i) else None)"
  by (induction ks) auto

lemma NewTestNode_ok: "tc_ID cfg \<noteq> [] \<Longrightarrow> tc_Storage cfg = None \<Longrightarrow> \<exists>n. NewTestNode cfg = Inr n"
  using mem.NewRaftNode_blank_ok [of "node_raft_config cfg" NewMemoryStorage] mem_blank
  by (auto simp: NewTestNode_def node_raft_config_def)

text \<open>The nodes of a new cluster.\<close>

definition new_nodes :: "(nat \<Rightarrow> string) \<Rightarrow> ClusterConfig \<Rightarrow> nat list \<Rightarrow> node_id \<rightharpoonup> TestNode" where
  "new_nodes addrs cfg is = map_of (map (\<lambda>i. (node_name i, projr (NewTestNode (new_node_config addrs cfg i)))) is)"

lemma create_nodes_result:
  "distinct is \<Longrightarrow> \<exists>c'. create_nodes addrs is c = Inr c' \<and> tcl_nodes c' = tcl_nodes c ++ new_nodes addrs (tcl_config c) is
     \<and> nodeOrder c' = nodeOrder c @ map node_name is \<and> stoppedNodes c' = stoppedNodes c \<and> tcl_config c' = tcl_config c"
proof (induction "is" arbitrary: c)
  case (Cons i "is")
  obtain n where n: "NewTestNode (new_node_config addrs (tcl_config c) i) = Inr n"
    using NewTestNode_ok [of "new_node_config addrs (tcl_config c) i"] by (auto simp: new_node_config_def Let_def)
  have "new_nodes addrs (tcl_config c) is (node_name i) = None"
    using Cons.prems by (auto simp: new_nodes_def map_of_eq_None_iff)
  then have "(tcl_nodes c)(node_name i \<mapsto> n) ++ new_nodes addrs (tcl_config c) is = tcl_nodes c ++ new_nodes addrs (tcl_config c) (i # is)"
    using n by (auto simp: new_nodes_def map_add_def fun_eq_iff split: option.split)
  moreover let ?c = "c\<lparr>tcl_nodes := (tcl_nodes c)(node_name i \<mapsto> n), nodeOrder := nodeOrder c @ [node_name i]\<rparr>"
  obtain c' where "create_nodes addrs is ?c = Inr c'" "tcl_nodes c' = (tcl_nodes c)(node_name i \<mapsto> n) ++ new_nodes addrs (tcl_config c) is"
    "nodeOrder c' = nodeOrder c @ map node_name (i # is)" "stoppedNodes c' = stoppedNodes c" "tcl_config c' = tcl_config c"
    using Cons.IH [of ?c] Cons.prems by (auto simp: fun_upd_def)
  ultimately show ?case using n by (intro exI [of _ c']) simp
qed (simp add: new_nodes_def)

lemma NewTestCluster_result:
  assumes "NewTestClusterWithConfig addrs cfg = Some c"
  shows "0 \<le> cc_NumNodes cfg" "nodeOrder c = map node_name [0..<nat (cc_NumNodes cfg)]" "stoppedNodes c = {}" "tcl_config c = cfg"
    "tcl_nodes c = new_nodes addrs cfg [0..<nat (cc_NumNodes cfg)]"
  using assms create_nodes_result [of "[0..<nat (cc_NumNodes cfg)]" addrs
      "\<lparr>tcl_nodes = Map.empty, nodeOrder = [], stoppedNodes = {}, tcl_started = False, initialized = False, tcl_config = cfg\<rparr>"]
  by (auto simp: NewTestClusterWithConfig_def split: if_splits)

lemma new_nodes_name: "new_nodes addrs cfg is (node_name i) =
    (if i \<in> set is then Some (projr (NewTestNode (new_node_config addrs cfg i))) else None)"
  by (induction "is") (auto simp: new_nodes_def)

lemma new_nodes_dom: "dom (new_nodes addrs cfg is) = node_name ` set is"
  by (simp add: new_nodes_def dom_map_of_conv_image_fst image_image)

text \<open>A node of a new cluster and its number.\<close>

lemma new_node:
  assumes "NewTestClusterWithConfig addrs cfg = Some c" "tcl_nodes c j = Some n"
  obtains i where "i < nat (cc_NumNodes cfg)" "j = node_name i" "NewTestNode (new_node_config addrs cfg i) = Inr n"
proof -
  note c = NewTestCluster_result [OF assms(1)]
  have "j \<in> node_name ` {0..<nat (cc_NumNodes cfg)}" using assms(2) c(5) new_nodes_dom [of addrs cfg] by (metis domI set_upt)
  then obtain i where i: "i < nat (cc_NumNodes cfg)" "j = node_name i" by auto
  obtain m where "NewTestNode (new_node_config addrs cfg i) = Inr m"
    using NewTestNode_ok [of "new_node_config addrs cfg i"] by (auto simp: new_node_config_def Let_def)
  with that i assms(2) c(5) show ?thesis by (simp add: new_nodes_name)
qed

lemma new_addresses:
  assumes "NewTestClusterWithConfig addrs cfg = Some c"
  shows "addresses c = map_of (map (\<lambda>k. (node_name k, addrs k)) [0..<nat (cc_NumNodes cfg)])" (is "_ = ?A")
proof
  fix j
  show "addresses c j = ?A j"
  proof (cases "tcl_nodes c j")
    case None
    then have "j \<notin> node_name ` {0..<nat (cc_NumNodes cfg)}"
      using NewTestCluster_result(5) [OF assms] new_nodes_dom [of addrs cfg] by (metis domIff set_upt)
    then have "?A j = None" by (auto simp: map_of_eq_None_iff)
    then show ?thesis using None by (simp add: addresses_def)
  next
    case (Some n)
    obtain i where i: "i < nat (cc_NumNodes cfg)" "j = node_name i" "NewTestNode (new_node_config addrs cfg i) = Inr n"
      by (rule new_node [OF assms Some])
    then show ?thesis using Some NewTestNode_member(6) [OF i(3)]
      by (simp add: addresses_def new_nodeaddrs new_node_config_def Let_def go_get_str_def)
  qed
qed

lemma new_cluster_wf:
  assumes "NewTestClusterWithConfig addrs cfg = Some c"
  shows "cluster_wf c"
proof -
  note c = NewTestCluster_result [OF assms]
  have d: "dom (tcl_nodes c) = node_name ` {0..<nat (cc_NumNodes cfg)}" by (simp add: c(5) new_nodes_dom)
  have "member_ok (addresses c) j n" if n: "tcl_nodes c j = Some n" for j n
  proof -
    obtain i where i: "i < nat (cc_NumNodes cfg)" "j = node_name i" "NewTestNode (new_node_config addrs cfg i) = Inr n"
      by (rule new_node [OF assms n])
    then show ?thesis using NewTestNode_member [OF i(3)] d n new_addresses [OF assms]
      by (auto simp: member_ok_def new_node_config_def Let_def distinct_map inj_on_def distinct_filter new_nodeaddrs go_get_str_def)
  qed
  then show ?thesis using c d by (auto simp: cluster_wf_def distinct_map inj_on_def)
qed

section \<open>What the tests can rely on\<close>




text \<open>A new test cluster is a cluster in the sense of the consensus theorems.\<close>

lemma test_cluster_fresh:
  assumes "NewTestClusterWithConfig addrs cfg = Some c"
  shows "\<exists>cfgs. fresh_cluster (set (nodeOrder c)) cfgs (idle_cluster (\<lambda>i. tn_Node (the (GetNode c i))))"
proof -
  note c = NewTestCluster_result [OF assms]
  let ?num = "the_inv node_name"
  have num: "?num (node_name i) = i" for i by (rule the_inv_f_f) (simp_all add: inj_def)
  have "member_config (set (nodeOrder c)) j (node_raft_config (new_node_config addrs cfg (?num j)))
      \<and> NewRaftNode mem_ops (node_raft_config (new_node_config addrs cfg (?num j))) = Inr (tn_Node (the (GetNode c j)))"
    if "j \<in> set (nodeOrder c)" for j
  proof -
    from that c(2) obtain i where i: "i < nat (cc_NumNodes cfg)" "j = node_name i" by auto
    then obtain n where n: "GetNode c j = Some n" using c(5) by (simp add: GetNode_def new_nodes_name)
    obtain k where "j = node_name k" "NewTestNode (new_node_config addrs cfg k) = Inr n"
      by (rule new_node [OF assms n [unfolded GetNode_def]])
    with i(2) have "NewTestNode (new_node_config addrs cfg i) = Inr n" by simp
    then have "NewRaftNode mem_ops (node_raft_config (new_node_config addrs cfg i)) = Inr (tn_Node n)"
      by (auto simp: NewTestNode_def split: sum.splits)
    moreover have "member_config (set (nodeOrder c)) j (node_raft_config (new_node_config addrs cfg i))"
      using i c(2) by (auto simp: member_config_def node_raft_config_def new_node_config_def Let_def distinct_map inj_on_def)
    ultimately show ?thesis using i num n by simp
  qed
  then have "fresh_cluster (set (nodeOrder c)) (\<lambda>j. node_raft_config (new_node_config addrs cfg (?num j)))
      (idle_cluster (\<lambda>i. tn_Node (the (GetNode c i))))"
    by (simp add: fresh_cluster_def idle_cluster_def)
  then show ?thesis by blast
qed



text \<open>The order of the peers plays no role when a node is created.\<close>

lemma NewRaftNode_peers: "NewRaftNode ops cfg = Inr rn \<Longrightarrow> NewRaftNode ops (cfg\<lparr>cfg_Peers := ps\<rparr>) = Inr (rn\<lparr>peers := ps\<rparr>)"
  by (auto simp: NewRaftNode_def restoreState_def Let_def split: if_splits option.splits sum.splits)

text \<open>
  A node that is restarted comes back with what it had stored: when its address can be listened
  on, \<^verbatim>\<open>RestartNode\<close> succeeds, the new node runs as a follower with the term, vote and log of the
  old one, nothing committed and the same apply channel, and no other node is touched.
\<close>

theorem RestartNode_restores:
  assumes wf: "cluster_wf c" and n: "GetNode c i = Some n" and ok: "node_ok mem_inv mem_abs mem_can_append (tn_Node n)"
    and up: "listen (tn_Addr n) = None"
  shows "\<exists>c' n'. RestartNode listen order i c = Some (c', None) \<and> GetNode c' i = Some n' \<and> i \<notin> stoppedNodes c'
    \<and> (\<forall>j. j \<noteq> i \<longrightarrow> GetNode c' j = GetNode c j) \<and> tn_ApplyCh n' = tn_ApplyCh n
    \<and> started (tn_Node n') \<and> gt_server (tn_Transport n') = Some Serving
    \<and> TestNode_Term n' = TestNode_Term n \<and> votedFor (tn_Node n') = votedFor (tn_Node n) \<and> TestNode_IsFollower n'
    \<and> TestNode_CommitIndex n' = 0 \<and> (\<forall>k. GetEntry (tn_Node n') k = GetEntry (tn_Node n) k)"
proof -
  let ?cfg = "again_config order n c i" and ?rn = "tn_Node n"
  have m: "member_ok (addresses c) i n" using wf n by (auto simp: cluster_wf_def GetNode_def)
  let ?rc = "(node_raft_config ?cfg)\<lparr>cfg_Peers := peers ?rn\<rparr>"
  have "cfg_ID ?rc = rn_id ?rn" "cfg_Peers ?rc = peers ?rn" "cfg_PeerAddrs ?rc = peerAddrs ?rn"
    "cfg_Storage ?rc = Some (rn_storage ?rn)" "cfg_Transport ?rc \<noteq> None"
    using m by (simp_all add: node_raft_config_def again_config_def tn_Storage_def member_ok_def addresses_def)
  from mem.NewRaftNode_restart [OF ok _ this] m
  obtain rn0 where rn0: "NewRaftNode mem_ops ?rc = Inr rn0" "mem_nok rn0" "mem_view rn0 = s_restart (mem_view ?rn)"
    by (auto simp: member_ok_def)
  define rn where "rn = rn0\<lparr>peers := tc_Peers ?cfg\<rparr>"
  have rn: "NewRaftNode mem_ops (node_raft_config ?cfg) = Inr rn"
    using NewRaftNode_peers [OF rn0(1), of "tc_Peers ?cfg"] by (simp add: rn_def node_raft_config_def)
  let ?t = "NewGRPCTransport (DefaultGRPCTransportConfig (tn_Addr n))"
  obtain rn1 where rn1: "RaftNode_Start rn = (rn1, None)" "started rn1" "rn_log rn1 = rn_log rn" "rn_storage rn1 = rn_storage rn"
      "currentTerm rn1 = currentTerm rn" "votedFor rn1 = votedFor rn" "nstate rn1 = nstate rn" "commitIndex rn1 = commitIndex rn"
    using rn by (auto simp: RaftNode_Start_def NewRaftNode_def restoreState_def Let_def split: if_splits option.splits sum.splits)
  have t: "GRPCTransport_Start listen ?t = (?t\<lparr>gt_server := Some Serving, gt_started := True\<rparr>, None)"
    using up by (simp add: GRPCTransport_Start_def NewGRPCTransport_def DefaultGRPCTransportConfig_def)
  let ?n = "\<lparr>tn_ID = i, tn_Node = rn1, tn_Transport = ?t\<lparr>gt_server := Some Serving, gt_started := True\<rparr>, tn_Addr = tn_Addr n,
    tn_ApplyCh = tn_ApplyCh n, tn_storageOwned = False\<rparr>"
  have r: "RestartNode listen order i c
      = Some (c\<lparr>tcl_nodes := (tcl_nodes c)(i \<mapsto> ?n), stoppedNodes := stoppedNodes c - {i}\<rparr>, None)"
    using n rn rn1(1) t by (simp add: RestartNode_def GetNode_def NewTestNode_def TestNode_Start_def)
      (simp add: again_config_def)
  have "GetEntry rn1 k = GetEntry ?rn k" for k
    using GetEntry_view [OF rn0(2)] GetEntry_view [OF ok] rn0(3) rn1(3,4) by (simp add: s_restart_def rn_def)
  moreover have "currentTerm rn = currentTerm ?rn" "votedFor rn = votedFor ?rn" "nstate rn = Follower" "commitIndex rn = 0"
    using rn0(3) by (simp_all add: s_restart_def node_view_def rn_def)
  ultimately show ?thesis using r rn1
    by (auto simp: GetNode_def TestNode_Term_def TestNode_IsFollower_def TestNode_CommitIndex_def RaftNode_Term_def
        RaftNode_State_def RaftNode_CommitIndex_def)
qed

text \<open>A cluster of three with a stopped node.\<close>

definition three :: TestCluster where
  "three = the (NewTestCluster (\<lambda>k. ''127.0.0.1:'' @ dec_nat k) 3)"

lemma three_new: "NewTestClusterWithConfig (\<lambda>k. ''127.0.0.1:'' @ dec_nat k) (DefaultClusterConfig 3) = Some three"
proof -
  have "\<exists>c. NewTestClusterWithConfig (\<lambda>k. ''127.0.0.1:'' @ dec_nat k) (DefaultClusterConfig 3) = Some c"
    using create_nodes_result [of "[0..<3]" "\<lambda>k. ''127.0.0.1:'' @ dec_nat k"
      "\<lparr>tcl_nodes = Map.empty, nodeOrder = [], stoppedNodes = {}, tcl_started = False, initialized = False, tcl_config = DefaultClusterConfig 3\<rparr>"]
    by (auto simp: NewTestClusterWithConfig_def DefaultClusterConfig_def)
  then show ?thesis by (auto simp: three_def NewTestCluster_def)
qed

lemma three_node:
  obtains n where "GetNode three (node_name 0) = Some n" "mem_nok (tn_Node n)"
proof -
  obtain n where n: "GetNode three (node_name 0) = Some n"
    using NewTestCluster_result(5) [OF three_new] by (simp add: GetNode_def new_nodes_name DefaultClusterConfig_def)
  obtain cfgs where f: "fresh_cluster (set (nodeOrder three)) cfgs (idle_cluster (\<lambda>i. tn_Node (the (GetNode three i))))"
    using test_cluster_fresh [OF three_new] by blast
  have "node_name 0 \<in> set (nodeOrder three)" using NewTestCluster_result(2) [OF three_new] by (simp add: DefaultClusterConfig_def)
  from mem_reachable(1) [OF f, of "[]"] this n have "mem_nok (tn_Node n)" by (auto simp: idle_cluster_def)
  with n that show ?thesis by blast
qed


theorem RestartNode_restores_witness:
  "\<exists>c' n'. RestartNode (\<lambda>_. None) (nodeOrder three) (node_name 0) three = Some (c', None)
     \<and> GetNode c' (node_name 0) = Some n' \<and> started (tn_Node n')"
proof -
  obtain n where n: "GetNode three (node_name 0) = Some n" "mem_nok (tn_Node n)" by (rule three_node)
  from RestartNode_restores [OF new_cluster_wf [OF three_new] n, of "\<lambda>_. None" "nodeOrder three"] show ?thesis by blast
qed

text \<open>
  After \<^verbatim>\<open>Stop\<close> of the whole cluster no node runs, but none is marked as stopped: all of them are
  counted as running, and one that was leader is still reported as the leader.
\<close>

theorem stopped_cluster_counts_as_running:
  assumes "TestCluster_Stop pools order c = Some c'" "tcl_started c" "stoppedNodes c = {}"
  shows "RunningNodeCount c' = NodeCount c'"
proof -
  have "stoppedNodes c1 = {}" if "stop_nodes pools is c0 = Some c1" "stoppedNodes c0 = {}" for "is" c0 c1
    using that by (induction "is" arbitrary: c0) (auto split: option.splits)
  then have "stoppedNodes c' = {}" using assms by (auto simp: TestCluster_Stop_def)
  then show ?thesis by (simp add: RunningNodeCount_def NodeCount_def)
qed

end
