(* ===== verification/Spec2Isabelle.thy ===== *)
theory Spec2Isabelle
  imports Badger_Cluster Raft_Node_Theorems HTTP_Handler Server_Process Test_Cluster
begin

text \<open>
  A verification of the distributed key-value store: nodes that replicate a log of commands with
  Raft, apply committed commands to a key-value store and serve clients over HTTP. Files are named
  relative to \<^verbatim>\<open>src/\<close>.

  \<^bold>\<open>The program and its parts.\<close>
  A process (\<^verbatim>\<open>cmd/server/main.go\<close>) reads its configuration (\<^verbatim>\<open>pkg/config\<close>), opens
  one storage object (\<^verbatim>\<open>internal/storage\<close>), and gives it to a Raft node
  (\<^verbatim>\<open>internal/raft\<close>), which keeps its term, vote and log in it, and to a key-value server
  (\<^verbatim>\<open>internal/server/kv_server.go\<close>), which keeps the key-value data in it. The node sends
  committed commands to the server through the channel \<^verbatim>\<open>applyCh\<close>; the server proposes the
  commands of its clients to the node and answers them when they come back. The HTTP handler
  (\<^verbatim>\<open>internal/server/http_handler.go\<close>) translates requests into calls of the server and forwards
  writes to the leader. Nodes talk to each other through the gRPC transport.

  \<^bold>\<open>Theories and what they model.\<close>
  \<^item> \<open>Prelude\<close>: types shared by all (terms and indices, byte strings, Go maps with zero values),
    interval-shaped maps, the named collections of definitions.
  \<^item> \<open>Storage_Interface\<close> (\<^verbatim>\<open>interface.go\<close>): stored data, errors, the interface as a record of
    operations, and its contract as the locales \<open>kv_storage\<close>, \<open>state_storage\<close>, \<open>log_storage\<close>,
    \<open>snapshot_storage\<close> and their sum \<open>storage\<close>, over an abstract state. The contract names the
    numbers and node IDs a storage can represent: all of them in memory, those of 63 bits and of valid
    UTF-8 in BadgerDB.
  \<^item> \<open>Memory_Storage\<close> (\<^verbatim>\<open>memory.go\<close>): every operation; it interprets all five locales.
  \<^item> \<open>Badger_Storage\<close> (\<^verbatim>\<open>badger.go\<close>): every operation, the key layout and the JSON of the stored
    values over a record of database operations; BadgerDB is a parameter. \<open>Badger_Theorems\<close> states
    what is relied on as the locales \<open>badger_db\<close> and \<open>badger_healthy\<close> (with a database of sorted
    lists as an instance) and derives the storage's behaviour; \<open>kv_storage\<close>, \<open>shared_store\<close> and
    \<open>storage\<close> (in \<open>Badger_Cluster\<close>) are sublocales.
  \<^item> \<open>Raft_Log\<close> (\<^verbatim>\<open>log.go\<close>): the log with its cache and eviction.
  \<^item> \<open>Raft_Types\<close>, \<open>Command_Codec\<close>, \<open>Codec_Roundtrip\<close> (\<^verbatim>\<open>types.go\<close>, \<^verbatim>\<open>raft.proto\<close>):
    messages, commands and their JSON form, with the part of \<^verbatim>\<open>encoding/json\<close>, base64 and UTF-8
    that decides it. \<open>JSON_Objects\<close> does the same for other structures.
  \<^item> \<open>Raft_Node\<close>, \<open>Raft_Election\<close>, \<open>Raft_RPC\<close>, \<open>Raft_Replication\<close> (\<^verbatim>\<open>raft.go\<close>,
    \<^verbatim>\<open>election.go\<close>, \<^verbatim>\<open>rpc_handlers.go\<close>, \<^verbatim>\<open>replication.go\<close>): the node's fields and
    one function per critical section, that is, per stretch of code between acquiring and releasing
    the node's mutex, with all early returns and storage errors; goroutines are counted, signal
    channels of capacity one are flags.
  \<^item> \<open>Raft_Spec\<close>: the specification of a node, on an abstract log and without caches, storage or
    channels; \<open>Raft_Refine\<close> proves each critical section to compute its specification over any
    \<open>storage\<close>.
  \<^item> \<open>Raft_Cluster\<close>: clusters of nodes, for the implementation and the specification alike. A run
    is a list of events: timeouts, deliveries, responses, proposals, applications, restarts. The
    network keeps every message, so delivering late, twice, out of order or never are all runs.
    \<open>Raft_Votes\<close>, \<open>Raft_Histories\<close>, \<open>Raft_Completeness\<close>, \<open>Raft_Safety\<close> carry the
    invariants of specification clusters, \<open>Raft_Bounds\<close> bounds their terms and indices by the
    length of the run, \<open>Raft_Simulation\<close> transfers both to the implementation over any \<open>storage\<close>
    (and runs of the specification back to runs of the implementation), \<open>Raft_Demo\<close> evaluates a
    concrete run, \<open>Raft_Theorems\<close> states the results in memory and \<open>Badger_Cluster\<close> on BadgerDB.
  \<^item> \<open>Raft_Frame\<close>: the locale \<open>storage_frame\<close>, what the node leaves alone in the storage.
  \<^item> \<open>Raft_Node_Theorems\<close>: properties of single operations of the node.
  \<^item> \<open>KV_Server\<close> (\<^verbatim>\<open>kv_server.go\<close>): the server, its result channels in a heap, \<^verbatim>\<open>propose\<close>
    split where it holds no lock; \<open>KV_System\<close>: a whole process with its clients as an interleaving
    of steps, and the locale \<open>shared_store\<close>; \<open>KV_Theorems\<close>: its properties.
  \<^item> \<open>HTTP_Handler\<close> (\<^verbatim>\<open>http_handler.go\<close>), \<open>Configuration\<close> (\<^verbatim>\<open>internal/raft/config.go\<close>,
    \<^verbatim>\<open>internal/server/config.go\<close>, \<^verbatim>\<open>pkg/config\<close>, \<^verbatim>\<open>main.go\<close>).
  \<^item> \<open>Transport\<close> (\<^verbatim>\<open>internal/transport\<close>): life cycle, connection pool, senders and receivers;
    what gRPC does with a dialled connection and a call is a parameter.
  \<^item> \<open>WebSocket\<close> (\<^verbatim>\<open>websocket.go\<close>): the status messages, and the life cycle of connections as
    an interleaving of the handler's goroutines at the points where they block.
  \<^item> \<open>Server_Process\<close> (\<^verbatim>\<open>main.go\<close>): the main goroutine from starting the transport to closing
    the store, interleaved with the goroutines of all the components above.
  \<^item> \<open>Test_Wait\<close>, \<open>Test_Cluster\<close> (\<^verbatim>\<open>pkg/testutil\<close>): the loops that wait for a condition or a
    message, free addresses, and the test nodes and clusters with every operation a test can call.

  \<^bold>\<open>What is shown.\<close>
  \<^item> Consensus: election safety, log matching, leader completeness, agreement of committed entries
    and of everything ever delivered, delivery in order, persistence of term and vote, and that the
    implementation refines the specification, for every run of every cluster that starts fresh, in
    memory and on BadgerDB.
  \<^item> Operations: a granted vote is saved, the commit rule, the cache is transparent, a restart
    restores the persistent state, a rejected request makes progress.
  \<^item> Server: replicas converge, the store is the replay of the handled messages (in memory and on
    BadgerDB), replaying after a crash is harmless, acknowledgements follow application, shutdown
    answers all clients.
  \<^item> Storage: the log on BadgerDB refines a map, key order, round trips, failed writes have no
    effect.
  \<^item> Encoding and API: commands and response bodies survive their encoding, guards and status codes,
    builder and options agree, timeouts are in range, peers are parsed right.
  \<^item> Connections: the pool neither leaks nor mixes up peers, WebSocket connections are closed exactly
    once.
  \<^item> Process: start and shutdown never panic and leave no loop running, and the stored data stays as
    it was when the key-value server was stopped.
  \<^item> Test utilities: test clusters stay well-formed under every operation, the consensus theorems hold
    for them, a restarted node has its stored state, waiting ends, no listener leaks.
  \<^item> Behaviours that differ from what comments or documents say are proved too: request IDs that
    collide, a stale linearizable read, a forwarding loop, the local configuration, a single node that
    never commits, a second vote after a failed no-op, a leader silenced by an old signal, a shutdown
    of the WebSocket handler (and so of the process) that waits for ever, a node that becomes leader
    after it was stopped, a transport that panics when stopped twice.

  \<^bold>\<open>Bounds and fuel.\<close>
  \<^verbatim>\<open>int64\<close> terms and indices are integers: they grow by at most one per event, as
  \<open>Raft_Bounds\<close> proves, so a run of fewer than $2^{63}$ events stays in range; where bytes decide
  (log keys, JSON) the conversion reduces modulo $2^{64}$.
  Request IDs are 64-bit words. The JSON parser's fuel is twice the length of its input plus one,
  which the round-trip theorems show to be enough for what the program writes. All other functions
  are total by structural recursion or a proved measure. Loops that wait are lists of what each
  iteration observes.

  \<^bold>\<open>Not modelled.\<close>
  The gRPC and gorilla/websocket libraries (the network's effect on messages is the network of the
  clusters above), the metrics (no effect on the state of the store), logging, flags and
  signals, and generated protobuf code. The leader never sends InstallSnapshot in this program; its handler is modelled, and the
  cluster runs contain no snapshots.
\<close>

end
